(* ===== verification/Prelude.thy ===== *)
theory Prelude
  imports Main "HOL-Library.Word" "HOL-Library.Tree" "HOL-Library.Multiset"
begin

text \<open>
  Shared vocabulary of the development: the machine integers and pointers of the C sources,
  the generic facts on lists and words that several components use, and the collections of
  simplification rules the component theories fill.

  Pointers are natural numbers and \<open>NULL\<close> is the address 0. A struct that is reached through
  pointers lives in a memory \<open>addr \<Rightarrow> record\<close>; a call of \<open>malloc\<close> is an argument of the operation
  that makes it (the address it returned, or \<open>NULL\<close>), so that every theorem covers every
  allocator and the out-of-memory branch.
\<close>

unbundle bit_operations_syntax

section \<open>Machine integers and pointers\<close>

type_synonym u8 = "8 word"
type_synonym u16 = "16 word"
type_synonym u32 = "32 word"
type_synonym u64 = "64 word"
type_synonym addr = nat

abbreviation NULL :: addr where "NULL \<equiv> 0"

abbreviation UINT32_MAX :: u32 where "UINT32_MAX \<equiv> 0xFFFFFFFF"

text \<open>Fields of updated records, heap lookups and list representations.\<close>

named_theorems mem_simps \<open>reading a memory after one field of one object was written\<close>
named_theorems rep_simps \<open>unfolding of representation predicates\<close>

section \<open>Lists\<close>

lemma sorted_split_takeWhile:
  fixes f :: "'a \<Rightarrow> 'k::linorder"
  assumes "\<forall>a \<in> set xs. f a \<le> k" and "\<forall>a \<in> set ys. k < f a"
  shows "takeWhile (\<lambda>a. f a \<le> k) (xs @ ys) = xs" and "dropWhile (\<lambda>a. f a \<le> k) (xs @ ys) = ys"
proof -
  have "takeWhile (\<lambda>a. f a \<le> k) ys = []" and "dropWhile (\<lambda>a. f a \<le> k) ys = ys"
    using assms(2) by (cases ys; auto)+
  with assms(1) show "takeWhile (\<lambda>a. f a \<le> k) (xs @ ys) = xs"
    and "dropWhile (\<lambda>a. f a \<le> k) (xs @ ys) = ys"
    by (simp_all add: takeWhile_append2 dropWhile_append2)
qed

lemma sorted_map_cong:
  "(\<And>x. x \<in> set xs \<Longrightarrow> f x = g x) \<Longrightarrow> sorted (map f xs) \<longleftrightarrow> sorted (map g xs)"
  by (metis map_cong)

lemma sorted_hd_min: "sorted (map f xs) \<Longrightarrow> x \<in> set xs \<Longrightarrow> f (hd xs) \<le> f x"
  by (cases xs) auto

lemma sorted_last_max: "sorted (map f xs) \<Longrightarrow> x \<in> set xs \<Longrightarrow> f x \<le> f (last xs)"
  by (induction xs) (auto split: if_splits)

lemma distinct_split_eq:
  "xs @ x # ys = xs' @ x # ys' \<Longrightarrow> distinct (xs @ x # ys) \<Longrightarrow> xs = xs' \<and> ys = ys'"
  by (subst (asm) append_Cons_eq_iff) auto

lemma distinct_hd_split: "xs = ys @ hd xs # zs \<Longrightarrow> distinct xs \<Longrightarrow> ys = []"
  by (cases ys; cases xs) auto

lemma sorted_takeWhile_dropWhile:
  "sorted (map f xs) \<Longrightarrow> y \<in> set (dropWhile (\<lambda>a. f a \<le> k) xs) \<Longrightarrow> k < (f y :: 'k::linorder)"
proof (induction xs)
  case (Cons x xs)
  then show ?case by (force split: if_splits)
qed simp

lemma sorted_insert_after:
  fixes f :: "'v \<Rightarrow> 'k::linorder"
  assumes "sorted (map f xs)"
  shows "sorted (map f (takeWhile (\<lambda>a. f a \<le> f x) xs @ x # dropWhile (\<lambda>a. f a \<le> f x) xs))"
proof -
  define ts ds where "ts = takeWhile (\<lambda>a. f a \<le> f x) xs" and "ds = dropWhile (\<lambda>a. f a \<le> f x) xs"
  have "sorted (map f (ts @ ds))" using assms by (simp add: ts_def ds_def)
  moreover have "\<forall>y \<in> set ts. f y \<le> f x" unfolding ts_def by (auto dest: set_takeWhileD)
  moreover have "\<forall>y \<in> set ds. f x < f y" unfolding ds_def using sorted_takeWhile_dropWhile[OF assms] by blast
  ultimately show ?thesis
    unfolding ts_def[symmetric] ds_def[symmetric] by (simp add: sorted_append less_imp_le)
qed

lemma sort_key_snoc:
  fixes f :: "'v \<Rightarrow> 'k::linorder"
  shows "sort_key f (ys @ [x]) =
     takeWhile (\<lambda>a. f a \<le> f x) (sort_key f ys) @ x # dropWhile (\<lambda>a. f a \<le> f x) (sort_key f ys)"
    (is "_ = ?r")
proof (rule properties_for_sort_key)
  let ?t = "takeWhile (\<lambda>a. f a \<le> f x) (sort_key f ys)" and ?d = "dropWhile (\<lambda>a. f a \<le> f x) (sort_key f ys)"
  have s: "?t @ ?d = sort_key f ys" by simp
  have "mset ?t + mset ?d = mset ys" by (metis mset_append mset_sort s)
  then show "mset ?r = mset (ys @ [x])" by simp
  have "filter (\<lambda>a. f x = f a) ?d = []"
    using sorted_takeWhile_dropWhile[of f "sort_key f ys" _ "f x"] by (force simp: filter_empty_conv)
  then show "filter (\<lambda>a. f k = f a) ?r = filter (\<lambda>a. f k = f a) (ys @ [x])" for k
  proof -
    have "filter (\<lambda>a. f k = f a) ?t @ filter (\<lambda>a. f k = f a) ?d = filter (\<lambda>a. f k = f a) ys"
      unfolding filter_append[symmetric] s by (simp add: sort_key_stable eq_commute[of "f k"])
    with \<open>filter (\<lambda>a. f x = f a) ?d = []\<close> show ?thesis by (cases "f k = f x") auto
  qed
  show "sorted (map f ?r)" by (rule sorted_insert_after) simp
qed

section \<open>Words\<close>

lemma unat_Suc_u32: "unat (w + 1) = Suc (unat w)" if "w \<noteq> UINT32_MAX" for w :: u32
proof -
  from that have "1 + w \<noteq> 0"
    by (auto simp: add_eq_0_iff)
  then show ?thesis by (simp add: unatSuc add.commute)
qed

lemma unat_u32_less: "unat (w :: u32) < 2 ^ 32"
  using unsigned_less[of w, where 'a = nat] by simp

lemma unat_of_nat_u32: "n < 2 ^ 32 \<Longrightarrow> unat (of_nat n :: u32) = n"
  by (simp add: unat_of_nat take_bit_nat_eq_self)

end
