(* ===== verification/Rbtree.thy ===== *)
theory Rbtree
  imports Prelude
begin

text \<open>
  Model of \<open>mini_rtos/src/rbtree.c\<close>: the CLRS red-black tree with parent pointers and a
  sentinel node. The nodes live in a memory \<open>addr \<Rightarrow> rb_node_t\<close>; every assignment through a
  pointer is one update of that memory, in the order of the source. Loops over the memory are
  \<open>partial_function (option)\<close>: \<open>None\<close> is a loop that does not end.

  \<open>'m\<close> is the memory the tasks live in: \<open>get_key\<close> reads a task through its pointer.
\<close>

section \<open>Data\<close>

datatype rb_color_t = RB_BLACK | RB_RED

record rb_node_t =
  rb_parent :: addr
  rb_left :: addr
  rb_right :: addr
  rb_color :: rb_color_t
  rb_task :: addr
  rb_key :: u32

record 'm rb_tree_t =
  rbt_root :: addr
  rbt_nil :: addr
  rbt_size :: u32
  rbt_get_key :: "'m \<Rightarrow> addr \<Rightarrow> u32"
  rbt_mem :: "addr \<Rightarrow> rb_node_t"
  rbt_live :: "addr set"

text \<open>Reads \<open>x->f\<close> and writes \<open>x->f = v\<close> through a node pointer.\<close>

abbreviation rparent :: "'m rb_tree_t \<Rightarrow> addr \<Rightarrow> addr" where
  "rparent t x \<equiv> rb_parent (rbt_mem t x)"
abbreviation rleft :: "'m rb_tree_t \<Rightarrow> addr \<Rightarrow> addr" where
  "rleft t x \<equiv> rb_left (rbt_mem t x)"
abbreviation rright :: "'m rb_tree_t \<Rightarrow> addr \<Rightarrow> addr" where
  "rright t x \<equiv> rb_right (rbt_mem t x)"
abbreviation rcolor :: "'m rb_tree_t \<Rightarrow> addr \<Rightarrow> rb_color_t" where
  "rcolor t x \<equiv> rb_color (rbt_mem t x)"
abbreviation rtask :: "'m rb_tree_t \<Rightarrow> addr \<Rightarrow> addr" where
  "rtask t x \<equiv> rb_task (rbt_mem t x)"
abbreviation rkey :: "'m rb_tree_t \<Rightarrow> addr \<Rightarrow> u32" where
  "rkey t x \<equiv> rb_key (rbt_mem t x)"

definition upd_node :: "(rb_node_t \<Rightarrow> rb_node_t) \<Rightarrow> addr \<Rightarrow> 'm rb_tree_t \<Rightarrow> 'm rb_tree_t" where
  "upd_node f x t = t\<lparr>rbt_mem := (rbt_mem t)(x := f (rbt_mem t x))\<rparr>"

abbreviation set_parent :: "addr \<Rightarrow> addr \<Rightarrow> 'm rb_tree_t \<Rightarrow> 'm rb_tree_t" where
  "set_parent x v \<equiv> upd_node (rb_parent_update (\<lambda>_. v)) x"
abbreviation set_left :: "addr \<Rightarrow> addr \<Rightarrow> 'm rb_tree_t \<Rightarrow> 'm rb_tree_t" where
  "set_left x v \<equiv> upd_node (rb_left_update (\<lambda>_. v)) x"
abbreviation set_right :: "addr \<Rightarrow> addr \<Rightarrow> 'm rb_tree_t \<Rightarrow> 'm rb_tree_t" where
  "set_right x v \<equiv> upd_node (rb_right_update (\<lambda>_. v)) x"
abbreviation set_color :: "addr \<Rightarrow> rb_color_t \<Rightarrow> 'm rb_tree_t \<Rightarrow> 'm rb_tree_t" where
  "set_color x v \<equiv> upd_node (rb_color_update (\<lambda>_. v)) x"

section \<open>Helper functions\<close>

text \<open>\<open>rb_create_node\<close>: \<open>node\<close> is what \<open>malloc\<close> returned; on \<open>NULL\<close> nothing is written.\<close>

definition rb_create_node :: "'m \<Rightarrow> 'm rb_tree_t \<Rightarrow> addr \<Rightarrow> addr \<Rightarrow> 'm rb_tree_t" where
  "rb_create_node m t task node =
     (if node = NULL then t
      else t\<lparr>rbt_mem := (rbt_mem t)(node :=
               \<lparr>rb_parent = rbt_nil t, rb_left = rbt_nil t, rb_right = rbt_nil t,
                rb_color = RB_RED, rb_task = task, rb_key = rbt_get_key t m task\<rparr>),
             rbt_live := insert node (rbt_live t)\<rparr>)"

definition rb_left_rotate :: "'m rb_tree_t \<Rightarrow> addr \<Rightarrow> 'm rb_tree_t" where
  "rb_left_rotate t x =
     (let y = rright t x;
          t = set_right x (rleft t y) t;
          t = (if rleft t y \<noteq> rbt_nil t then set_parent (rleft t y) x t else t);
          t = set_parent y (rparent t x) t;
          t = (if rparent t x = rbt_nil t then t\<lparr>rbt_root := y\<rparr>
               else if x = rleft t (rparent t x) then set_left (rparent t x) y t
               else set_right (rparent t x) y t);
          t = set_left y x t
      in set_parent x y t)"

definition rb_right_rotate :: "'m rb_tree_t \<Rightarrow> addr \<Rightarrow> 'm rb_tree_t" where
  "rb_right_rotate t y =
     (let x = rleft t y;
          t = set_left y (rright t x) t;
          t = (if rright t x \<noteq> rbt_nil t then set_parent (rright t x) y t else t);
          t = set_parent x (rparent t y) t;
          t = (if rparent t y = rbt_nil t then t\<lparr>rbt_root := x\<rparr>
               else if y = rright t (rparent t y) then set_right (rparent t y) x t
               else set_left (rparent t y) x t);
          t = set_right x y t
      in set_parent y x t)"

text \<open>One iteration of the loop of \<open>rb_insert_fixup\<close>: the tree and the new \<open>z\<close>.\<close>

definition rb_insert_fixup_body :: "'m rb_tree_t \<Rightarrow> addr \<Rightarrow> 'm rb_tree_t \<times> addr" where
  "rb_insert_fixup_body t z =
     (if rparent t z = rleft t (rparent t (rparent t z)) then
        (let y = rright t (rparent t (rparent t z)) in
         if rcolor t y = RB_RED then
           (let t = set_color (rparent t z) RB_BLACK t;
                t = set_color y RB_BLACK t;
                t = set_color (rparent t (rparent t z)) RB_RED t
            in (t, rparent t (rparent t z)))
         else
           (let (t, z) = (if z = rright t (rparent t z)
                          then (let z = rparent t z in (rb_left_rotate t z, z)) else (t, z));
                t = set_color (rparent t z) RB_BLACK t;
                t = set_color (rparent t (rparent t z)) RB_RED t
            in (rb_right_rotate t (rparent t (rparent t z)), z)))
      else
        (let y = rleft t (rparent t (rparent t z)) in
         if rcolor t y = RB_RED then
           (let t = set_color (rparent t z) RB_BLACK t;
                t = set_color y RB_BLACK t;
                t = set_color (rparent t (rparent t z)) RB_RED t
            in (t, rparent t (rparent t z)))
         else
           (let (t, z) = (if z = rleft t (rparent t z)
                          then (let z = rparent t z in (rb_right_rotate t z, z)) else (t, z));
                t = set_color (rparent t z) RB_BLACK t;
                t = set_color (rparent t (rparent t z)) RB_RED t
            in (rb_left_rotate t (rparent t (rparent t z)), z))))"

partial_function (option) rb_insert_fixup_loop ::
    "'m rb_tree_t \<Rightarrow> addr \<Rightarrow> 'm rb_tree_t option" where
  "rb_insert_fixup_loop t z =
     (if rcolor t (rparent t z) = RB_RED
      then rb_insert_fixup_loop (fst (rb_insert_fixup_body t z)) (snd (rb_insert_fixup_body t z))
      else Some t)"

definition rb_insert_fixup :: "'m rb_tree_t \<Rightarrow> addr \<Rightarrow> 'm rb_tree_t option" where
  "rb_insert_fixup t z =
     map_option (\<lambda>t. set_color (rbt_root t) RB_BLACK t) (rb_insert_fixup_loop t z)"

definition rb_transplant :: "'m rb_tree_t \<Rightarrow> addr \<Rightarrow> addr \<Rightarrow> 'm rb_tree_t" where
  "rb_transplant t u v =
     (let t = (if rparent t u = rbt_nil t then t\<lparr>rbt_root := v\<rparr>
               else if u = rleft t (rparent t u) then set_left (rparent t u) v t
               else set_right (rparent t u) v t)
      in set_parent v (rparent t u) t)"

text \<open>
  One iteration of the loop of \<open>rb_delete_fixup\<close>: the tree and the new \<open>x\<close>. The iteration has two
  stages on each side: the red sibling is rotated away, then the black sibling \<open>w\<close> is treated.
\<close>

definition rb_delete_red_sibling_left :: "'m rb_tree_t \<Rightarrow> addr \<Rightarrow> 'm rb_tree_t \<times> addr" where
  "rb_delete_red_sibling_left t x =
     (let w = rright t (rparent t x) in
      if rcolor t w = RB_RED then
        (let t = set_color w RB_BLACK t;
             t = set_color (rparent t x) RB_RED t;
             t = rb_left_rotate t (rparent t x)
         in (t, rright t (rparent t x)))
      else (t, w))"

definition rb_delete_black_sibling_left :: "'m rb_tree_t \<Rightarrow> addr \<Rightarrow> addr \<Rightarrow> 'm rb_tree_t \<times> addr" where
  "rb_delete_black_sibling_left t x w =
     (if rcolor t (rleft t w) = RB_BLACK \<and> rcolor t (rright t w) = RB_BLACK then
        (let t = set_color w RB_RED t in (t, rparent t x))
      else
        (let (t, w) = (if rcolor t (rright t w) = RB_BLACK then
                         (let t = set_color (rleft t w) RB_BLACK t;
                              t = set_color w RB_RED t;
                              t = rb_right_rotate t w
                          in (t, rright t (rparent t x)))
                       else (t, w));
             t = set_color w (rcolor t (rparent t x)) t;
             t = set_color (rparent t x) RB_BLACK t;
             t = set_color (rright t w) RB_BLACK t;
             t = rb_left_rotate t (rparent t x)
         in (t, rbt_root t)))"

definition rb_delete_red_sibling_right :: "'m rb_tree_t \<Rightarrow> addr \<Rightarrow> 'm rb_tree_t \<times> addr" where
  "rb_delete_red_sibling_right t x =
     (let w = rleft t (rparent t x) in
      if rcolor t w = RB_RED then
        (let t = set_color w RB_BLACK t;
             t = set_color (rparent t x) RB_RED t;
             t = rb_right_rotate t (rparent t x)
         in (t, rleft t (rparent t x)))
      else (t, w))"

definition rb_delete_black_sibling_right :: "'m rb_tree_t \<Rightarrow> addr \<Rightarrow> addr \<Rightarrow> 'm rb_tree_t \<times> addr" where
  "rb_delete_black_sibling_right t x w =
     (if rcolor t (rright t w) = RB_BLACK \<and> rcolor t (rleft t w) = RB_BLACK then
        (let t = set_color w RB_RED t in (t, rparent t x))
      else
        (let (t, w) = (if rcolor t (rleft t w) = RB_BLACK then
                         (let t = set_color (rright t w) RB_BLACK t;
                              t = set_color w RB_RED t;
                              t = rb_left_rotate t w
                          in (t, rleft t (rparent t x)))
                       else (t, w));
             t = set_color w (rcolor t (rparent t x)) t;
             t = set_color (rparent t x) RB_BLACK t;
             t = set_color (rleft t w) RB_BLACK t;
             t = rb_right_rotate t (rparent t x)
         in (t, rbt_root t)))"

definition rb_delete_fixup_body :: "'m rb_tree_t \<Rightarrow> addr \<Rightarrow> 'm rb_tree_t \<times> addr" where
  "rb_delete_fixup_body t x =
     (if x = rleft t (rparent t x)
      then (case rb_delete_red_sibling_left t x of (t, w) \<Rightarrow> rb_delete_black_sibling_left t x w)
      else (case rb_delete_red_sibling_right t x of (t, w) \<Rightarrow> rb_delete_black_sibling_right t x w))"

partial_function (option) rb_delete_fixup_loop ::
    "'m rb_tree_t \<Rightarrow> addr \<Rightarrow> ('m rb_tree_t \<times> addr) option" where
  "rb_delete_fixup_loop t x =
     (if x \<noteq> rbt_root t \<and> rcolor t x = RB_BLACK
      then rb_delete_fixup_loop (fst (rb_delete_fixup_body t x)) (snd (rb_delete_fixup_body t x))
      else Some (t, x))"

definition rb_delete_fixup :: "'m rb_tree_t \<Rightarrow> addr \<Rightarrow> 'm rb_tree_t option" where
  "rb_delete_fixup t x = map_option (\<lambda>(t, x). set_color x RB_BLACK t) (rb_delete_fixup_loop t x)"

section \<open>Public interface\<close>

text \<open>
  \<open>rb_init\<close>: \<open>nil\<close> is the address \<open>malloc\<close> returned. The source dereferences it unchecked, so a
  failed allocation is undefined behaviour: \<open>None\<close>. \<open>key\<close> of the sentinel stays indeterminate
  (\<open>junk\<close>).
\<close>

definition rb_init :: "(addr \<Rightarrow> rb_node_t) \<Rightarrow> addr \<Rightarrow> ('m \<Rightarrow> addr \<Rightarrow> u32) \<Rightarrow> 'm rb_tree_t option" where
  "rb_init junk nl key_func =
     (if nl = NULL then None
      else Some \<lparr>rbt_root = nl, rbt_nil = nl, rbt_size = 0, rbt_get_key = key_func,
                 rbt_mem = junk(nl := \<lparr>rb_parent = NULL, rb_left = NULL, rb_right = NULL,
                                       rb_color = RB_BLACK, rb_task = NULL, rb_key = rb_key (junk nl)\<rparr>),
                 rbt_live = {nl}\<rparr>)"

text \<open>The descent of \<open>rb_insert\<close>: \<open>x\<close> walks down, \<open>y\<close> trails it; the result is the last \<open>y\<close>.\<close>

partial_function (option) rb_insert_descend ::
    "'m rb_tree_t \<Rightarrow> u32 \<Rightarrow> addr \<Rightarrow> addr \<Rightarrow> addr option" where
  "rb_insert_descend t k y x =
     (if x \<noteq> rbt_nil t
      then rb_insert_descend t k x (if k < rkey t x then rleft t x else rright t x)
      else Some y)"

definition rb_link :: "'m rb_tree_t \<Rightarrow> addr \<Rightarrow> addr \<Rightarrow> 'm rb_tree_t" where
  "rb_link t z y =
     (let t = set_parent z y t;
          t = (if y = rbt_nil t then t\<lparr>rbt_root := z\<rparr>
               else if rkey t z < rkey t y then set_left y z t
               else set_right y z t)
      in t\<lparr>rbt_size := rbt_size t + 1\<rparr>)"

definition rb_insert :: "'m \<Rightarrow> 'm rb_tree_t \<Rightarrow> addr \<Rightarrow> addr \<Rightarrow> 'm rb_tree_t option" where
  "rb_insert m t task z =
     (let t = rb_create_node m t task z in
      if z = NULL then Some t
      else Option.bind (rb_insert_descend t (rkey t z) (rbt_nil t) (rbt_root t))
             (\<lambda>y. rb_insert_fixup (rb_link t z y) z))"

text \<open>
  The sentinel's own children are \<open>NULL\<close>, so a descent that starts at the sentinel reads through
  \<open>NULL\<close>: that is undefined behaviour, \<open>None\<close>.
\<close>

partial_function (option) rb_minimum :: "'m rb_tree_t \<Rightarrow> addr \<Rightarrow> addr option" where
  "rb_minimum t node =
     (if node = NULL then None
      else if rleft t node \<noteq> rbt_nil t then rb_minimum t (rleft t node) else Some node)"

partial_function (option) rb_maximum :: "'m rb_tree_t \<Rightarrow> addr \<Rightarrow> addr option" where
  "rb_maximum t node =
     (if node = NULL then None
      else if rright t node \<noteq> rbt_nil t then rb_maximum t (rright t node) else Some node)"

text \<open>
  \<open>rb_delete\<close>. \<open>rb_splice\<close> is the code before the fix-up: the tree, \<open>x\<close> and \<open>y_original_color\<close>.
\<close>

definition rb_splice :: "'m rb_tree_t \<Rightarrow> addr \<Rightarrow> ('m rb_tree_t \<times> addr \<times> rb_color_t) option" where
  "rb_splice t z =
     (if rleft t z = rbt_nil t then
        Some (rb_transplant t z (rright t z), rright t z, rcolor t z)
      else if rright t z = rbt_nil t then
        Some (rb_transplant t z (rleft t z), rleft t z, rcolor t z)
      else
        Option.bind (rb_minimum t (rright t z)) (\<lambda>y.
          let y_original_color = rcolor t y;
              x = rright t y;
              t = (if rparent t y = z then set_parent x y t
                   else let t = rb_transplant t y (rright t y);
                            t = set_right y (rright t z) t
                        in set_parent (rright t y) y t);
              t = rb_transplant t z y;
              t = set_left y (rleft t z) t;
              t = set_parent (rleft t y) y t;
              t = set_color y (rcolor t z) t
          in Some (t, x, y_original_color)))"

definition rb_delete :: "'m rb_tree_t \<Rightarrow> addr \<Rightarrow> 'm rb_tree_t option" where
  "rb_delete t z =
     Option.bind (rb_splice t z) (\<lambda>(t, x, y_original_color).
       map_option (\<lambda>t. t\<lparr>rbt_live := rbt_live t - {z}, rbt_size := rbt_size t - 1\<rparr>)
         (if y_original_color = RB_BLACK then rb_delete_fixup t x else Some t))"

partial_function (option) rb_climb_right :: "'m rb_tree_t \<Rightarrow> addr \<Rightarrow> addr \<Rightarrow> addr option" where
  "rb_climb_right t x y =
     (if y \<noteq> rbt_nil t \<and> x = rright t y then rb_climb_right t y (rparent t y) else Some y)"

definition rb_successor :: "'m rb_tree_t \<Rightarrow> addr \<Rightarrow> addr option" where
  "rb_successor t x =
     (if rright t x \<noteq> rbt_nil t then rb_minimum t (rright t x)
      else rb_climb_right t x (rparent t x))"

partial_function (option) rb_climb_left :: "'m rb_tree_t \<Rightarrow> addr \<Rightarrow> addr \<Rightarrow> addr option" where
  "rb_climb_left t x y =
     (if y \<noteq> rbt_nil t \<and> x = rleft t y then rb_climb_left t y (rparent t y) else Some y)"

definition rb_predecessor :: "'m rb_tree_t \<Rightarrow> addr \<Rightarrow> addr option" where
  "rb_predecessor t x =
     (if rleft t x \<noteq> rbt_nil t then rb_maximum t (rleft t x)
      else rb_climb_left t x (rparent t x))"

partial_function (option) rb_search_loop :: "'m rb_tree_t \<Rightarrow> u32 \<Rightarrow> addr \<Rightarrow> addr option" where
  "rb_search_loop t k x =
     (if x \<noteq> rbt_nil t \<and> k \<noteq> rkey t x
      then rb_search_loop t k (if k < rkey t x then rleft t x else rright t x)
      else Some x)"

text \<open>\<open>NULL\<close> is the answer of an unsuccessful search.\<close>

definition rb_search :: "'m rb_tree_t \<Rightarrow> u32 \<Rightarrow> addr option" where
  "rb_search t k = map_option (\<lambda>x. if x \<noteq> rbt_nil t then x else NULL) (rb_search_loop t k (rbt_root t))"

partial_function (option) rb_find_task_loop ::
    "'m rb_tree_t \<Rightarrow> addr \<Rightarrow> u32 \<Rightarrow> addr \<Rightarrow> addr option" where
  "rb_find_task_loop t task k x =
     (if x \<noteq> rbt_nil t then
        (if task = rtask t x then Some x
         else rb_find_task_loop t task k (if k < rkey t x then rleft t x else rright t x))
      else Some NULL)"

definition rb_find_task :: "'m \<Rightarrow> 'm rb_tree_t \<Rightarrow> addr \<Rightarrow> addr option" where
  "rb_find_task m t task = rb_find_task_loop t task (rbt_get_key t m task) (rbt_root t)"

text \<open>The walks: \<open>visit\<close> is the callback, a transformer of the caller's state.\<close>

partial_function (option) rb_inorder_walk_recursive ::
    "'m rb_tree_t \<Rightarrow> addr \<Rightarrow> (addr \<Rightarrow> 's \<Rightarrow> 's) \<Rightarrow> 's \<Rightarrow> 's option" where
  "rb_inorder_walk_recursive t node visit s =
     (if node \<noteq> rbt_nil t then
        Option.bind (rb_inorder_walk_recursive t (rleft t node) visit s)
          (\<lambda>s. rb_inorder_walk_recursive t (rright t node) visit (visit node s))
      else Some s)"

definition rb_inorder_walk :: "'m rb_tree_t \<Rightarrow> (addr \<Rightarrow> 's \<Rightarrow> 's) \<Rightarrow> 's \<Rightarrow> 's option" where
  "rb_inorder_walk t visit s = rb_inorder_walk_recursive t (rbt_root t) visit s"

partial_function (option) rb_preorder_walk_recursive ::
    "'m rb_tree_t \<Rightarrow> addr \<Rightarrow> (addr \<Rightarrow> 's \<Rightarrow> 's) \<Rightarrow> 's \<Rightarrow> 's option" where
  "rb_preorder_walk_recursive t node visit s =
     (if node \<noteq> rbt_nil t then
        Option.bind (rb_preorder_walk_recursive t (rleft t node) visit (visit node s))
          (\<lambda>s. rb_preorder_walk_recursive t (rright t node) visit s)
      else Some s)"

definition rb_preorder_walk :: "'m rb_tree_t \<Rightarrow> (addr \<Rightarrow> 's \<Rightarrow> 's) \<Rightarrow> 's \<Rightarrow> 's option" where
  "rb_preorder_walk t visit s = rb_preorder_walk_recursive t (rbt_root t) visit s"

definition rb_size :: "'m rb_tree_t \<Rightarrow> u32" where
  "rb_size t = rbt_size t"

definition rb_is_empty :: "'m rb_tree_t \<Rightarrow> bool" where
  "rb_is_empty t \<longleftrightarrow> rbt_root t = rbt_nil t"

text \<open>The recursion of \<open>rb_clear\<close> frees in post-order; it threads the set of live blocks.\<close>

partial_function (option) rb_clear_recursive ::
    "'m rb_tree_t \<Rightarrow> addr \<Rightarrow> addr set \<Rightarrow> addr set option" where
  "rb_clear_recursive t node live =
     (if node \<noteq> rbt_nil t then
        Option.bind (rb_clear_recursive t (rleft t node) live)
          (\<lambda>live. Option.bind (rb_clear_recursive t (rright t node) live)
             (\<lambda>live. Some (live - {node})))
      else Some live)"

definition rb_clear :: "'m rb_tree_t \<Rightarrow> 'm rb_tree_t option" where
  "rb_clear t =
     map_option (\<lambda>live. t\<lparr>rbt_live := live, rbt_root := rbt_nil t, rbt_size := 0\<rparr>)
       (rb_clear_recursive t (rbt_root t) (rbt_live t))"

end
