(* ===== verification/Rbtree_Repr.thy ===== *)
theory Rbtree_Repr
  imports Rbtree
begin

text \<open>
  The abstraction of the pointer structure of \<open>rbtree.c\<close>: a memory represents a tree of node
  addresses (\<open>tree_at\<close>), seen from a focus through a context of crumbs that leads to the root
  (\<open>ctx_at\<close>). The two rotations of the source are shown to be the two rotations of trees in any
  context, and the colour rules are stated on the represented tree.
\<close>

section \<open>Representation of the pointer structure by a tree of addresses\<close>

fun tree_at :: "(addr \<Rightarrow> rb_node_t) \<Rightarrow> addr \<Rightarrow> addr \<Rightarrow> addr \<Rightarrow> addr tree \<Rightarrow> bool" where
  "tree_at m nl p a Leaf \<longleftrightarrow> a = nl"
| "tree_at m nl p a (Node l x r) \<longleftrightarrow>
     a = x \<and> x \<noteq> nl \<and> x \<noteq> NULL \<and> rb_parent (m x) = p \<and>
     tree_at m nl x (rb_left (m x)) l \<and> tree_at m nl x (rb_right (m x)) r"

datatype crumb = CL addr "addr tree" | CR "addr tree" addr

text \<open>A context is the path from the focus up to the root, innermost crumb first.\<close>

fun plug :: "crumb list \<Rightarrow> addr tree \<Rightarrow> addr tree" where
  "plug [] t = t"
| "plug (CL x r # C) t = plug C (Node t x r)"
| "plug (CR l x # C) t = plug C (Node l x t)"

fun ctx_at :: "(addr \<Rightarrow> rb_node_t) \<Rightarrow> addr \<Rightarrow> addr \<Rightarrow> crumb list \<Rightarrow> addr \<Rightarrow> addr \<Rightarrow> bool" where
  "ctx_at m nl rt [] a p \<longleftrightarrow> rt = a \<and> p = nl"
| "ctx_at m nl rt (CL x r # C) a p \<longleftrightarrow>
     p = x \<and> x \<noteq> nl \<and> x \<noteq> NULL \<and> rb_left (m x) = a \<and> tree_at m nl x (rb_right (m x)) r \<and>
     ctx_at m nl rt C x (rb_parent (m x))"
| "ctx_at m nl rt (CR l x # C) a p \<longleftrightarrow>
     p = x \<and> x \<noteq> nl \<and> x \<noteq> NULL \<and> rb_right (m x) = a \<and> tree_at m nl x (rb_left (m x)) l \<and>
     ctx_at m nl rt C x (rb_parent (m x))"

fun ctx_pre :: "crumb list \<Rightarrow> addr list" where
  "ctx_pre [] = []"
| "ctx_pre (CL x r # C) = ctx_pre C"
| "ctx_pre (CR l x # C) = ctx_pre C @ inorder l @ [x]"

fun ctx_post :: "crumb list \<Rightarrow> addr list" where
  "ctx_post [] = []"
| "ctx_post (CL x r # C) = x # inorder r @ ctx_post C"
| "ctx_post (CR l x # C) = ctx_post C"

abbreviation ctx_set :: "crumb list \<Rightarrow> addr set" where
  "ctx_set C \<equiv> set (ctx_pre C) \<union> set (ctx_post C)"

lemma inorder_plug: "inorder (plug C t) = ctx_pre C @ inorder t @ ctx_post C"
  by (induction C t rule: plug.induct) auto

lemma tree_at_plug:
  "tree_at m nl nl rt (plug C t) \<longleftrightarrow> (\<exists>a p. tree_at m nl p a t \<and> ctx_at m nl rt C a p)"
proof (induction C t rule: plug.induct)
  case (1 t)
  then show ?case by auto
next
  case (2 x r C t)
  then show ?case by (fastforce simp: "2.IH")
next
  case (3 l x C t)
  then show ?case by (fastforce simp: "3.IH")
qed

text \<open>The pointers of a node; two memories agree on a set of nodes when these do.\<close>

definition links :: "rb_node_t \<Rightarrow> addr \<times> addr \<times> addr" where
  "links n = (rb_parent n, rb_left n, rb_right n)"

lemma links_eq_iff [simp]:
  "links n = links n' \<longleftrightarrow>
     rb_parent n = rb_parent n' \<and> rb_left n = rb_left n' \<and> rb_right n = rb_right n'"
  by (simp add: links_def)

lemma tree_at_cong:
  assumes "\<And>x. x \<in> set_tree t \<Longrightarrow> links (m' x) = links (m x)"
  shows "tree_at m' nl p a t = tree_at m nl p a t"
  using assms by (induction t arbitrary: p a) auto

lemma ctx_at_cong:
  assumes "\<And>x. x \<in> ctx_set C \<Longrightarrow> links (m' x) = links (m x)"
  shows "ctx_at m' nl rt C a p = ctx_at m nl rt C a p"
  using assms
proof (induction C arbitrary: a p)
  case (Cons c C)
  have IH: "ctx_at m' nl rt C a p = ctx_at m nl rt C a p" for a p
    by (rule Cons.IH, rule Cons.prems) (cases c; auto)
  show ?case
  proof (cases c)
    case (CL x r)
    with Cons.prems have "tree_at m' nl x (rb_right (m x)) r = tree_at m nl x (rb_right (m x)) r"
      by (intro tree_at_cong) simp
    with CL Cons.prems IH show ?thesis by simp
  next
    case (CR l x)
    with Cons.prems have "tree_at m' nl x (rb_left (m x)) l = tree_at m nl x (rb_left (m x)) l"
      by (intro tree_at_cong) simp
    with CR Cons.prems IH show ?thesis by simp
  qed
qed simp

text \<open>Replacing the parent pointer of the root of a subtree.\<close>

lemma tree_at_reparent:
  assumes "tree_at m nl p a t" and "distinct (inorder t)"
    and "a \<noteq> nl \<Longrightarrow> links (m' a) = (p', rb_left (m a), rb_right (m a))"
    and "\<And>x. x \<in> set_tree t \<Longrightarrow> x \<noteq> a \<Longrightarrow> links (m' x) = links (m x)"
  shows "tree_at m' nl p' a t"
proof (cases t)
  case Leaf
  with assms show ?thesis by simp
next
  case (Node l x r)
  have "tree_at m' nl x (rb_left (m x)) l = tree_at m nl x (rb_left (m x)) l"
    by (rule tree_at_cong, rule assms(4)) (use assms(1,2) Node in auto)
  moreover have "tree_at m' nl x (rb_right (m x)) r = tree_at m nl x (rb_right (m x)) r"
    by (rule tree_at_cong, rule assms(4)) (use assms(1,2) Node in auto)
  ultimately show ?thesis using assms(1,3) Node by (simp add: links_def)
qed

lemma tree_at_root: "tree_at m nl p a t \<Longrightarrow> a \<noteq> nl \<Longrightarrow> a \<in> set_tree t"
  by (cases t) auto

lemma tree_at_other: "tree_at m nl p a t \<Longrightarrow> x \<noteq> nl \<Longrightarrow> x \<notin> set_tree t \<Longrightarrow> x \<noteq> a"
  by (auto dest: tree_at_root)

lemma nil_notin_tree: "tree_at m nl p a t \<Longrightarrow> nl \<notin> set_tree t \<and> NULL \<notin> set_tree t"
  by (induction t arbitrary: p a) auto

lemma nil_notin_ctx: "ctx_at m nl rt C a p \<Longrightarrow> nl \<notin> ctx_set C \<and> NULL \<notin> ctx_set C"
  by (induction m nl rt C a p rule: ctx_at.induct) (auto dest: nil_notin_tree)

lemma ctx_parent_mem: "ctx_at m nl rt C a p \<Longrightarrow> p \<noteq> nl \<Longrightarrow> p \<in> ctx_set C"
  by (cases "(m, nl, rt, C, a, p)" rule: ctx_at.cases) auto

section \<open>Rotations\<close>

lemma LetE: "r = Let e f \<Longrightarrow> (\<And>x. x = e \<Longrightarrow> r = f x \<Longrightarrow> thesis) \<Longrightarrow> thesis"
  by (simp add: Let_def)

lemma upd_node_frame [mem_simps]:
  "rbt_nil (upd_node f x t) = rbt_nil t" "rbt_root (upd_node f x t) = rbt_root t"
  "rbt_size (upd_node f x t) = rbt_size t" "rbt_get_key (upd_node f x t) = rbt_get_key t"
  "rbt_live (upd_node f x t) = rbt_live t"
  by (simp_all add: upd_node_def)

lemma set_parent_fields [mem_simps]:
  "rparent (set_parent x v t) a = (if a = x then v else rparent t a)"
  "rleft (set_parent x v t) a = rleft t a" "rright (set_parent x v t) a = rright t a"
  "rcolor (set_parent x v t) a = rcolor t a" "rkey (set_parent x v t) a = rkey t a"
  "rtask (set_parent x v t) a = rtask t a"
  by (simp_all add: upd_node_def)

lemma set_left_fields [mem_simps]:
  "rleft (set_left x v t) a = (if a = x then v else rleft t a)"
  "rparent (set_left x v t) a = rparent t a" "rright (set_left x v t) a = rright t a"
  "rcolor (set_left x v t) a = rcolor t a" "rkey (set_left x v t) a = rkey t a"
  "rtask (set_left x v t) a = rtask t a"
  by (simp_all add: upd_node_def)

lemma set_right_fields [mem_simps]:
  "rright (set_right x v t) a = (if a = x then v else rright t a)"
  "rparent (set_right x v t) a = rparent t a" "rleft (set_right x v t) a = rleft t a"
  "rcolor (set_right x v t) a = rcolor t a" "rkey (set_right x v t) a = rkey t a"
  "rtask (set_right x v t) a = rtask t a"
  by (simp_all add: upd_node_def)

lemma set_color_fields [mem_simps]:
  "rcolor (set_color x v t) a = (if a = x then v else rcolor t a)"
  "rparent (set_color x v t) a = rparent t a" "rleft (set_color x v t) a = rleft t a"
  "rright (set_color x v t) a = rright t a" "rkey (set_color x v t) a = rkey t a"
  "rtask (set_color x v t) a = rtask t a"
  by (simp_all add: upd_node_def)

text \<open>
  The fields after a left rotation at \<open>x\<close>, when \<open>x\<close>, its parent \<open>p\<close>, its right child \<open>y\<close> and the
  left child \<open>b\<close> of \<open>y\<close> are different nodes.
\<close>

lemma rb_left_rotate_fields:
  fixes t :: "'m rb_tree_t" and x a :: addr
  defines "y \<equiv> rright t x" and "p \<equiv> rparent t x" and "b \<equiv> rleft t (rright t x)"
  assumes "y \<noteq> x" "b \<noteq> x" "b \<noteq> y" "p \<noteq> x" "p \<noteq> y"
  shows "rparent (rb_left_rotate t x) a =
           (if a = x then y else if a = y then p else if a = b \<and> b \<noteq> rbt_nil t then x else rparent t a)"
    and "rleft (rb_left_rotate t x) a =
           (if a = y then x else if a = p \<and> p \<noteq> rbt_nil t \<and> rleft t p = x then y else rleft t a)"
    and "rright (rb_left_rotate t x) a =
           (if a = x then b else if a = p \<and> p \<noteq> rbt_nil t \<and> rleft t p \<noteq> x then y else rright t a)"
    and "rbt_root (rb_left_rotate t x) = (if p = rbt_nil t then y else rbt_root t)"
proof -
  obtain y' t1 t2 t3 t4 t5 where y': "y' = rright t x"
    and t1: "t1 = set_right x (rleft t y') t"
    and t2: "t2 = (if rleft t1 y' \<noteq> rbt_nil t1 then set_parent (rleft t1 y') x t1 else t1)"
    and t3: "t3 = set_parent y' (rparent t2 x) t2"
    and t4: "t4 = (if rparent t3 x = rbt_nil t3 then t3\<lparr>rbt_root := y'\<rparr>
               else if x = rleft t3 (rparent t3 x) then set_left (rparent t3 x) y' t3
               else set_right (rparent t3 x) y' t3)"
    and t5: "t5 = set_left y' x t4" and r: "rb_left_rotate t x = set_parent x y' t5"
    using rb_left_rotate_def[of t x] by (elim LetE)
  note ne = assms(4-) [unfolded y_def p_def b_def]
  note yb = y_def p_def b_def
  have "rparent t2 a = (if a = b \<and> b \<noteq> rbt_nil t then x else rparent t a)" for a
    unfolding t2 t1 y' yb using ne by (simp add: mem_simps)
  moreover have "rparent t5 a = (if a = y then rparent t2 x else rparent t2 a)" for a
    unfolding t5 t4 t3 y' yb by (simp add: mem_simps)
  ultimately show "rparent (rb_left_rotate t x) a =
           (if a = x then y else if a = y then p else if a = b \<and> b \<noteq> rbt_nil t then x else rparent t a)"
    unfolding r using assms(4-) y' yb by (simp add: mem_simps)
  have t3': "rleft t3 a = rleft t a" "rright t3 a = (if a = x then b else rright t a)" "rparent t3 x = p"
      "rbt_nil t3 = rbt_nil t" "rbt_root t3 = rbt_root t" for a
    unfolding t3 t2 t1 y' yb using ne by (simp_all add: mem_simps)
  show "rleft (rb_left_rotate t x) a =
           (if a = y then x else if a = p \<and> p \<noteq> rbt_nil t \<and> rleft t p = x then y else rleft t a)"
    unfolding r t5 t4 t3' y' y_def[symmetric] using assms(4-8) by (simp add: mem_simps t3')
  show "rright (rb_left_rotate t x) a =
           (if a = x then b else if a = p \<and> p \<noteq> rbt_nil t \<and> rleft t p \<noteq> x then y else rright t a)"
    unfolding r t5 t4 t3' y' y_def[symmetric] using assms(4-8) by (simp add: mem_simps t3')
  show "rbt_root (rb_left_rotate t x) = (if p = rbt_nil t then y else rbt_root t)"
    unfolding r t5 t4 t3' y' y_def[symmetric] using assms(4-8) by (simp add: mem_simps t3')
qed

lemma rb_left_rotate_frame [mem_simps]:
  "rcolor (rb_left_rotate t x) a = rcolor t a" "rkey (rb_left_rotate t x) a = rkey t a"
  "rtask (rb_left_rotate t x) a = rtask t a" "rbt_nil (rb_left_rotate t x) = rbt_nil t"
  "rbt_size (rb_left_rotate t x) = rbt_size t" "rbt_get_key (rb_left_rotate t x) = rbt_get_key t"
  "rbt_live (rb_left_rotate t x) = rbt_live t"
  by (simp_all add: rb_left_rotate_def Let_def mem_simps)
text \<open>The mirror image: a right rotation at \<open>y\<close>.\<close>

lemma rb_right_rotate_fields:
  fixes t :: "'m rb_tree_t" and y a :: addr
  defines "x \<equiv> rleft t y" and "p \<equiv> rparent t y" and "b \<equiv> rright t (rleft t y)"
  assumes "x \<noteq> y" "b \<noteq> y" "b \<noteq> x" "p \<noteq> y" "p \<noteq> x"
  shows "rparent (rb_right_rotate t y) a =
           (if a = y then x else if a = x then p else if a = b \<and> b \<noteq> rbt_nil t then y else rparent t a)"
    and "rright (rb_right_rotate t y) a =
           (if a = x then y else if a = p \<and> p \<noteq> rbt_nil t \<and> rright t p = y then x else rright t a)"
    and "rleft (rb_right_rotate t y) a =
           (if a = y then b else if a = p \<and> p \<noteq> rbt_nil t \<and> rright t p \<noteq> y then x else rleft t a)"
    and "rbt_root (rb_right_rotate t y) = (if p = rbt_nil t then x else rbt_root t)"
proof -
  obtain x' t1 t2 t3 t4 t5 where x': "x' = rleft t y"
    and t1: "t1 = set_left y (rright t x') t"
    and t2: "t2 = (if rright t1 x' \<noteq> rbt_nil t1 then set_parent (rright t1 x') y t1 else t1)"
    and t3: "t3 = set_parent x' (rparent t2 y) t2"
    and t4: "t4 = (if rparent t3 y = rbt_nil t3 then t3\<lparr>rbt_root := x'\<rparr>
               else if y = rright t3 (rparent t3 y) then set_right (rparent t3 y) x' t3
               else set_left (rparent t3 y) x' t3)"
    and t5: "t5 = set_right x' y t4" and r: "rb_right_rotate t y = set_parent y x' t5"
    using rb_right_rotate_def[of t y] by (elim LetE)
  note ne = assms(4-) [unfolded x_def p_def b_def]
  note xb = x_def p_def b_def
  have "rparent t2 a = (if a = b \<and> b \<noteq> rbt_nil t then y else rparent t a)" for a
    unfolding t2 t1 x' xb using ne by (simp add: mem_simps)
  moreover have "rparent t5 a = (if a = x then rparent t2 y else rparent t2 a)" for a
    unfolding t5 t4 t3 x' xb by (simp add: mem_simps)
  ultimately show "rparent (rb_right_rotate t y) a =
           (if a = y then x else if a = x then p else if a = b \<and> b \<noteq> rbt_nil t then y else rparent t a)"
    unfolding r using assms(4-) x' xb by (simp add: mem_simps)
  have t3': "rright t3 a = rright t a" "rleft t3 a = (if a = y then b else rleft t a)" "rparent t3 y = p"
      "rbt_nil t3 = rbt_nil t" "rbt_root t3 = rbt_root t" for a
    unfolding t3 t2 t1 x' xb using ne by (simp_all add: mem_simps)
  show "rright (rb_right_rotate t y) a =
           (if a = x then y else if a = p \<and> p \<noteq> rbt_nil t \<and> rright t p = y then x else rright t a)"
    unfolding r t5 t4 t3' x' x_def[symmetric] using assms(4-8) by (simp add: mem_simps t3')
  show "rleft (rb_right_rotate t y) a =
           (if a = y then b else if a = p \<and> p \<noteq> rbt_nil t \<and> rright t p \<noteq> y then x else rleft t a)"
    unfolding r t5 t4 t3' x' x_def[symmetric] using assms(4-8) by (simp add: mem_simps t3')
  show "rbt_root (rb_right_rotate t y) = (if p = rbt_nil t then x else rbt_root t)"
    unfolding r t5 t4 t3' x' x_def[symmetric] using assms(4-8) by (simp add: mem_simps t3')
qed

lemma rb_right_rotate_frame [mem_simps]:
  "rcolor (rb_right_rotate t x) a = rcolor t a" "rkey (rb_right_rotate t x) a = rkey t a"
  "rtask (rb_right_rotate t x) a = rtask t a" "rbt_nil (rb_right_rotate t x) = rbt_nil t"
  "rbt_size (rb_right_rotate t x) = rbt_size t" "rbt_get_key (rb_right_rotate t x) = rbt_get_key t"
  "rbt_live (rb_right_rotate t x) = rbt_live t"
  by (simp_all add: rb_right_rotate_def Let_def mem_simps)

abbreviation repr_at :: "'m rb_tree_t \<Rightarrow> crumb list \<Rightarrow> addr \<Rightarrow> addr \<Rightarrow> addr tree \<Rightarrow> bool" where
  "repr_at t C p a T \<equiv> tree_at (rbt_mem t) (rbt_nil t) p a T \<and>
     ctx_at (rbt_mem t) (rbt_nil t) (rbt_root t) C a p \<and> distinct (inorder (plug C T))"

text \<open>Changing the child pointer of the parent of the focus replaces the focus.\<close>

lemma ctx_at_refocus:
  assumes "ctx_at m nl rt C a p" and "distinct (ctx_pre C @ ctx_post C)" and "a \<notin> ctx_set C" and "a \<noteq> nl"
    and "rt' = (if p = nl then a' else rt)"
    and "p \<noteq> nl \<Longrightarrow> links (m' p) = (if rb_left (m p) = a then (rb_parent (m p), a', rb_right (m p))
                                   else (rb_parent (m p), rb_left (m p), a'))"
    and "\<And>x. x \<in> ctx_set C \<Longrightarrow> x \<noteq> p \<Longrightarrow> links (m' x) = links (m x)"
  shows "ctx_at m' nl rt' C a' p"
proof (cases "(m, nl, rt, C, a, p)" rule: ctx_at.cases)
  case (1 _ _ _ a)
  with assms show ?thesis by simp
next
  case (2 _ _ _ x r D a p)
  have "ctx_at m' nl rt D x (rb_parent (m x)) = ctx_at m nl rt D x (rb_parent (m x))"
    by (rule ctx_at_cong, rule assms(7)) (use assms(1,2) 2 in auto)
  moreover have "tree_at m' nl x (rb_right (m x)) r = tree_at m nl x (rb_right (m x)) r"
    by (rule tree_at_cong, rule assms(7)) (use assms(1,2) 2 in auto)
  ultimately show ?thesis using assms(1,4,5,6) 2 by (simp add: links_def)
next
  case (3 _ _ _ l x D a p)
  have "rb_left (m x) \<noteq> a"
    using assms(1,3,4) 3 by (cases l) auto
  moreover have "ctx_at m' nl rt D x (rb_parent (m x)) = ctx_at m nl rt D x (rb_parent (m x))"
    by (rule ctx_at_cong, rule assms(7)) (use assms(1,2) 3 in auto)
  moreover have "tree_at m' nl x (rb_left (m x)) l = tree_at m nl x (rb_left (m x)) l"
    by (rule tree_at_cong, rule assms(7)) (use assms(1,2) 3 in auto)
  ultimately show ?thesis using assms(1,4,5,6) 3 by (simp add: links_def)
qed

lemma parent_cases:
  assumes "ctx_at m nl rt C a p" and "distinct (ctx_pre C @ ctx_post C)" and "a \<noteq> nl" and "a \<notin> ctx_set C"
  shows "p \<noteq> nl \<Longrightarrow> rb_left (m p) = a \<or> rb_right (m p) = a"
    and "p \<noteq> nl \<Longrightarrow> \<not> (rb_left (m p) = a \<and> rb_right (m p) = a)"
  using assms
  by (cases "(m, nl, rt, C, a, p)" rule: ctx_at.cases; auto dest: tree_at_root)+

lemma rb_left_rotate_repr:
  assumes R: "repr_at t C p x (Node \<alpha> x (Node \<beta> y \<gamma>))"
  shows "repr_at (rb_left_rotate t x) C p y (Node (Node \<alpha> x \<beta>) y \<gamma>)"
    and "rparent (rb_left_rotate t x) (rbt_nil t) = rparent t (rbt_nil t)"
proof -
  let ?m = "rbt_mem t" and ?nl = "rbt_nil t" and ?t = "rb_left_rotate t x"
  from R have D: "distinct (ctx_pre C @ inorder \<alpha> @ x # inorder \<beta> @ y # inorder \<gamma> @ ctx_post C)"
    by (simp add: inorder_plug)
  from R have n: "rright t x = y" "rparent t x = p" and cx: "ctx_at ?m ?nl (rbt_root t) C x p"
    and ta: "tree_at ?m ?nl x (rleft t x) \<alpha>" and tb: "tree_at ?m ?nl y (rleft t y) \<beta>"
    and tc: "tree_at ?m ?nl y (rright t y) \<gamma>"
    and nn: "x \<noteq> ?nl" "y \<noteq> ?nl" "x \<noteq> NULL" "y \<noteq> NULL" by auto
  have b: "rleft t y \<in> set_tree \<beta> \<or> rleft t y = ?nl" using tb tree_at_root by blast
  have p: "p \<in> ctx_set C \<or> p = ?nl" using cx ctx_parent_mem by blast
  have nl: "?nl \<notin> ctx_set C" "?nl \<notin> set_tree \<alpha>" "?nl \<notin> set_tree \<beta>" "?nl \<notin> set_tree \<gamma>"
    using nil_notin_ctx[OF cx] nil_notin_tree[OF ta] nil_notin_tree[OF tb] nil_notin_tree[OF tc] by auto
  have dj: "x \<noteq> y" "x \<notin> set_tree \<beta>" "y \<notin> set_tree \<beta>" "x \<notin> ctx_set C" "y \<notin> ctx_set C"
      "set_tree \<beta> \<inter> ctx_set C = {}" using D by auto
  have b': "rleft t y \<noteq> x" "rleft t y \<noteq> y" using b dj nn by auto
  have p': "p \<noteq> x" "p \<noteq> y" using p dj nn by auto
  have bp: "p = rleft t y \<Longrightarrow> p = ?nl" using b p dj by auto
  note ne = dj(1)[symmetric] b' p' bp
  note F = rb_left_rotate_fields[of t x, unfolded n, OF ne(1-5)]
  have U: "links (rbt_mem ?t a) = links (?m a)" if "a \<noteq> x" "a \<noteq> y" "a \<noteq> p" "a \<noteq> rleft t y" for a
    using that by (simp add: F)
  have dC: "distinct (ctx_pre C @ ctx_post C)" and xC: "x \<notin> ctx_set C" using D by auto
  have "ctx_at (rbt_mem ?t) ?nl (rbt_root ?t) C y p"
  proof (rule ctx_at_refocus[OF cx dC xC])
    show "links (rbt_mem ?t a) = links (?m a)" if "a \<in> ctx_set C" "a \<noteq> p" for a
      by (rule U) (use D b nl that in auto)
    show "links (rbt_mem ?t p) = (if rb_left (?m p) = x then (rb_parent (?m p), y, rb_right (?m p))
        else (rb_parent (?m p), rb_left (?m p), y))" if "p \<noteq> ?nl"
      using parent_cases[OF cx dC nn(1) xC that] that ne by (auto simp: F links_def)
  qed (use nn F in auto)
  moreover have "tree_at (rbt_mem ?t) ?nl x (rleft t x) \<alpha>"
    by (rule tree_at_cong[THEN iffD2, OF _ ta], rule U) (use D b p nl in auto)
  moreover have "tree_at (rbt_mem ?t) ?nl y (rright t y) \<gamma>"
    by (rule tree_at_cong[THEN iffD2, OF _ tc], rule U) (use D b p nl in auto)
  moreover have "tree_at (rbt_mem ?t) ?nl x (rleft t y) \<beta>"
  proof (rule tree_at_reparent[OF tb])
    show "links (rbt_mem ?t a) = links (?m a)" if "a \<in> set_tree \<beta>" "a \<noteq> rleft t y" for a
      by (rule U) (use D p nl that in auto)
    show "links (rbt_mem ?t (rleft t y)) = (x, rleft t (rleft t y), rright t (rleft t y))"
      if "rleft t y \<noteq> ?nl" using that ne by (auto simp: F links_def)
  qed (use D in auto)
  ultimately show "repr_at ?t C p y (Node (Node \<alpha> x \<beta>) y \<gamma>)"
    using D nn ne by (auto simp: F mem_simps inorder_plug)
  show "rparent ?t ?nl = rparent t ?nl" using nn by (simp add: F)
qed

lemma rb_right_rotate_repr:
  assumes R: "repr_at t C p y (Node (Node \<alpha> x \<beta>) y \<gamma>)"
  shows "repr_at (rb_right_rotate t y) C p x (Node \<alpha> x (Node \<beta> y \<gamma>))"
    and "rparent (rb_right_rotate t y) (rbt_nil t) = rparent t (rbt_nil t)"
proof -
  let ?m = "rbt_mem t" and ?nl = "rbt_nil t" and ?t = "rb_right_rotate t y"
  from R have D: "distinct (ctx_pre C @ inorder \<alpha> @ x # inorder \<beta> @ y # inorder \<gamma> @ ctx_post C)"
    by (simp add: inorder_plug)
  from R have n: "rleft t y = x" "rparent t y = p" and cx: "ctx_at ?m ?nl (rbt_root t) C y p"
    and ta: "tree_at ?m ?nl x (rleft t x) \<alpha>" and tb: "tree_at ?m ?nl x (rright t x) \<beta>"
    and tc: "tree_at ?m ?nl y (rright t y) \<gamma>"
    and nn: "x \<noteq> ?nl" "y \<noteq> ?nl" "x \<noteq> NULL" "y \<noteq> NULL" by auto
  have b: "rright t x \<in> set_tree \<beta> \<or> rright t x = ?nl" using tb tree_at_root by blast
  have p: "p \<in> ctx_set C \<or> p = ?nl" using cx ctx_parent_mem by blast
  have nl: "?nl \<notin> ctx_set C" "?nl \<notin> set_tree \<alpha>" "?nl \<notin> set_tree \<beta>" "?nl \<notin> set_tree \<gamma>"
    using nil_notin_ctx[OF cx] nil_notin_tree[OF ta] nil_notin_tree[OF tb] nil_notin_tree[OF tc] by auto
  have dj: "x \<noteq> y" "x \<notin> set_tree \<beta>" "y \<notin> set_tree \<beta>" "x \<notin> ctx_set C" "y \<notin> ctx_set C"
      "set_tree \<beta> \<inter> ctx_set C = {}" using D by auto
  have b': "rright t x \<noteq> y" "rright t x \<noteq> x" using b dj nn by auto
  have p': "p \<noteq> y" "p \<noteq> x" using p dj nn by auto
  have bp: "p = rright t x \<Longrightarrow> p = ?nl" using b p dj by auto
  note ne = dj(1) b' p' bp
  note F = rb_right_rotate_fields[of t y, unfolded n, OF ne(1-5)]
  have U: "links (rbt_mem ?t a) = links (?m a)" if "a \<noteq> x" "a \<noteq> y" "a \<noteq> p" "a \<noteq> rright t x" for a
    using that by (simp add: F)
  have dC: "distinct (ctx_pre C @ ctx_post C)" and yC: "y \<notin> ctx_set C" using D by auto
  have "ctx_at (rbt_mem ?t) ?nl (rbt_root ?t) C x p"
  proof (rule ctx_at_refocus[OF cx dC yC])
    show "links (rbt_mem ?t a) = links (?m a)" if "a \<in> ctx_set C" "a \<noteq> p" for a
      by (rule U) (use D b nl that in auto)
    show "links (rbt_mem ?t p) = (if rb_left (?m p) = y then (rb_parent (?m p), x, rb_right (?m p))
        else (rb_parent (?m p), rb_left (?m p), x))" if "p \<noteq> ?nl"
      using parent_cases[OF cx dC nn(2) yC that] that ne by (auto simp: F links_def)
  qed (use nn F in auto)
  moreover have "tree_at (rbt_mem ?t) ?nl x (rleft t x) \<alpha>"
    by (rule tree_at_cong[THEN iffD2, OF _ ta], rule U) (use D b p nl in auto)
  moreover have "tree_at (rbt_mem ?t) ?nl y (rright t y) \<gamma>"
    by (rule tree_at_cong[THEN iffD2, OF _ tc], rule U) (use D b p nl in auto)
  moreover have "tree_at (rbt_mem ?t) ?nl y (rright t x) \<beta>"
  proof (rule tree_at_reparent[OF tb])
    show "links (rbt_mem ?t a) = links (?m a)" if "a \<in> set_tree \<beta>" "a \<noteq> rright t x" for a
      by (rule U) (use D p nl that in auto)
    show "links (rbt_mem ?t (rright t x)) = (y, rleft t (rright t x), rright t (rright t x))"
      if "rright t x \<noteq> ?nl" using that ne by (auto simp: F links_def)
  qed (use D in auto)
  ultimately show "repr_at ?t C p x (Node \<alpha> x (Node \<beta> y \<gamma>))"
    using D nn ne by (auto simp: F mem_simps inorder_plug)
  show "rparent ?t ?nl = rparent t ?nl" using nn by (simp add: F)
qed

section \<open>Colour invariants\<close>

definition colf :: "'m rb_tree_t \<Rightarrow> addr \<Rightarrow> rb_color_t" where
  "colf t a = rcolor t a"

lemma colf_simps [mem_simps]:
  "colf (set_color x v t) = (colf t)(x := v)" "colf (set_parent x w t) = colf t"
  "colf (set_left x w t) = colf t" "colf (set_right x w t) = colf t"
  "colf (rb_left_rotate t x) = colf t" "colf (rb_right_rotate t x) = colf t"
  by (auto simp: colf_def mem_simps fun_eq_iff)

fun bh :: "(addr \<Rightarrow> rb_color_t) \<Rightarrow> addr tree \<Rightarrow> nat" where
  "bh c Leaf = 0"
| "bh c (Node l x r) = bh c l + (if c x = RB_BLACK then 1 else 0)"

fun invh :: "(addr \<Rightarrow> rb_color_t) \<Rightarrow> addr tree \<Rightarrow> bool" where
  "invh c Leaf \<longleftrightarrow> True"
| "invh c (Node l x r) \<longleftrightarrow> bh c l = bh c r \<and> invh c l \<and> invh c r"

fun rootc :: "(addr \<Rightarrow> rb_color_t) \<Rightarrow> addr tree \<Rightarrow> rb_color_t" where
  "rootc c Leaf = RB_BLACK"
| "rootc c (Node l x r) = c x"

fun invc :: "(addr \<Rightarrow> rb_color_t) \<Rightarrow> addr tree \<Rightarrow> bool" where
  "invc c Leaf \<longleftrightarrow> True"
| "invc c (Node l x r) \<longleftrightarrow>
     (c x = RB_RED \<longrightarrow> rootc c l = RB_BLACK \<and> rootc c r = RB_BLACK) \<and> invc c l \<and> invc c r"

text \<open>What a context asks of the tree in its hole: its black height and the colour of its root.\<close>

fun hole_h :: "(addr \<Rightarrow> rb_color_t) \<Rightarrow> crumb list \<Rightarrow> nat \<Rightarrow> bool" where
  "hole_h c [] n \<longleftrightarrow> True"
| "hole_h c (CL x r # C) n \<longleftrightarrow> bh c r = n \<and> invh c r \<and> hole_h c C (n + (if c x = RB_BLACK then 1 else 0))"
| "hole_h c (CR l x # C) n \<longleftrightarrow> bh c l = n \<and> invh c l \<and> hole_h c C (n + (if c x = RB_BLACK then 1 else 0))"

fun hole_c :: "(addr \<Rightarrow> rb_color_t) \<Rightarrow> crumb list \<Rightarrow> rb_color_t \<Rightarrow> bool" where
  "hole_c c [] k \<longleftrightarrow> True"
| "hole_c c (CL x r # C) k \<longleftrightarrow>
     (c x = RB_RED \<longrightarrow> k = RB_BLACK \<and> rootc c r = RB_BLACK) \<and> invc c r \<and> hole_c c C (c x)"
| "hole_c c (CR l x # C) k \<longleftrightarrow>
     (c x = RB_RED \<longrightarrow> rootc c l = RB_BLACK \<and> k = RB_BLACK) \<and> invc c l \<and> hole_c c C (c x)"

fun crumb_root :: "crumb \<Rightarrow> addr" where
  "crumb_root (CL x r) = x"
| "crumb_root (CR l x) = x"

lemma invh_plug: "invh c (plug C t) \<longleftrightarrow> invh c t \<and> hole_h c C (bh c t)"
  by (induction C t rule: plug.induct) auto

lemma invc_plug: "invc c (plug C t) \<longleftrightarrow> invc c t \<and> hole_c c C (rootc c t)"
  by (induction C t rule: plug.induct) auto

lemma rootc_plug: "rootc c (plug C t) = (if C = [] then rootc c t else c (crumb_root (last C)))"
  by (induction C t rule: plug.induct) auto

lemma colour_update_outside [simp]:
  "x \<notin> set_tree t \<Longrightarrow> bh (c(x := v)) t = bh c t"
  "x \<notin> set_tree t \<Longrightarrow> invh (c(x := v)) t = invh c t"
  "x \<notin> set_tree t \<Longrightarrow> rootc (c(x := v)) t = rootc c t"
  "x \<notin> set_tree t \<Longrightarrow> invc (c(x := v)) t = invc c t"
proof -
  show bh: "bh (c(x := v)) t = bh c t" if "x \<notin> set_tree t" for t
    using that by (induction t) auto
  show rc: "rootc (c(x := v)) t = rootc c t" if "x \<notin> set_tree t" for t
    using that by (cases t) auto
  show "x \<notin> set_tree t \<Longrightarrow> invh (c(x := v)) t = invh c t"
    by (induction t) (auto simp: bh)
  show "x \<notin> set_tree t \<Longrightarrow> invc (c(x := v)) t = invc c t"
    by (induction t) (auto simp: rc)
qed

lemma hole_update_outside [simp]:
  "x \<notin> ctx_set C \<Longrightarrow> hole_h (c(x := v)) C n = hole_h c C n"
  "x \<notin> ctx_set C \<Longrightarrow> hole_c (c(x := v)) C k = hole_c c C k"
  by (induction c C n rule: hole_h.induct; simp) (induction c C k rule: hole_c.induct; simp)

lemma hole_c_black: "hole_c c C RB_RED \<Longrightarrow> hole_c c C k"
  by (cases "(c, C, k)" rule: hole_c.cases) auto

lemma hole_c_black_parent:
  "C = [] \<or> c (crumb_root (hd C)) = RB_BLACK \<Longrightarrow> hole_c c C k = hole_c c C RB_BLACK"
  by (cases "(c, C, k)" rule: hole_c.cases) auto

lemma crumb_root_mem: "c \<in> set C \<Longrightarrow> crumb_root c \<in> ctx_set C"
  by (induction C rule: ctx_pre.induct) auto

lemma not_red_iff [simp]: "k \<noteq> RB_RED \<longleftrightarrow> k = RB_BLACK" "k \<noteq> RB_BLACK \<longleftrightarrow> k = RB_RED"
  by (cases k; simp)+

section \<open>What restructuring leaves unchanged\<close>

definition same_data :: "'m rb_tree_t \<Rightarrow> 'm rb_tree_t \<Rightarrow> bool" where
  "same_data t t' \<longleftrightarrow> rkey t' = rkey t \<and> rtask t' = rtask t \<and> rbt_nil t' = rbt_nil t \<and>
     rbt_size t' = rbt_size t \<and> rbt_get_key t' = rbt_get_key t \<and> rbt_live t' = rbt_live t"

lemma same_data_refl [simp]: "same_data t t"
  by (simp add: same_data_def)

lemma same_data_trans [trans]: "same_data t t' \<Longrightarrow> same_data t' t'' \<Longrightarrow> same_data t t''"
  by (simp add: same_data_def)

lemma same_data_steps [mem_simps]:
  "same_data t (set_color x v t') = same_data t t'" "same_data t (rb_left_rotate t' x) = same_data t t'"
  "same_data t (rb_right_rotate t' x) = same_data t t'" 
  "same_data t (set_parent x w t') = same_data t t'" "same_data t (set_left x w t') = same_data t t'"
  "same_data t (set_right x w t') = same_data t t'"
  by (simp_all add: same_data_def mem_simps fun_eq_iff)

lemma set_color_repr [mem_simps]:
  "tree_at (rbt_mem (set_color x v t)) nl p a T = tree_at (rbt_mem t) nl p a T"
  "ctx_at (rbt_mem (set_color x v t)) nl rt C a p = ctx_at (rbt_mem t) nl rt C a p"
  by (rule tree_at_cong, simp add: mem_simps) (rule ctx_at_cong, simp add: mem_simps)

end
