(* ===== verification/Rbtree_Insert.thy ===== *)
theory Rbtree_Insert
  imports Rbtree_Repr
begin

text \<open>
  \<open>rb_insert\<close>: the descent ends, the fix-up loop ends, and the result is a red-black tree whose
  in-order list is the old one with the new node after the nodes of smaller or equal key.
\<close>

section \<open>Insertion: the fix-up loop\<close>

text \<open>
  The configuration at the head of the loop: the focus is the red node \<open>z\<close>; the only rule that may
  be broken is that the parent of \<open>z\<close> is red too.
\<close>

definition ins_inv :: "'m rb_tree_t \<Rightarrow> crumb list \<Rightarrow> addr \<Rightarrow> addr tree \<Rightarrow> addr \<Rightarrow> addr tree \<Rightarrow> bool" where
  "ins_inv t C p l z r \<longleftrightarrow>
     repr_at t C p z (Node l z r) \<and> colf t (rbt_nil t) = RB_BLACK \<and> rbt_nil t \<noteq> NULL \<and>
     colf t z = RB_RED \<and> invc (colf t) (Node l z r) \<and> invh (colf t) (Node l z r) \<and>
     hole_h (colf t) C (bh (colf t) l) \<and> hole_c (colf t) C RB_BLACK \<and>
     (C \<noteq> [] \<longrightarrow> colf t (crumb_root (last C)) = RB_BLACK)"

text \<open>What the loop delivers.\<close>

definition rb_repr :: "'m rb_tree_t \<Rightarrow> addr tree \<Rightarrow> bool" where
  "rb_repr t T \<longleftrightarrow> tree_at (rbt_mem t) (rbt_nil t) (rbt_nil t) (rbt_root t) T \<and> distinct (inorder T) \<and>
     colf t (rbt_nil t) = RB_BLACK \<and> rbt_nil t \<noteq> NULL \<and> invc (colf t) T \<and> invh (colf t) T"

lemma ins_exit:
  assumes "ins_inv t C p l z r" and "colf t (rparent t z) = RB_BLACK"
  shows "rb_repr t (plug C (Node l z r))"
proof -
  from assms have "C = [] \<or> colf t (crumb_root (hd C)) = RB_BLACK"
    by (cases C rule: ctx_pre.cases) (auto simp: ins_inv_def)
  then have "hole_c (colf t) C RB_RED"
    using assms(1) hole_c_black_parent unfolding ins_inv_def by blast
  moreover have "tree_at (rbt_mem t) (rbt_nil t) (rbt_nil t) (rbt_root t) (plug C (Node l z r))"
    using assms(1) by (auto simp: ins_inv_def tree_at_plug simp del: tree_at.simps)
  ultimately show ?thesis
    using assms(1) by (auto simp: rb_repr_def ins_inv_def invc_plug invh_plug)
qed

text \<open>The four shapes of the two innermost crumbs, and the colours they have.\<close>

lemma ins_red_parent:
  assumes I: "ins_inv t C p l z r" and red: "colf t (rparent t z) = RB_RED"
  obtains s g u C2 where "C = CL p s # CL g u # C2" | s g u C2 where "C = CR s p # CL g u # C2"
    | s g u C2 where "C = CL p s # CR u g # C2" | s g u C2 where "C = CR s p # CR u g # C2"
proof -
  from I have "C \<noteq> []" using red by (auto simp: ins_inv_def)
  then obtain c D where C: "C = c # D" by (cases C) auto
  with I red have cp: "crumb_root c = p" "colf t p = RB_RED"
    by (cases c; auto simp: ins_inv_def)+
  with I C have "D \<noteq> []" by (auto simp: ins_inv_def)
  then obtain d C2 where "D = d # C2" by (cases D) auto
  with that cp C show thesis by (cases c; cases d) auto
qed

text \<open>One iteration from \<open>z\<close> below two crumbs whose outer context is \<open>C2\<close>; \<open>xs\<close> is the in-order list.\<close>

definition ins_progress :: "'m rb_tree_t \<Rightarrow> addr \<Rightarrow> crumb list \<Rightarrow> addr list \<Rightarrow> bool" where
  "ins_progress t z C2 xs \<longleftrightarrow>
     (\<exists>t' z'. rb_insert_fixup_body t z = (t', z') \<and> same_data t t' \<and>
       ((\<exists>q l r. ins_inv t' C2 q l z' r \<and> inorder (plug C2 (Node l z' r)) = xs) \<or>
        (\<exists>T. rb_repr t' T \<and> inorder T = xs \<and> colf t' (rparent t' z') = RB_BLACK)))"

text \<open>The recolouring step, stated on the colours only: it fits all four shapes.\<close>

lemma ins_recolour:
  assumes "repr_at t' C q g (Node (Node l1 x r1) g (Node l2 y r2))"
    and "colf t' = (colf t)(x := RB_BLACK, y := RB_BLACK, g := RB_RED)"
    and "colf t (rbt_nil t') = RB_BLACK" "rbt_nil t' \<noteq> NULL"
    and "colf t x = RB_RED" "colf t y = RB_RED" "colf t g = RB_BLACK"
    and "invc (colf t) l1" "invc (colf t) r1" "invc (colf t) l2" "invc (colf t) r2"
    and "invh (colf t) (Node (Node l1 x r1) g (Node l2 y r2))"
    and "hole_h (colf t) C (bh (colf t) (Node (Node l1 x r1) g (Node l2 y r2)))"
    and "hole_c (colf t) C RB_BLACK" and "C \<noteq> [] \<Longrightarrow> colf t (crumb_root (last C)) = RB_BLACK"
  shows "ins_inv t' C q (Node l1 x r1) g (Node l2 y r2)"
proof -
  from assms(1) have D: "distinct (ctx_pre C @ inorder l1 @ x # inorder r1 @ g # inorder l2 @ y # inorder r2 @ ctx_post C)"
    by (simp add: inorder_plug)
  have "crumb_root (last C) \<in> ctx_set C" if "C \<noteq> []"
    using that by (intro crumb_root_mem) simp
  then have "colf t' (crumb_root (last C)) = RB_BLACK" if "C \<noteq> []"
    using that assms(15) D by (auto simp: assms(2))
  moreover have "rbt_nil t' \<noteq> g" "rbt_nil t' \<noteq> x" "rbt_nil t' \<noteq> y" using assms(1) by auto
  moreover have "hole_h (colf t') C (bh (colf t') (Node l1 x r1))" "hole_c (colf t') C RB_BLACK"
    using assms(5-7,13,14) D by (simp_all add: assms(2))
  moreover have "invc (colf t') (Node (Node l1 x r1) g (Node l2 y r2))"
    using assms(8-11) D by (simp add: assms(2))
  moreover have "invh (colf t') (Node (Node l1 x r1) g (Node l2 y r2))"
    using assms(5-7,12) D by (simp add: assms(2))
  ultimately show ?thesis
    unfolding ins_inv_def using assms(1-4) by simp
qed

text \<open>The subtrees that hang below the rotated nodes: legal, black-rooted, of one black height.\<close>

definition sub_ok :: "(addr \<Rightarrow> rb_color_t) \<Rightarrow> nat \<Rightarrow> addr tree \<Rightarrow> bool" where
  "sub_ok c n w \<longleftrightarrow> invc c w \<and> rootc c w = RB_BLACK \<and> invh c w \<and> bh c w = n"

lemma sub_ok_update [simp]: "x \<notin> set_tree w \<Longrightarrow> sub_ok (c(x := v)) n w = sub_ok c n w"
  by (simp add: sub_ok_def)

text \<open>The final rotation: the black root of the subtree is \<open>m\<close>, its children are red.\<close>

lemma ins_rotated:
  assumes "repr_at t' C q m (Node (Node l1 x r1) m (Node l2 g r2))"
    and "colf t' x = RB_RED" "colf t' g = RB_RED" "colf t' m = RB_BLACK"
    and "colf t' (rbt_nil t') = RB_BLACK" "rbt_nil t' \<noteq> NULL"
    and "\<forall>w \<in> {l1, r1, l2, r2}. sub_ok (colf t') n w"
    and "hole_h (colf t') C (Suc n)" and "hole_c (colf t') C RB_BLACK"
  shows "rb_repr t' (plug C (Node (Node l1 x r1) m (Node l2 g r2)))"
proof -
  have "tree_at (rbt_mem t') (rbt_nil t') (rbt_nil t') (rbt_root t') (plug C (Node (Node l1 x r1) m (Node l2 g r2)))"
    using assms(1) by (auto simp: tree_at_plug simp del: tree_at.simps)
  with assms show ?thesis by (simp add: rb_repr_def invc_plug invh_plug sub_ok_def)
qed

lemma rootc_at: "tree_at m nl p a T \<Longrightarrow> c nl = RB_BLACK \<Longrightarrow> rootc c T = c a"
  by (cases T) auto

fun crumb_sib :: "crumb \<Rightarrow> addr tree" where
  "crumb_sib (CL x r) = r"
| "crumb_sib (CR l x) = l"

text \<open>The colours and black heights around a red parent, in every shape.\<close>

lemma ins_inv_facts:
  assumes I: "ins_inv t (c1 # c2 # C2) p l z r" and red: "colf t p = RB_RED"
  defines "g \<equiv> crumb_root c2" and "s \<equiv> crumb_sib c1" and "u \<equiv> crumb_sib c2" and "n \<equiv> bh (colf t) l"
  shows "repr_at t (c1 # c2 # C2) p z (Node l z r)"
    and "colf t (rbt_nil t) = RB_BLACK" "rbt_nil t \<noteq> NULL" "colf t z = RB_RED" "colf t g = RB_BLACK"
    and "sub_ok (colf t) n l" "sub_ok (colf t) n r" "sub_ok (colf t) n s"
    and "invc (colf t) u" "invh (colf t) u" "bh (colf t) u = n"
    and "hole_h (colf t) C2 (Suc n)" "hole_c (colf t) C2 RB_BLACK"
    and "C2 \<noteq> [] \<Longrightarrow> colf t (crumb_root (last C2)) = RB_BLACK"
proof -
  from I have J: "colf t z = RB_RED" "invc (colf t) (Node l z r)" "invh (colf t) (Node l z r)"
    "hole_h (colf t) (c1 # c2 # C2) n" "hole_c (colf t) (c1 # c2 # C2) RB_BLACK"
    "colf t (crumb_root (last (c1 # c2 # C2))) = RB_BLACK"
    unfolding ins_inv_def n_def by blast+
  have "p = crumb_root c1" using I by (cases c1) (auto simp: ins_inv_def)
  with J red show "colf t g = RB_BLACK" "sub_ok (colf t) n l" "sub_ok (colf t) n r" "sub_ok (colf t) n s"
    "invc (colf t) u" "invh (colf t) u" "bh (colf t) u = n" "hole_h (colf t) C2 (Suc n)"
    "hole_c (colf t) C2 RB_BLACK" "C2 \<noteq> [] \<Longrightarrow> colf t (crumb_root (last C2)) = RB_BLACK"
    unfolding g_def s_def u_def n_def by (cases c1; cases c2; simp add: sub_ok_def)+
qed (use I in \<open>auto simp: ins_inv_def\<close>)

lemma repr_at_zoom_out:
  assumes "repr_at t (c # C) p a T"
  shows "repr_at t C (rparent t p) p (plug [c] T)" and "p = crumb_root c"
  using assms by (cases c; simp)+

lemma ins_body_red_uncle:
  assumes I: "ins_inv t (c1 # c2 # C2) p l z r" and red: "colf t p = RB_RED"
    and u: "crumb_sib c2 = Node ul y ur" and y: "colf t y = RB_RED"
  shows "ins_progress t z C2 (inorder (plug (c1 # c2 # C2) (Node l z r)))"
proof -
  note F = ins_inv_facts[OF I red, simplified u]
  let ?g = "crumb_root c2" and ?n = "bh (colf t) l"
  let ?t = "set_color ?g RB_RED (set_color y RB_BLACK (set_color p RB_BLACK t))"
  obtain la lb where L: "plug [c1] (Node l z r) = Node la p lb"
    and ok: "invc (colf t) la" "invc (colf t) lb" "invh (colf t) la" "invh (colf t) lb" 
       "bh (colf t) la = ?n" "bh (colf t) lb = ?n"
    using F(1,4,6-8) by (cases c1) (auto simp: sub_ok_def)
  from repr_at_zoom_out(1)[OF F(1)] have R: "repr_at t (c2 # C2) (rparent t p) p (Node la p lb)"
    unfolding L .
  have g: "rparent t p = ?g" using repr_at_zoom_out(2)[OF R] .
  have z: "rparent t z = p" using F(1) by simp
  have "y \<noteq> p" using R u by (cases c2) (auto simp: inorder_plug)
  then have b: "rb_insert_fixup_body t z = (?t, ?g)"
    using z g R u y by (cases c2) (auto simp: rb_insert_fixup_body_def Let_def mem_simps simp flip: colf_def)
  have "\<exists>q l' r'. ins_inv ?t C2 q l' ?g r' \<and> plug [c2] (Node la p lb) = Node l' ?g r'"
  proof (cases c2)
    case (CL h u')
    have "ins_inv ?t C2 (rparent t h) (Node la p lb) h (Node ul y ur)"
      by (rule ins_recolour[where t = t]) (use F(2-) CL R ok red y u in \<open>auto simp: mem_simps\<close>)
    with CL u show ?thesis by auto
  next
    case (CR u' h)
    have "ins_inv ?t C2 (rparent t h) (Node ul y ur) h (Node la p lb)"
      by (rule ins_recolour[where t = t]) (use F(2-) CR R ok red y u \<open>y \<noteq> p\<close> in \<open>auto simp: mem_simps\<close>)
    with CR u show ?thesis by auto
  qed
  moreover have "plug (c1 # c2 # C2) (Node l z r) = plug C2 (plug [c2] (Node la p lb))"
    using L by (cases c1; cases c2; simp)
  ultimately show ?thesis unfolding ins_progress_def b by (fastforce simp: mem_simps)
qed

text \<open>The two rotation cases end alike: \<open>m\<close> goes up, the grandparent \<open>g\<close> comes down.\<close>

lemma ins_finish_right:
  assumes R: "repr_at t (CL g u # C2) g m (Node (Node l1 x r1) m r2)"
    and c: "colf t x = RB_RED" "colf t (rbt_nil t) = RB_BLACK" "rbt_nil t \<noteq> NULL"
    and ok: "\<forall>w \<in> {l1, r1, r2, u}. sub_ok (colf t) n w"
    and C: "hole_h (colf t) C2 (Suc n)" "hole_c (colf t) C2 RB_BLACK"
  defines "t' \<equiv> rb_right_rotate (set_color g RB_RED (set_color m RB_BLACK t)) g"
  shows "rb_repr t' (plug C2 (Node (Node l1 x r1) m (Node r2 g u)))"
    and "colf t' (rparent t' x) = RB_BLACK"
proof -
  have D: "distinct (ctx_pre C2 @ inorder l1 @ x # inorder r1 @ m # inorder r2 @ g # inorder u @ ctx_post C2)"
    using R by (simp add: inorder_plug)
  have R': "repr_at t' C2 (rparent t g) m (Node (Node l1 x r1) m (Node r2 g u))"
    unfolding t'_def using R by (intro rb_right_rotate_repr) (auto simp: mem_simps)
  have nn: "m \<noteq> rbt_nil t" "g \<noteq> rbt_nil t" "x \<noteq> rbt_nil t" using R by auto
  have c': "colf t' = (colf t)(m := RB_BLACK, g := RB_RED)" and nl: "rbt_nil t' = rbt_nil t"
    by (simp_all add: t'_def mem_simps)
  show "rb_repr t' (plug C2 (Node (Node l1 x r1) m (Node r2 g u)))"
    by (intro ins_rotated[OF R', where n = n]) (use nn c ok C D nl in \<open>simp_all add: c'\<close>)
  show "colf t' (rparent t' x) = RB_BLACK"
    using R' D by (simp add: c')
qed

lemma ins_finish_left:
  assumes R: "repr_at t (CR u g # C2) g m (Node l1 m (Node l2 x r2))"
    and c: "colf t x = RB_RED" "colf t (rbt_nil t) = RB_BLACK" "rbt_nil t \<noteq> NULL"
    and ok: "\<forall>w \<in> {l1, l2, r2, u}. sub_ok (colf t) n w"
    and C: "hole_h (colf t) C2 (Suc n)" "hole_c (colf t) C2 RB_BLACK"
  defines "t' \<equiv> rb_left_rotate (set_color g RB_RED (set_color m RB_BLACK t)) g"
  shows "rb_repr t' (plug C2 (Node (Node u g l1) m (Node l2 x r2)))"
    and "colf t' (rparent t' x) = RB_BLACK"
proof -
  have D: "distinct (ctx_pre C2 @ inorder u @ g # inorder l1 @ m # inorder l2 @ x # inorder r2 @ ctx_post C2)"
    using R by (simp add: inorder_plug)
  have R': "repr_at t' C2 (rparent t g) m (Node (Node u g l1) m (Node l2 x r2))"
    unfolding t'_def using R by (intro rb_left_rotate_repr) (auto simp: mem_simps)
  have nn: "m \<noteq> rbt_nil t" "g \<noteq> rbt_nil t" "x \<noteq> rbt_nil t" using R by auto
  have c': "colf t' = (colf t)(m := RB_BLACK, g := RB_RED)" and nl: "rbt_nil t' = rbt_nil t"
    by (simp_all add: t'_def mem_simps)
  show "rb_repr t' (plug C2 (Node (Node u g l1) m (Node l2 x r2)))"
    by (intro ins_rotated[OF R', where n = n]) (use nn c ok C D nl in \<open>simp_all add: c'\<close>)
  show "colf t' (rparent t' x) = RB_BLACK"
    using R' D by (simp add: c')
qed

lemma ins_progress_done:
  assumes "rb_insert_fixup_body t z = (t', z')" and "same_data t t'" and "rb_repr t' T"
    and "inorder T = xs" and "colf t' (rparent t' z') = RB_BLACK"
  shows "ins_progress t z C2 xs"
  using assms unfolding ins_progress_def by blast

lemma ins_body_left_left:
  assumes I: "ins_inv t (CL p s # CL g u # C2) p l z r" and red: "colf t p = RB_RED"
    and u: "rootc (colf t) u = RB_BLACK"
  shows "ins_progress t z C2 (inorder (plug (CL p s # CL g u # C2) (Node l z r)))"
proof -
  note F = ins_inv_facts[OF I red, simplified]
  let ?t = "rb_right_rotate (set_color g RB_RED (set_color p RB_BLACK t)) g"
  have R: "repr_at t (CL g u # C2) g p (Node (Node l z r) p s)" using F(1) by simp
  have "colf t (rright t g) = RB_BLACK"
    using F(1,2) u rootc_at[of "rbt_mem t" "rbt_nil t" g "rright t g" u "colf t"] by simp
  moreover have "z \<noteq> rright t p"
  proof (rule tree_at_other)
    show "tree_at (rbt_mem t) (rbt_nil t) p (rright t p) s" "z \<noteq> rbt_nil t" using F(1) by auto
    show "z \<notin> set_tree s" using F(1) by (auto simp: inorder_plug)
  qed
  ultimately have b: "rb_insert_fixup_body t z = (?t, z)"
    using F(1) by (auto simp: rb_insert_fixup_body_def Let_def mem_simps simp flip: colf_def)
  have ok: "\<forall>w \<in> {l, r, s, u}. sub_ok (colf t) (bh (colf t) l) w"
    using F u by (simp add: sub_ok_def)
  note fin = ins_finish_right[OF R _ _ _ ok]
  show ?thesis
    by (rule ins_progress_done[OF b _ fin(1) _ fin(2)]) (use F red in \<open>simp_all add: mem_simps inorder_plug\<close>)
qed

lemma ins_body_left_right:
  assumes I: "ins_inv t (CR s p # CL g u # C2) p l z r" and red: "colf t p = RB_RED"
    and u: "rootc (colf t) u = RB_BLACK"
  shows "ins_progress t z C2 (inorder (plug (CR s p # CL g u # C2) (Node l z r)))"
proof -
  note F = ins_inv_facts[OF I red, simplified]
  let ?t1 = "rb_left_rotate t p"
  let ?t = "rb_right_rotate (set_color g RB_RED (set_color z RB_BLACK ?t1)) g"
  have R: "repr_at ?t1 (CL g u # C2) g z (Node (Node s p l) z r)"
    using F(1) by (intro rb_left_rotate_repr) simp
  have "colf t (rright t g) = RB_BLACK"
    using F(1,2) u rootc_at[of "rbt_mem t" "rbt_nil t" g "rright t g" u "colf t"] by simp
  then have b: "rb_insert_fixup_body t z = (?t, p)"
    using F(1) R by (auto simp: rb_insert_fixup_body_def Let_def mem_simps simp flip: colf_def)
  have ok: "\<forall>w \<in> {s, l, r, u}. sub_ok (colf ?t1) (bh (colf t) l) w"
    using F u by (simp add: sub_ok_def mem_simps)
  note fin = ins_finish_right[OF R _ _ _ ok]
  show ?thesis
    by (rule ins_progress_done[OF b _ fin(1) _ fin(2)]) (use F red in \<open>simp_all add: mem_simps inorder_plug\<close>)
qed

lemma ins_body_right_right:
  assumes I: "ins_inv t (CR s p # CR u g # C2) p l z r" and red: "colf t p = RB_RED"
    and u: "rootc (colf t) u = RB_BLACK"
  shows "ins_progress t z C2 (inorder (plug (CR s p # CR u g # C2) (Node l z r)))"
proof -
  note F = ins_inv_facts[OF I red, simplified]
  let ?t = "rb_left_rotate (set_color g RB_RED (set_color p RB_BLACK t)) g"
  have R: "repr_at t (CR u g # C2) g p (Node s p (Node l z r))" using F(1) by simp
  have "colf t (rleft t g) = RB_BLACK"
    using F(1,2) u rootc_at[of "rbt_mem t" "rbt_nil t" g "rleft t g" u "colf t"] by simp
  moreover have "z \<noteq> rleft t p"
  proof (rule tree_at_other)
    show "tree_at (rbt_mem t) (rbt_nil t) p (rleft t p) s" "z \<noteq> rbt_nil t" using F(1) by auto
    show "z \<notin> set_tree s" using F(1) by (auto simp: inorder_plug)
  qed
  moreover have "p \<noteq> rleft t g"
  proof (rule tree_at_other)
    show "tree_at (rbt_mem t) (rbt_nil t) g (rleft t g) u" "p \<noteq> rbt_nil t" using F(1) by auto
    show "p \<notin> set_tree u" using F(1) by (auto simp: inorder_plug)
  qed
  ultimately have b: "rb_insert_fixup_body t z = (?t, z)"
    using F(1) by (auto simp: rb_insert_fixup_body_def Let_def mem_simps simp flip: colf_def)
  have ok: "\<forall>w \<in> {s, l, r, u}. sub_ok (colf t) (bh (colf t) l) w"
    using F u by (simp add: sub_ok_def)
  note fin = ins_finish_left[OF R _ _ _ ok]
  show ?thesis
    by (rule ins_progress_done[OF b _ fin(1) _ fin(2)]) (use F red in \<open>simp_all add: mem_simps inorder_plug\<close>)
qed

lemma ins_body_right_left:
  assumes I: "ins_inv t (CL p s # CR u g # C2) p l z r" and red: "colf t p = RB_RED"
    and u: "rootc (colf t) u = RB_BLACK"
  shows "ins_progress t z C2 (inorder (plug (CL p s # CR u g # C2) (Node l z r)))"
proof -
  note F = ins_inv_facts[OF I red, simplified]
  let ?t1 = "rb_right_rotate t p"
  let ?t = "rb_left_rotate (set_color g RB_RED (set_color z RB_BLACK ?t1)) g"
  have R: "repr_at ?t1 (CR u g # C2) g z (Node l z (Node r p s))"
    using F(1) by (intro rb_right_rotate_repr) simp
  have "colf t (rleft t g) = RB_BLACK"
    using F(1,2) u rootc_at[of "rbt_mem t" "rbt_nil t" g "rleft t g" u "colf t"] by simp
  moreover have "p \<noteq> rleft t g"
  proof (rule tree_at_other)
    show "tree_at (rbt_mem t) (rbt_nil t) g (rleft t g) u" "p \<noteq> rbt_nil t" using F(1) by auto
    show "p \<notin> set_tree u" using F(1) by (auto simp: inorder_plug)
  qed
  ultimately have b: "rb_insert_fixup_body t z = (?t, p)"
    using F(1) R by (auto simp: rb_insert_fixup_body_def Let_def mem_simps simp flip: colf_def)
  have ok: "\<forall>w \<in> {l, r, s, u}. sub_ok (colf ?t1) (bh (colf t) l) w"
    using F u by (simp add: sub_ok_def mem_simps)
  note fin = ins_finish_left[OF R _ _ _ ok]
  show ?thesis
    by (rule ins_progress_done[OF b _ fin(1) _ fin(2)]) (use F red in \<open>simp_all add: mem_simps inorder_plug\<close>)
qed

lemma ins_step:
  assumes I: "ins_inv t C p l z r" and red: "colf t (rparent t z) = RB_RED"
  shows "\<exists>C2. length C2 < length C \<and> ins_progress t z C2 (inorder (plug C (Node l z r)))"
proof -
  have p: "rparent t z = p" using I by (simp add: ins_inv_def)
  obtain c1 c2 C2 where C: "C = c1 # c2 # C2" using ins_red_parent[OF I red] by metis
  note I' = I[unfolded C] and red' = red[unfolded p]
  have roots: "crumb_root c1 = p" using I' by (cases c1) (auto simp: ins_inv_def)
  show ?thesis
  proof (cases "rootc (colf t) (crumb_sib c2) = RB_RED")
    case True
    then obtain ul y ur where "crumb_sib c2 = Node ul y ur" "colf t y = RB_RED"
      by (cases "crumb_sib c2") auto
    with ins_body_red_uncle[OF I' red'] C show ?thesis by (intro exI[of _ C2]) simp
  next
    case False
    with roots I' red' C show ?thesis
      by (intro exI[of _ C2], cases c1; cases c2)
         (auto intro: ins_body_left_left ins_body_left_right ins_body_right_left ins_body_right_right
               simp del: plug.simps)
  qed
qed

lemma rb_insert_fixup_loop_ok:
  assumes "ins_inv t C p l z r"
  shows "\<exists>t' T. rb_insert_fixup_loop t z = Some t' \<and> same_data t t' \<and> rb_repr t' T \<and>
           inorder T = inorder (plug C (Node l z r))"
  using assms
proof (induction "length C" arbitrary: t C p l z r rule: less_induct)
  case less
  show ?case
  proof (cases "colf t (rparent t z) = RB_RED")
    case False
    then show ?thesis
      using ins_exit[OF less.prems] by (subst rb_insert_fixup_loop.simps) (auto simp: colf_def)
  next
    case True
    let ?xs = "inorder (plug C (Node l z r))"
    obtain C2 where C2: "length C2 < length C" "ins_progress t z C2 ?xs"
      using ins_step[OF less.prems True] by blast
    then obtain t' z' where b: "rb_insert_fixup_body t z = (t', z')" "same_data t t'"
      and c: "(\<exists>q l r. ins_inv t' C2 q l z' r \<and> inorder (plug C2 (Node l z' r)) = ?xs) \<or>
         (\<exists>T. rb_repr t' T \<and> inorder T = ?xs \<and> colf t' (rparent t' z') = RB_BLACK)"
      unfolding ins_progress_def by blast
    have step: "rb_insert_fixup_loop t z = rb_insert_fixup_loop t' z'"
      using True b by (subst rb_insert_fixup_loop.simps) (simp add: colf_def)
    from c show ?thesis
    proof (elim disjE exE conjE)
      fix q l' r' assume "ins_inv t' C2 q l' z' r'" "inorder (plug C2 (Node l' z' r')) = ?xs"
      with less.hyps[OF C2(1)] show ?thesis unfolding step by (metis same_data_trans[OF b(2)])
    next
      fix T assume "rb_repr t' T" "inorder T = ?xs" "colf t' (rparent t' z') = RB_BLACK"
      moreover from this(3) have "rb_insert_fixup_loop t' z' = Some t'"
        by (subst rb_insert_fixup_loop.simps) (simp add: colf_def)
      ultimately show ?thesis unfolding step using b(2) by blast
    qed
  qed
qed

text \<open>Blackening the root keeps both colour rules.\<close>

lemma blacken_root:
  assumes "rb_repr t T"
  shows "rb_repr (set_color (rbt_root t) RB_BLACK t) T"
    and "rootc (colf (set_color (rbt_root t) RB_BLACK t)) T = RB_BLACK"
  using assms by (cases T; auto simp: rb_repr_def mem_simps)+

lemma rb_insert_fixup_ok:
  assumes "ins_inv t C p l z r"
  shows "\<exists>t' T. rb_insert_fixup t z = Some t' \<and> same_data t t' \<and> rb_repr t' T \<and>
           rootc (colf t') T = RB_BLACK \<and> inorder T = inorder (plug C (Node l z r))"
proof -
  from rb_insert_fixup_loop_ok[OF assms] obtain t' T where "rb_insert_fixup_loop t z = Some t'"
    "same_data t t'" "rb_repr t' T" "inorder T = inorder (plug C (Node l z r))" by blast
  with blacken_root[of t' T] show ?thesis
    by (intro exI[of _ "set_color (rbt_root t') RB_BLACK t'"] exI[of _ T])
       (simp add: rb_insert_fixup_def mem_simps)
qed

section \<open>Insertion: descent and link\<close>

lemma rb_insert_descend_ok:
  assumes "tree_at (rbt_mem t) (rbt_nil t) p a T" and "ctx_at (rbt_mem t) (rbt_nil t) rt C a p"
    and "sorted (map (rkey t) (inorder T))"
    and "\<forall>b \<in> set (ctx_pre C). rkey t b \<le> k" and "\<forall>b \<in> set (ctx_post C). k < rkey t b"
  shows "\<exists>y C'. rb_insert_descend t k p a = Some y \<and> plug C' Leaf = plug C T \<and>
           ctx_at (rbt_mem t) (rbt_nil t) rt C' (rbt_nil t) y \<and>
           (\<forall>b \<in> set (ctx_pre C'). rkey t b \<le> k) \<and> (\<forall>b \<in> set (ctx_post C'). k < rkey t b)"
  using assms
proof (induction T arbitrary: C a p)
  case Leaf
  then show ?case by (subst rb_insert_descend.simps) auto
next
  case (Node l x r)
  show ?case
  proof (cases "k < rkey t x")
    case True
    have "rb_insert_descend t k p a = rb_insert_descend t k x (rleft t x)"
      using True Node.prems(1) by (subst rb_insert_descend.simps) simp
    moreover have "\<forall>b \<in> set_tree r. k < rkey t b"
      using Node.prems(3) True by (force simp: sorted_append)
    ultimately show ?thesis
      using Node.IH(1)[of x "rleft t x" "CL x r # C"] Node.prems True by (simp add: sorted_append ball_Un)
  next
    case False
    have "rb_insert_descend t k p a = rb_insert_descend t k x (rright t x)"
      using False Node.prems(1) by (subst rb_insert_descend.simps) simp
    moreover have "\<forall>b \<in> set_tree l. rkey t b \<le> k"
      using Node.prems(3) False by (force simp: sorted_append)
    ultimately show ?thesis
      using Node.IH(2)[of x "rright t x" "CR l x # C"] Node.prems False by (simp add: sorted_append ball_Un)
  qed
qed

text \<open>The well-formedness invariant of a tree object, with its abstraction \<open>T\<close>.\<close>

definition rb_ok :: "'m rb_tree_t \<Rightarrow> addr tree \<Rightarrow> bool" where
  "rb_ok t T \<longleftrightarrow> rb_repr t T \<and> rootc (colf t) T = RB_BLACK \<and>
     sorted (map (rkey t) (inorder T)) \<and> rbt_live t = insert (rbt_nil t) (set_tree T) \<and>
     rbt_size t = of_nat (size T)"

lemma rb_create_node_fields:
  assumes "z \<noteq> NULL"
  shows "rbt_mem (rb_create_node m t task z) =
      (rbt_mem t)(z := \<lparr>rb_parent = rbt_nil t, rb_left = rbt_nil t, rb_right = rbt_nil t,
                rb_color = RB_RED, rb_task = task, rb_key = rbt_get_key t m task\<rparr>)"
    and "rbt_nil (rb_create_node m t task z) = rbt_nil t" "rbt_root (rb_create_node m t task z) = rbt_root t"
    and "rbt_size (rb_create_node m t task z) = rbt_size t"
    and "rbt_live (rb_create_node m t task z) = insert z (rbt_live t)"
    and "rbt_get_key (rb_create_node m t task z) = rbt_get_key t"
  using assms by (simp_all add: rb_create_node_def)

lemma rb_link_frame [mem_simps]:
  "rkey (rb_link t z y) a = rkey t a" "rtask (rb_link t z y) a = rtask t a"
  "rbt_nil (rb_link t z y) = rbt_nil t" "rbt_size (rb_link t z y) = rbt_size t + 1"
  "rbt_get_key (rb_link t z y) = rbt_get_key t" "rbt_live (rb_link t z y) = rbt_live t"
  "colf (rb_link t z y) = colf t"
  by (auto simp: rb_link_def Let_def mem_simps colf_def fun_eq_iff)

lemma ctx_at_hd:
  "ctx_at m nl rt C a p \<Longrightarrow> p = nl \<longleftrightarrow> C = []"
  "ctx_at m nl rt C a p \<Longrightarrow> C = c # D \<Longrightarrow> p = crumb_root c"
  by (cases C rule: ctx_pre.cases; auto)+

text \<open>Linking a fresh node into the hole of a context.\<close>

lemma rb_link_repr:
  assumes cx: "ctx_at (rbt_mem t) (rbt_nil t) (rbt_root t) C (rbt_nil t) y"
    and d: "distinct (ctx_pre C @ ctx_post C)" and z: "z \<notin> ctx_set C" "z \<noteq> rbt_nil t" "z \<noteq> NULL"
    and n: "rleft t z = rbt_nil t" "rright t z = rbt_nil t"
    and k: "\<forall>b \<in> set (ctx_pre C). rkey t b \<le> rkey t z" "\<forall>b \<in> set (ctx_post C). rkey t z < rkey t b"
  shows "repr_at (rb_link t z y) C y z (Node Leaf z Leaf)"
proof -
  let ?t = "rb_link t z y" and ?nl = "rbt_nil t"
  have other: "links (rbt_mem ?t a) = links (rbt_mem t a)" if "a \<noteq> y" "a \<noteq> z" for a
    using that by (simp add: rb_link_def Let_def mem_simps)
  have "ctx_at (rbt_mem ?t) ?nl (rbt_root ?t) C z y"
  proof (cases C rule: ctx_pre.cases)
    case 1
    with cx show ?thesis by (simp add: rb_link_def Let_def mem_simps)
  next
    case (2 x r D)
    with cx k have y: "y = x" "x \<noteq> ?nl" "rkey t z < rkey t y" by auto
    have "ctx_at (rbt_mem ?t) ?nl (rbt_root t) D x (rparent t x)"
      using cx 2 by (subst ctx_at_cong[OF other]) (use d z y 2 in auto)
    moreover have "tree_at (rbt_mem ?t) ?nl x (rright t x) r"
      using cx 2 by (subst tree_at_cong[OF other]) (use d z y 2 in auto)
    ultimately show ?thesis using 2 cx y z by (simp add: rb_link_def Let_def mem_simps)
  next
    case (3 l x D)
    with cx k have y: "y = x" "x \<noteq> ?nl" "\<not> rkey t z < rkey t y" by auto
    have "ctx_at (rbt_mem ?t) ?nl (rbt_root t) D x (rparent t x)"
      using cx 3 by (subst ctx_at_cong[OF other]) (use d z y 3 in auto)
    moreover have "tree_at (rbt_mem ?t) ?nl x (rleft t x) l"
      using cx 3 by (subst tree_at_cong[OF other]) (use d z y 3 in auto)
    ultimately show ?thesis using 3 cx y z by (simp add: rb_link_def Let_def mem_simps)
  qed
  moreover have "y \<noteq> z" using cx z ctx_parent_mem by blast
  then have "tree_at (rbt_mem ?t) ?nl y z (Node Leaf z Leaf)"
    using z n by (simp add: rb_link_def Let_def mem_simps)
  ultimately show ?thesis using d z by (simp add: mem_simps inorder_plug)
qed

lemma rb_insert_ins_inv:
  fixes t :: "'m rb_tree_t" and m :: 'm and task z :: addr
  assumes ok: "rb_ok t T" and z: "z \<noteq> NULL" "z \<notin> rbt_live t"
  defines "t1 \<equiv> rb_create_node m t task z"
  shows "\<exists>y C. rb_insert_descend t1 (rkey t1 z) (rbt_nil t1) (rbt_root t1) = Some y \<and>
     ins_inv (rb_link t1 z y) C y Leaf z Leaf \<and> plug C Leaf = T \<and>
     (\<forall>b \<in> set (ctx_pre C). rkey t b \<le> rbt_get_key t m task) \<and>
     (\<forall>b \<in> set (ctx_post C). rbt_get_key t m task < rkey t b)"
proof -
  let ?k = "rbt_get_key t m task" and ?nl = "rbt_nil t"
  note F = rb_create_node_fields[OF z(1), of m t task, folded t1_def]
  have zT: "z \<notin> set_tree T" "z \<noteq> ?nl" using ok z by (auto simp: rb_ok_def)
  from ok have T: "tree_at (rbt_mem t) ?nl ?nl (rbt_root t) T" "distinct (inorder T)" 
    "sorted (map (rkey t) (inorder T))" "colf t ?nl = RB_BLACK" "?nl \<noteq> NULL" "invc (colf t) T" "invh (colf t) T"
    "rootc (colf t) T = RB_BLACK"
    by (simp_all add: rb_ok_def rb_repr_def)
  have keys: "rkey t1 b = rkey t b" if "b \<noteq> z" for b using that F by simp
  have T1: "tree_at (rbt_mem t1) ?nl ?nl (rbt_root t1) T"
    unfolding F(3) by (subst tree_at_cong[of T _ "rbt_mem t"]) (use T zT F in auto)
  have "sorted (map (rkey t1) (inorder T))"
    using T(3) zT by (subst sorted_map_cong[of _ _ "rkey t"]) (auto intro: keys)
  then obtain y C where y: "rb_insert_descend t1 ?k ?nl (rbt_root t1) = Some y"
    "plug C Leaf = T" "ctx_at (rbt_mem t1) ?nl (rbt_root t1) C ?nl y"
    and k: "\<forall>b \<in> set (ctx_pre C). rkey t1 b \<le> ?k" "\<forall>b \<in> set (ctx_post C). ?k < rkey t1 b"
    using rb_insert_descend_ok[of t1 ?nl "rbt_root t1" T "rbt_root t1" "[]" ?k] T1 T(3) F(2,3) by auto
  have zC: "z \<notin> ctx_set C" and dC: "distinct (ctx_pre C @ ctx_post C)"
    using zT(1) T(2) unfolding y(2)[symmetric] set_inorder[symmetric] inorder_plug by auto
  have R: "repr_at (rb_link t1 z y) C y z (Node Leaf z Leaf)"
    using y(3) dC zC zT z k F by (intro rb_link_repr) auto
  have c: "colf t1 = (colf t)(z := RB_RED)"
    by (simp add: colf_def F fun_eq_iff)
  have "C \<noteq> [] \<Longrightarrow> colf t (crumb_root (last C)) = RB_BLACK"
    using T(8) unfolding y(2)[symmetric] by (simp add: rootc_plug)
  moreover have "crumb_root (last C) \<noteq> z" if "C \<noteq> []"
    using that zC crumb_root_mem[of "last C" C] by auto
  moreover have "hole_h (colf t) C 0" "hole_c (colf t) C RB_BLACK"
    using T(6,7) unfolding y(2)[symmetric] by (simp_all add: invh_plug invc_plug)
  ultimately have "ins_inv (rb_link t1 z y) C y Leaf z Leaf"
    unfolding ins_inv_def using R T(4,5) zT zC by (simp add: c F mem_simps)
  moreover have "rkey t1 b = rkey t b" if "b \<in> ctx_set C" for b using that zC by (intro keys) auto
  ultimately show ?thesis using y k F by (intro exI[of _ y] exI[of _ C]) simp
qed

lemma rb_insert_ok:
  assumes ok: "rb_ok t T" and z: "z \<noteq> NULL" "z \<notin> rbt_live t"
  shows "\<exists>t' T'. rb_insert m t task z = Some t' \<and> rb_ok t' T' \<and>
     inorder T' = takeWhile (\<lambda>a. rkey t a \<le> rbt_get_key t m task) (inorder T) @ z # dropWhile (\<lambda>a. rkey t a \<le> rbt_get_key t m task) (inorder T) \<and>
     rtask t' z = task \<and> rkey t' z = rbt_get_key t m task \<and>
     (\<forall>a \<in> set_tree T. rtask t' a = rtask t a \<and> rkey t' a = rkey t a) \<and>
     rbt_size t' = rbt_size t + 1 \<and> rbt_live t' = insert z (rbt_live t) \<and>
     rbt_nil t' = rbt_nil t \<and> rbt_get_key t' = rbt_get_key t"
proof -
  define k where "k = rbt_get_key t m task"
  let ?t1 = "rb_create_node m t task z"
  note F = rb_create_node_fields[OF z(1), of m t task]
  have zT: "z \<notin> set_tree T" "z \<noteq> rbt_nil t" using ok z by (auto simp: rb_ok_def)
  obtain y C where y: "rb_insert_descend ?t1 (rkey ?t1 z) (rbt_nil ?t1) (rbt_root ?t1) = Some y"
    and I: "ins_inv (rb_link ?t1 z y) C y Leaf z Leaf" and T: "plug C Leaf = T"
    and k: "\<forall>b \<in> set (ctx_pre C). rkey t b \<le> k" "\<forall>b \<in> set (ctx_post C). k < rkey t b"
    using rb_insert_ins_inv[OF ok z, of m task] k_def by blast
  obtain t' T' where fx: "rb_insert_fixup (rb_link ?t1 z y) z = Some t'"
    and sd: "same_data (rb_link ?t1 z y) t'" and r: "rb_repr t' T'" "rootc (colf t') T' = RB_BLACK"
    and io: "inorder T' = ctx_pre C @ z # ctx_post C"
    using rb_insert_fixup_ok[OF I] by (auto simp: inorder_plug)
  have ins: "rb_insert m t task z = Some t'"
    using y fx z by (simp add: rb_insert_def)
  have io0: "inorder T = ctx_pre C @ ctx_post C" using T by (auto simp: inorder_plug)
  have key: "rkey t' b = (if b = z then k else rkey t b)" and task: "rtask t' b = (if b = z then task else rtask t b)" for b
    using sd by (auto simp: same_data_def mem_simps F fun_eq_iff k_def)
  have rest: "rbt_size t' = rbt_size t + 1" "rbt_live t' = insert z (rbt_live t)"
     "rbt_nil t' = rbt_nil t" "rbt_get_key t' = rbt_get_key t"
    using sd by (simp_all add: same_data_def mem_simps F)
  have zC: "z \<notin> ctx_set C" using zT(1) by (simp add: io0 flip: set_inorder)
  have "sorted (map (rkey t) (ctx_pre C @ ctx_post C))" using ok by (simp add: rb_ok_def io0)
  moreover have kb: "rkey t' b = rkey t b" if "b \<in> ctx_set C" for b using that zC by (auto simp: key)
  moreover have "rkey t' z = k" by (simp add: key)
  ultimately have so: "sorted (map (rkey t') (inorder T'))"
    using k by (auto simp: io sorted_append sorted_map_cong[of _ "rkey t'" "rkey t"] less_imp_le)
  have "size T' = Suc (size T)" by (simp add: io io0 flip: length_inorder)
  moreover have "set_tree T' = insert z (set_tree T)" by (auto simp: io io0 simp flip: set_inorder)
  ultimately have "rb_ok t' T'" using ok r so rest by (auto simp: rb_ok_def)
  moreover have "inorder T' = takeWhile (\<lambda>a. rkey t a \<le> k) (inorder T) @ z # dropWhile (\<lambda>a. rkey t a \<le> k) (inorder T)"
    unfolding io io0 using sorted_split_takeWhile[of "ctx_pre C" "rkey t" k "ctx_post C"] k by simp
  ultimately show ?thesis using ins rest zT by (auto simp: key task k_def)
qed

end
