(* ===== verification/Rbtree_Query.thy ===== *)
theory Rbtree_Query
  imports Rbtree_Insert
begin

text \<open>
  The read-only operations of \<open>rbtree.c\<close> on a well-formed tree: minimum, maximum, search,
  successor, predecessor, the two walks, and the life cycle \<open>rb_init\<close> / \<open>rb_clear\<close>.
\<close>

section \<open>Minimum and maximum\<close>

lemma rb_minimum_at:
  assumes "tree_at (rbt_mem t) (rbt_nil t) p a T" and "T \<noteq> Leaf"
  shows "rb_minimum t a = Some (hd (inorder T))"
  using assms
proof (induction T arbitrary: p a)
  case (Node l x r)
  show ?case
  proof (cases "l = Leaf")
    case True
    with Node.prems show ?thesis by (subst rb_minimum.simps) simp
  next
    case False
    then have "inorder l \<noteq> []" "rleft t x \<noteq> rbt_nil t"
      using Node.prems by (cases l; auto)+
    with Node False show ?thesis by (subst rb_minimum.simps) auto
  qed
qed simp

lemma rb_maximum_at:
  assumes "tree_at (rbt_mem t) (rbt_nil t) p a T" and "T \<noteq> Leaf"
  shows "rb_maximum t a = Some (last (inorder T))"
  using assms
proof (induction T arbitrary: p a)
  case (Node l x r)
  show ?case
  proof (cases "r = Leaf")
    case True
    with Node.prems show ?thesis by (subst rb_maximum.simps) simp
  next
    case False
    then have "inorder r \<noteq> []" "rright t x \<noteq> rbt_nil t"
      using Node.prems by (cases r; auto)+
    with Node False show ?thesis by (subst rb_maximum.simps) auto
  qed
qed simp

lemma rb_ok_D:
  assumes "rb_ok t T"
  shows "tree_at (rbt_mem t) (rbt_nil t) (rbt_nil t) (rbt_root t) T" "distinct (inorder T)"
    "sorted (map (rkey t) (inorder T))" "rbt_nil t \<noteq> NULL"
    "rbt_nil t \<notin> set_tree T" "NULL \<notin> set_tree T"
  using assms nil_notin_tree[of "rbt_mem t" "rbt_nil t"] by (auto simp: rb_ok_def rb_repr_def)

lemma rb_ok_root_nil: "rb_ok t T \<Longrightarrow> rbt_root t = rbt_nil t \<longleftrightarrow> T = Leaf"
  using rb_ok_D(1) by (cases T) fastforce+

section \<open>Search\<close>

lemma rb_search_loop_at:
  assumes "tree_at (rbt_mem t) (rbt_nil t) p a T" and "sorted (map (rkey t) (inorder T))"
  shows "\<exists>x. rb_search_loop t k a = Some x \<and>
     (if \<exists>b \<in> set_tree T. rkey t b = k then x \<in> set_tree T \<and> rkey t x = k else x = rbt_nil t)"
  using assms
proof (induction T arbitrary: p a)
  case Leaf
  then show ?case by (subst rb_search_loop.simps) simp
next
  case (Node l x r)
  have lo: "\<forall>b \<in> set_tree l. rkey t b \<le> rkey t x" and hi: "\<forall>b \<in> set_tree r. rkey t x \<le> rkey t b"
    and so: "sorted (map (rkey t) (inorder l))" "sorted (map (rkey t) (inorder r))"
    using Node.prems(2) by (auto simp: sorted_append)
  from Node.prems(1) have x: "a = x" "x \<noteq> rbt_nil t" and tl: "tree_at (rbt_mem t) (rbt_nil t) x (rleft t x) l"
    and tr: "tree_at (rbt_mem t) (rbt_nil t) x (rright t x) r" by auto
  consider "k = rkey t x" | "k < rkey t x" | "rkey t x < k" by fastforce
  then show ?case
  proof cases
    case 1
    with x show ?thesis by (subst rb_search_loop.simps) auto
  next
    case 2
    then have "rb_search_loop t k a = rb_search_loop t k (rleft t x)"
      using x by (subst rb_search_loop.simps) auto
    with Node.IH(1)[OF tl so(1)] 2 hi show ?thesis by (auto simp: not_le dest!: leD split: if_splits)
  next
    case 3
    then have "rb_search_loop t k a = rb_search_loop t k (rright t x)"
      using x by (subst rb_search_loop.simps) auto
    with Node.IH(2)[OF tr so(2)] 3 lo show ?thesis by (auto simp: not_le dest!: leD split: if_splits)
  qed
qed

lemma rb_search_ok:
  assumes "rb_ok t T"
  shows "\<exists>x. rb_search t k = Some x \<and>
     (if \<exists>b \<in> set_tree T. rkey t b = k then x \<in> set_tree T \<and> rkey t x = k else x = NULL)"
proof -
  note D = rb_ok_D[OF assms]
  from rb_search_loop_at[OF D(1,3), of k] obtain x where "rb_search_loop t k (rbt_root t) = Some x"
    "if \<exists>b \<in> set_tree T. rkey t b = k then x \<in> set_tree T \<and> rkey t x = k else x = rbt_nil t" by blast
  with D(5) show ?thesis by (auto simp: rb_search_def split: if_splits)
qed

text \<open>\<open>rb_find_task\<close> always ends, and what it returns holds the task it was asked for.\<close>

lemma rb_find_task_loop_at:
  assumes "tree_at (rbt_mem t) (rbt_nil t) p a T"
  shows "\<exists>x. rb_find_task_loop t task k a = Some x \<and> (x = NULL \<or> x \<in> set_tree T \<and> rtask t x = task)"
  using assms
proof (induction T arbitrary: p a)
  case Leaf
  then show ?case by (subst rb_find_task_loop.simps) simp
next
  case (Node l x r)
  then show ?case by (subst rb_find_task_loop.simps) (fastforce split: if_splits)
qed

text \<open>It finds the node of a task whose key no other node has.\<close>

lemma rb_find_task_loop_complete:
  assumes "tree_at (rbt_mem t) (rbt_nil t) p a T" and "sorted (map (rkey t) (inorder T))"
    and "n \<in> set_tree T" "rtask t n = task" "rkey t n = k"
    and "\<forall>b \<in> set_tree T. b \<noteq> n \<longrightarrow> rkey t b \<noteq> k \<and> rtask t b \<noteq> task"
  shows "rb_find_task_loop t task k a = Some n"
  using assms
proof (induction T arbitrary: p a)
  case Leaf
  then show ?case by simp
next
  case (Node l x r)
  have lo: "\<forall>b \<in> set_tree l. rkey t b \<le> rkey t x" and hi: "\<forall>b \<in> set_tree r. rkey t x \<le> rkey t b"
    and so: "sorted (map (rkey t) (inorder l))" "sorted (map (rkey t) (inorder r))"
    using Node.prems(2) by (auto simp: sorted_append)
  from Node.prems(1) have x: "a = x" "x \<noteq> rbt_nil t" and tl: "tree_at (rbt_mem t) (rbt_nil t) x (rleft t x) l"
    and tr: "tree_at (rbt_mem t) (rbt_nil t) x (rright t x) r" by auto
  consider "x = n" | "x \<noteq> n" "n \<in> set_tree l" "k < rkey t x" | "x \<noteq> n" "n \<in> set_tree r" "\<not> k < rkey t x"
    using Node.prems(3,5,6) lo hi by (fastforce simp: less_le)
  then show ?case
  proof cases
    case 1
    with x Node.prems(4) show ?thesis by (subst rb_find_task_loop.simps) auto
  next
    case 2
    with x Node.prems(6) show ?thesis
      using Node.IH(1)[OF tl so(1) 2(2) Node.prems(4,5)] by (subst rb_find_task_loop.simps) auto
  next
    case 3
    with x Node.prems(6) show ?thesis
      using Node.IH(2)[OF tr so(2) 3(2) Node.prems(4,5)] by (subst rb_find_task_loop.simps) auto
  qed
qed

section \<open>Walks and clearing\<close>

lemma rb_inorder_walk_at:
  "tree_at (rbt_mem t) (rbt_nil t) p a T \<Longrightarrow>
     rb_inorder_walk_recursive t a visit s = Some (fold visit (inorder T) s)"
proof (induction T arbitrary: p a s)
  case Leaf
  then show ?case by (subst rb_inorder_walk_recursive.simps) simp
next
  case (Node l x r)
  from Node.prems have "tree_at (rbt_mem t) (rbt_nil t) x (rleft t x) l"
    "tree_at (rbt_mem t) (rbt_nil t) x (rright t x) r" "a = x" "x \<noteq> rbt_nil t" by auto
  with Node.IH(1)[of x "rleft t x"] Node.IH(2)[of x "rright t x"]
  show ?case by (subst rb_inorder_walk_recursive.simps) simp
qed

lemma rb_preorder_walk_at:
  "tree_at (rbt_mem t) (rbt_nil t) p a T \<Longrightarrow>
     rb_preorder_walk_recursive t a visit s = Some (fold visit (preorder T) s)"
proof (induction T arbitrary: p a s)
  case Leaf
  then show ?case by (subst rb_preorder_walk_recursive.simps) simp
next
  case (Node l x r)
  from Node.prems have "tree_at (rbt_mem t) (rbt_nil t) x (rleft t x) l"
    "tree_at (rbt_mem t) (rbt_nil t) x (rright t x) r" "a = x" "x \<noteq> rbt_nil t" by auto
  with Node.IH(1)[of x "rleft t x"] Node.IH(2)[of x "rright t x"]
  show ?case by (subst rb_preorder_walk_recursive.simps) simp
qed

lemma rb_clear_at:
  "tree_at (rbt_mem t) (rbt_nil t) p a T \<Longrightarrow>
     rb_clear_recursive t a live = Some (live - set_tree T)"
proof (induction T arbitrary: p a live)
  case Leaf
  then show ?case by (subst rb_clear_recursive.simps) simp
next
  case (Node l x r)
  then show ?case by (subst rb_clear_recursive.simps) auto
qed

lemma rb_clear_ok:
  assumes "rb_ok t T"
  shows "\<exists>t'. rb_clear t = Some t' \<and> rb_ok t' Leaf \<and> rbt_live t' = {rbt_nil t}"
  using assms rb_clear_at[OF rb_ok_D(1)[OF assms], of "rbt_live t"] rb_ok_D(5)[OF assms]
  by (auto simp: rb_clear_def rb_ok_def rb_repr_def colf_def)

lemma rb_init_ok:
  assumes "nl \<noteq> NULL"
  shows "\<exists>t. rb_init junk nl key = Some t \<and> rb_ok t Leaf \<and> rbt_get_key t = key \<and> rbt_nil t = nl"
  using assms by (auto simp: rb_init_def rb_ok_def rb_repr_def colf_def)

section \<open>Successor and predecessor\<close>

text \<open>Climbing from a right spine ends at the first ancestor entered from the left.\<close>

lemma rb_climb_right_at:
  assumes "ctx_at (rbt_mem t) (rbt_nil t) rt C a p" and "a \<noteq> rbt_nil t"
    and "distinct (ctx_pre C @ ctx_post C)" "a \<notin> ctx_set C"
  shows "rb_climb_right t a p = Some (hd (ctx_post C @ [rbt_nil t]))"
  using assms
proof (induction C arbitrary: a p)
  case Nil
  then show ?case by (subst rb_climb_right.simps) simp
next
  case (Cons c C)
  show ?case
  proof (cases c)
    case (CL x r)
    with Cons.prems have "a \<noteq> rright t x" by (auto dest!: tree_at_root)
    with Cons.prems CL show ?thesis by (subst rb_climb_right.simps) simp
  next
    case (CR l x)
    have "rb_climb_right t x (rparent t x) = Some (hd (ctx_post C @ [rbt_nil t]))"
      by (rule Cons.IH) (use Cons.prems CR in auto)
    with Cons.prems CR show ?thesis by (subst rb_climb_right.simps) simp
  qed
qed

lemma rb_climb_left_at:
  assumes "ctx_at (rbt_mem t) (rbt_nil t) rt C a p" and "a \<noteq> rbt_nil t"
    and "distinct (ctx_pre C @ ctx_post C)" "a \<notin> ctx_set C"
  shows "rb_climb_left t a p = Some (last (rbt_nil t # ctx_pre C))"
  using assms
proof (induction C arbitrary: a p)
  case Nil
  then show ?case by (subst rb_climb_left.simps) simp
next
  case (Cons c C)
  show ?case
  proof (cases c)
    case (CR l x)
    with Cons.prems have "a \<noteq> rleft t x" by (auto dest!: tree_at_root)
    with Cons.prems CR show ?thesis by (subst rb_climb_left.simps) simp
  next
    case (CL x r)
    have "rb_climb_left t x (rparent t x) = Some (last (rbt_nil t # ctx_pre C))"
      by (rule Cons.IH) (use Cons.prems CL in auto)
    with Cons.prems CL show ?thesis by (subst rb_climb_left.simps) simp
  qed
qed

text \<open>Every node of the tree is the focus of some context.\<close>

lemma plug_split:
  "x \<in> set_tree T \<Longrightarrow> \<exists>C' l r. plug C' (Node l x r) = plug C T"
proof (induction T arbitrary: C)
  case (Node l y r)
  then consider "x = y" | "x \<in> set_tree l" | "x \<in> set_tree r" by auto
  then show ?case
    using Node.IH(1)[of "CL y r # C"] Node.IH(2)[of "CR l y # C"] by cases auto
qed simp

lemma rb_ok_focus:
  assumes "rb_ok t T" and "x \<in> set_tree T"
  obtains C l r where "T = plug C (Node l x r)" and "repr_at t C (rparent t x) x (Node l x r)"
    and "inorder T = (ctx_pre C @ inorder l) @ x # (inorder r @ ctx_post C)"
proof -
  from plug_split[OF assms(2), of "[]"] obtain C l r where C: "T = plug C (Node l x r)" by auto
  with rb_ok_D(1,2)[OF assms(1)] have "repr_at t C (rparent t x) x (Node l x r)"
    by (auto simp: tree_at_plug)
  with C show thesis by (intro that[of C l r]) (auto simp: inorder_plug)
qed

lemma rb_successor_ok:
  assumes "rb_ok t T" and "inorder T = xs @ x # ys"
  shows "rb_successor t x = Some (hd (ys @ [rbt_nil t]))"
proof -
  have "x \<in> set_tree T" by (metis assms(2) in_set_conv_decomp set_inorder)
  then obtain C l r where R: "repr_at t C (rparent t x) x (Node l x r)"
    and io: "inorder T = (ctx_pre C @ inorder l) @ x # (inorder r @ ctx_post C)"
    using rb_ok_focus[OF assms(1)] by metis
  have ys: "ys = inorder r @ ctx_post C"
    using assms(2) io rb_ok_D(2)[OF assms(1)] distinct_split_eq[of "ctx_pre C @ inorder l" x] by metis
  show ?thesis
  proof (cases r)
    case Leaf
    with R have "rb_successor t x = rb_climb_right t x (rparent t x)" by (simp add: rb_successor_def)
    with rb_climb_right_at[of t "rbt_root t" C x "rparent t x"] R Leaf ys show ?thesis
      by (auto simp: inorder_plug)
  next
    case (Node r1 y r2)
    with R have "rb_successor t x = rb_minimum t (rright t x)" "tree_at (rbt_mem t) (rbt_nil t) x (rright t x) r"
      by (auto simp: rb_successor_def)
    with rb_minimum_at[of t x "rright t x" r] Node ys show ?thesis by (simp add: hd_append)
  qed
qed

lemma rb_predecessor_ok:
  assumes "rb_ok t T" and "inorder T = xs @ x # ys"
  shows "rb_predecessor t x = Some (last (rbt_nil t # xs))"
proof -
  have "x \<in> set_tree T" by (metis assms(2) in_set_conv_decomp set_inorder)
  then obtain C l r where R: "repr_at t C (rparent t x) x (Node l x r)"
    and io: "inorder T = (ctx_pre C @ inorder l) @ x # (inorder r @ ctx_post C)"
    using rb_ok_focus[OF assms(1)] by metis
  have xs: "xs = ctx_pre C @ inorder l"
    using assms(2) io rb_ok_D(2)[OF assms(1)] distinct_split_eq[of "ctx_pre C @ inorder l" x] by metis
  show ?thesis
  proof (cases l)
    case Leaf
    with R have "rb_predecessor t x = rb_climb_left t x (rparent t x)" by (simp add: rb_predecessor_def)
    with rb_climb_left_at[of t "rbt_root t" C x "rparent t x"] R Leaf xs show ?thesis
      by (auto simp: inorder_plug Int_Un_distrib)
  next
    case (Node l1 y l2)
    with R have "rb_predecessor t x = rb_maximum t (rleft t x)" "tree_at (rbt_mem t) (rbt_nil t) x (rleft t x) l"
      by (auto simp: rb_predecessor_def)
    with rb_maximum_at[of t x "rleft t x" l] Node xs show ?thesis by simp
  qed
qed

end
