(* ===== verification/Rbtree_Delete.thy ===== *)
theory Rbtree_Delete
  imports Rbtree_Query
begin

text \<open>
  \<open>rb_delete_fixup\<close>: the loop with its four cases on either side. It ends, and it repairs a tree
  in which one subtree is a black node short.
\<close>


section \<open>Deletion: the fix-up loop\<close>

lemma last_crumb_ne: "C \<noteq> [] \<Longrightarrow> x \<notin> ctx_set C \<Longrightarrow> crumb_root (last C) \<noteq> x"
  using crumb_root_mem[of "last C" C] by auto

text \<open>
  The configuration at the head of the loop: the subtree \<open>X\<close> in focus is one black node short.
  \<open>x\<close> may be the sentinel, whose parent pointer then is the parent of the hole. Only the root of
  \<open>X\<close> may be a red node with a red child: it is blackened when the loop ends there.
\<close>

fun invc2 :: "(addr \<Rightarrow> rb_color_t) \<Rightarrow> addr tree \<Rightarrow> bool" where
  "invc2 c Leaf \<longleftrightarrow> True"
| "invc2 c (Node l x r) \<longleftrightarrow> invc c l \<and> invc c r"

lemma invc2_black: "invc2 c X \<Longrightarrow> rootc c X = RB_BLACK \<Longrightarrow> invc c X"
  by (cases X) auto

lemma invc2_update [simp]: "x \<notin> set_tree t \<Longrightarrow> invc2 (c(x := v)) t = invc2 c t"
  by (cases t) auto

definition del_inv :: "'m rb_tree_t \<Rightarrow> crumb list \<Rightarrow> addr \<Rightarrow> addr \<Rightarrow> addr tree \<Rightarrow> bool" where
  "del_inv t C p x X \<longleftrightarrow>
     repr_at t C p x X \<and> rparent t x = p \<and> colf t (rbt_nil t) = RB_BLACK \<and> rbt_nil t \<noteq> NULL \<and>
     invc2 (colf t) X \<and> invh (colf t) X \<and>
     hole_h (colf t) C (Suc (bh (colf t) X)) \<and> hole_c (colf t) C RB_BLACK \<and>
     (C \<noteq> [] \<longrightarrow> colf t (crumb_root (last C)) = RB_BLACK)"

definition del_progress :: "'m rb_tree_t \<Rightarrow> nat \<Rightarrow> addr list \<Rightarrow> 'm rb_tree_t \<times> addr \<Rightarrow> bool" where
  "del_progress t n xs r \<longleftrightarrow> (case r of (t', x') \<Rightarrow> same_data t t' \<and>
     ((\<exists>C' p' X'. (length C' < n \<or> colf t' x' = RB_RED) \<and> del_inv t' C' p' x' X' \<and> inorder (plug C' X') = xs) \<or>
      (\<exists>T. rb_repr t' T \<and> rootc (colf t') T = RB_BLACK \<and> inorder T = xs \<and> x' = rbt_root t')))"

text \<open>The colours around the hole, whichever side it is on.\<close>

lemma del_inv_facts:
  assumes I: "del_inv t (c1 # C1) p x X" and x: "colf t x = RB_BLACK"
    and W: "crumb_sib c1 = Node w1 w w2"
  defines "n \<equiv> bh (colf t) X"
  shows "repr_at t (c1 # C1) p x X" "rparent t x = p" "colf t (rbt_nil t) = RB_BLACK" "rbt_nil t \<noteq> NULL"
    and "invc (colf t) X" "invh (colf t) X" "rootc (colf t) X = RB_BLACK"
    and "bh (colf t) (Node w1 w w2) = Suc n" "invh (colf t) (Node w1 w w2)" "invc (colf t) (Node w1 w w2)"
    and "colf t p = RB_RED \<Longrightarrow> colf t w = RB_BLACK"
    and "hole_h (colf t) C1 (Suc n + (if colf t p = RB_BLACK then 1 else 0))" "hole_c (colf t) C1 (colf t p)"
    and "C1 = [] \<Longrightarrow> colf t p = RB_BLACK" "C1 \<noteq> [] \<Longrightarrow> colf t (crumb_root (last C1)) = RB_BLACK"
    and "p = crumb_root c1"
proof -
  from I have J: "invc2 (colf t) X" "invh (colf t) X" "hole_h (colf t) (c1 # C1) (Suc n)"
    "hole_c (colf t) (c1 # C1) RB_BLACK" "colf t (crumb_root (last (c1 # C1))) = RB_BLACK"
    unfolding del_inv_def n_def by blast+
  from I show R: "repr_at t (c1 # C1) p x X" "rparent t x = p" "colf t (rbt_nil t) = RB_BLACK" "rbt_nil t \<noteq> NULL"
    unfolding del_inv_def by blast+
  show p: "p = crumb_root c1" using repr_at_zoom_out(2)[OF R(1)] .
  show rX: "rootc (colf t) X = RB_BLACK" using rootc_at[of "rbt_mem t" "rbt_nil t" p x X "colf t"] R x by simp
  then show "invc (colf t) X" "invh (colf t) X" using J by (auto intro: invc2_black)
  show "bh (colf t) (Node w1 w w2) = Suc n" "invh (colf t) (Node w1 w w2)" "invc (colf t) (Node w1 w w2)"
    and "colf t p = RB_RED \<Longrightarrow> colf t w = RB_BLACK"
    and "hole_h (colf t) C1 (Suc n + (if colf t p = RB_BLACK then 1 else 0))" "hole_c (colf t) C1 (colf t p)"
    and "C1 = [] \<Longrightarrow> colf t p = RB_BLACK" "C1 \<noteq> [] \<Longrightarrow> colf t (crumb_root (last C1)) = RB_BLACK"
    using J W p unfolding n_def by (cases c1; auto)+
qed

lemma repr_at_sibling_left: "repr_at t (CL p W # C) p x X \<longleftrightarrow> x = rleft t p \<and> repr_at t (CR X p # C) p (rright t p) W"
  by auto

lemma repr_at_sibling_right: "repr_at t (CR W p # C) p x X \<longleftrightarrow> x = rright t p \<and> repr_at t (CL p X # C) p (rleft t p) W"
  by auto

text \<open>Case 4, on the left: the far nephew is red.\<close>

lemma del_case4_left:
  assumes I: "del_inv t (CL p (Node w1 w w2) # C1) p x X" and x: "colf t x = RB_BLACK"
    and w: "colf t w = RB_BLACK" and r: "w2 = Node wa r wb" "colf t r = RB_RED"
  defines "t' \<equiv> rb_left_rotate (set_color r RB_BLACK (set_color p RB_BLACK (set_color w (colf t p) t))) p"
  shows "rb_repr t' (plug C1 (Node (Node X p w1) w w2))"
    and "rootc (colf t') (plug C1 (Node (Node X p w1) w w2)) = RB_BLACK"
proof -
  note F = del_inv_facts[OF I x crumb_sib.simps(1)]
  let ?T = "Node (Node X p w1) w w2"
  have R: "repr_at t' C1 (rparent t p) w ?T"
    unfolding t'_def using F(1) by (intro rb_left_rotate_repr) (auto simp: mem_simps)
  have c: "colf t' = (colf t)(w := colf t p, p := RB_BLACK, r := RB_BLACK)" and nl: "rbt_nil t' = rbt_nil t"
    by (simp_all add: t'_def mem_simps)
  have D: "distinct (ctx_pre C1 @ inorder X @ p # inorder w1 @ w # inorder wa @ r # inorder wb @ ctx_post C1)"
    using R r by (simp add: inorder_plug)
  have nn: "w \<noteq> rbt_nil t" "p \<noteq> rbt_nil t" "r \<noteq> rbt_nil t" using F(1) r by auto
  have bh: "bh (colf t) w1 = bh (colf t) X" "bh (colf t) wa = bh (colf t) X" "bh (colf t) wb = bh (colf t) X"
    using F(8,9) w r by auto
  have "invh (colf t') ?T" "invc (colf t') ?T" "rootc (colf t') ?T = colf t p"
    using F(5-10) D r w bh by (simp_all add: c)
  moreover have "hole_h (colf t') C1 (bh (colf t') ?T)" "hole_c (colf t') C1 (colf t p)"
    using F(12,13) D r bh by (simp_all add: c)
  moreover have "tree_at (rbt_mem t') (rbt_nil t') (rbt_nil t') (rbt_root t') (plug C1 ?T)"
    using R by (auto simp: tree_at_plug nl simp del: tree_at.simps)
  ultimately show "rb_repr t' (plug C1 ?T)"
    using R F(3,4) nn by (simp add: rb_repr_def invc_plug invh_plug nl c)
  show "rootc (colf t') (plug C1 ?T) = RB_BLACK"
    using F(14,15) D r last_crumb_ne[of C1] by (simp add: rootc_plug c)
qed

text \<open>Rotating inside the sibling keeps the focus.\<close>

lemma tree_at_unique: "tree_at m nl p a T \<Longrightarrow> tree_at m' nl p' b T \<Longrightarrow> a = b"
  by (cases T) auto

lemma parent_of_focus:
  assumes "tree_at (rbt_mem t') (rbt_nil t) p x X"
    and "rparent t' (rbt_nil t) = rparent t (rbt_nil t)" and "rparent t x = p"
  shows "rparent t' x = p"
  using assms by (cases X) auto

lemma focus_colour:
  assumes "tree_at m nl p x X" and "y \<noteq> nl" and "y \<notin> set_tree X"
  shows "(c(y := v)) x = c x"
  using assms tree_at_root by fastforce

text \<open>Case 3: the near nephew is red; a rotation at the sibling leads to case 4.\<close>

lemma del_case3_left:
  assumes I: "del_inv t (CL p (Node (Node wa l wb) w w2) # C1) p x X" and x: "colf t x = RB_BLACK"
    and w: "colf t w = RB_BLACK" and l: "colf t l = RB_RED" and r: "rootc (colf t) w2 = RB_BLACK"
  defines "t' \<equiv> rb_right_rotate (set_color w RB_RED (set_color l RB_BLACK t)) w"
  shows "del_inv t' (CL p (Node wa l (Node wb w w2)) # C1) p x X"
    and "colf t' l = RB_BLACK" "colf t' w = RB_RED" "colf t' p = colf t p" "colf t' x = RB_BLACK"
    and "rparent t' x = p" "rright t' p = l" "rright t' l = w"
proof -
  note F = del_inv_facts[OF I x crumb_sib.simps(1)]
  have R0: "repr_at (set_color w RB_RED (set_color l RB_BLACK t)) (CR X p # C1) p w (Node (Node wa l wb) w w2)"
    using F(1) by (simp add: mem_simps)
  note rot = rb_right_rotate_repr[OF R0, folded t'_def]
  have c: "colf t' = (colf t)(l := RB_BLACK, w := RB_RED)" and nl: "rbt_nil t' = rbt_nil t"
    by (simp_all add: t'_def mem_simps)
  have x': "rleft t' p = x"
    using rot(1) F(1) tree_at_unique[of "rbt_mem t" "rbt_nil t" p x X "rbt_mem t'" p "rleft t' p"] by (simp add: nl)
  with rot(1) have R: "repr_at t' (CL p (Node wa l (Node wb w w2)) # C1) p x X" by simp
  show "rright t' p = l" "rright t' l = w" using rot(1) by auto
  have "tree_at (rbt_mem t') (rbt_nil t') p x X" using R by blast
  then show px: "rparent t' x = p"
    by (rule parent_of_focus[of t' t p x X, folded nl]) (use rot(2) F(2) in \<open>simp_all add: nl mem_simps\<close>)
  have D: "distinct (ctx_pre C1 @ inorder X @ p # inorder wa @ l # inorder wb @ w # inorder w2 @ ctx_post C1)"
    using R by (simp add: inorder_plug)
  have nn: "w \<noteq> rbt_nil t" "p \<noteq> rbt_nil t" "l \<noteq> rbt_nil t" using F(1) by auto
  show "colf t' l = RB_BLACK" "colf t' w = RB_RED" "colf t' p = colf t p" using D by (auto simp: c)
  show "colf t' x = RB_BLACK"
    using F(1) nn D x by (simp add: c focus_colour[of "rbt_mem t" "rbt_nil t" p x X] del: fun_upd_apply)
  have nlc: "colf t' (rbt_nil t') = RB_BLACK" "rbt_nil t' \<noteq> NULL" using F(3,4) nn by (simp_all add: c nl)
  have last: "colf t' (crumb_root (last (CL p (Node wa l (Node wb w w2)) # C1))) = RB_BLACK"
    using F(14,15) D last_crumb_ne[of C1] by (simp add: c)
  have "hole_h (colf t') (CL p (Node wa l (Node wb w w2)) # C1) (Suc (bh (colf t') X))"
    "hole_c (colf t') (CL p (Node wa l (Node wb w w2)) # C1) RB_BLACK"
    using F(8-13) D w l r by (auto simp: c)
  moreover have "invc2 (colf t') X" "invh (colf t') X"
    using I D by (simp_all add: c del_inv_def)
  ultimately show "del_inv t' (CL p (Node wa l (Node wb w w2)) # C1) p x X"
    unfolding del_inv_def using R px last nlc by blast
qed

text \<open>Case 2: no red nephew; the shortage moves up.\<close>

lemma del_case2:
  assumes I: "del_inv t (c1 # C1) p x X" and x: "colf t x = RB_BLACK"
    and W: "crumb_sib c1 = Node w1 w w2"
    and w: "colf t w = RB_BLACK" and r: "rootc (colf t) w1 = RB_BLACK" "rootc (colf t) w2 = RB_BLACK"
  shows "del_inv (set_color w RB_RED t) C1 (rparent t p) p (plug [c1] X)"
proof -
  note F = del_inv_facts[OF I x W]
  let ?c = "(colf t)(w := RB_RED)"
  have R: "repr_at t C1 (rparent t p) p (plug [c1] X)" using repr_at_zoom_out(1)[OF F(1)] .
  have D: "w \<noteq> p" "w \<notin> ctx_set C1" "w \<notin> set_tree X" "w \<notin> set_tree w1" "w \<notin> set_tree w2" "w \<noteq> rbt_nil t"
    using R W F(16) F(1) by (cases c1; force simp: inorder_plug)+
  have last: "C1 \<noteq> [] \<longrightarrow> ?c (crumb_root (last C1)) = RB_BLACK"
    using F(15) D last_crumb_ne by simp
  have "invc2 ?c (plug [c1] X)" "invh ?c (plug [c1] X)"
    and "bh ?c (plug [c1] X) = bh (colf t) X + (if colf t p = RB_BLACK then 1 else 0)"
    using F(5-10,16) W D w r by (cases c1; simp)+
  moreover have "hole_c (colf t) C1 RB_BLACK" using F(13) hole_c_black by (cases "colf t p") auto
  then have "hole_h ?c C1 (Suc (bh (colf t) X + (if colf t p = RB_BLACK then 1 else 0)))" "hole_c ?c C1 RB_BLACK"
    using F(12) D by simp_all
  ultimately show ?thesis
    unfolding del_inv_def using R last F(3,4) D by (simp add: mem_simps)
qed
text \<open>Case 1: the red sibling is rotated above the parent.\<close>

lemma del_case1_left:
  assumes I: "del_inv t (CL p (Node w1 w w2) # C1) p x X" and x: "colf t x = RB_BLACK" and w: "colf t w = RB_RED"
  defines "t' \<equiv> rb_left_rotate (set_color p RB_RED (set_color w RB_BLACK t)) p"
  shows "del_inv t' (CL p w1 # CL w w2 # C1) p x X"
    and "colf t' p = RB_RED" "colf t' x = RB_BLACK" "rootc (colf t') w1 = RB_BLACK"
    and "rparent t' x = p" "\<exists>wa v wb. w1 = Node wa v wb \<and> rright t' p = v"
proof -
  note F = del_inv_facts[OF I x crumb_sib.simps(1)]
  have R0: "repr_at (set_color p RB_RED (set_color w RB_BLACK t)) C1 (rparent t p) p (Node X p (Node w1 w w2))"
    using F(1) by (simp add: mem_simps)
  note rot = rb_left_rotate_repr[OF R0, folded t'_def]
  have c: "colf t' = (colf t)(w := RB_BLACK, p := RB_RED)" and nl: "rbt_nil t' = rbt_nil t"
    by (simp_all add: t'_def mem_simps)
  have x': "rleft t' p = x"
    using rot(1) F(1) tree_at_unique[of "rbt_mem t" "rbt_nil t" p x X "rbt_mem t'" p "rleft t' p"] by (simp add: nl)
  with rot(1) have R: "repr_at t' (CL p w1 # CL w w2 # C1) p x X" by simp
  have "tree_at (rbt_mem t') (rbt_nil t') p x X" using R by blast
  then show px: "rparent t' x = p"
    by (rule parent_of_focus[of t' t p x X, folded nl]) (use rot(2) F(2) in \<open>simp_all add: nl mem_simps\<close>)
  have D: "distinct (ctx_pre C1 @ inorder X @ p # inorder w1 @ w # inorder w2 @ ctx_post C1)"
    using R by (simp add: inorder_plug)
  have nn: "w \<noteq> rbt_nil t" "p \<noteq> rbt_nil t" using F(1) by auto
  have pB: "colf t p = RB_BLACK" using F(11) w by (cases "colf t p") auto
  show "colf t' p = RB_RED" by (simp add: c)
  show "colf t' x = RB_BLACK"
    using F(1) nn D x by (simp add: c focus_colour[of "rbt_mem t" "rbt_nil t" p x X] del: fun_upd_apply)
  show rw: "rootc (colf t') w1 = RB_BLACK" using F(10) D w by (simp add: c)
  have "bh (colf t) w1 = Suc (bh (colf t) X)" using F(8,9) w by simp
  then show "\<exists>wa v wb. w1 = Node wa v wb \<and> rright t' p = v"
    using rot(1) by (cases w1) auto
  have nlc: "colf t' (rbt_nil t') = RB_BLACK" "rbt_nil t' \<noteq> NULL" using F(3,4) nn by (simp_all add: c nl)
  have last: "colf t' (crumb_root (last (CL p w1 # CL w w2 # C1))) = RB_BLACK"
    using F(14,15) D last_crumb_ne[of C1] by (simp add: c)
  have "hole_h (colf t') (CL p w1 # CL w w2 # C1) (Suc (bh (colf t') X))"
    "hole_c (colf t') (CL p w1 # CL w w2 # C1) RB_BLACK"
    using F(8-13) D w pB by (auto simp: c)
  moreover have "invc2 (colf t') X" "invh (colf t') X"
    using I D by (simp_all add: c del_inv_def)
  ultimately show "del_inv t' (CL p w1 # CL w w2 # C1) p x X"
    unfolding del_inv_def using R px last nlc by blast
qed

text \<open>The treatment of a black sibling, put together.\<close>

lemma del_black_sibling_left:
  assumes I: "del_inv t (CL p (Node w1 w w2) # C1) p x X" and x: "colf t x = RB_BLACK" and w: "colf t w = RB_BLACK"
    and n: "length C1 < n \<or> colf t p = RB_RED"
  shows "del_progress t n (inorder (plug (CL p (Node w1 w w2) # C1) X)) (rb_delete_black_sibling_left t x w)"
proof -
  note F = del_inv_facts[OF I x crumb_sib.simps(1)]
  have cl: "colf t (rleft t w) = rootc (colf t) w1" and cr: "colf t (rright t w) = rootc (colf t) w2"
    using F(1,3) rootc_at[of "rbt_mem t" "rbt_nil t" w "rleft t w" w1 "colf t"]
      rootc_at[of "rbt_mem t" "rbt_nil t" w "rright t w" w2 "colf t"] by auto
  have wp: "w \<noteq> p" using F(1) by (auto simp: inorder_plug)
  consider (2) "rootc (colf t) w1 = RB_BLACK" "rootc (colf t) w2 = RB_BLACK" | (4) "rootc (colf t) w2 = RB_RED"
    | (3) "rootc (colf t) w1 = RB_RED" "rootc (colf t) w2 = RB_BLACK" by (metis not_red_iff(1))
  then show ?thesis
  proof cases
    case 2
    have b: "rb_delete_black_sibling_left t x w = (set_color w RB_RED t, p)"
      using 2 F(2) cl cr by (simp add: rb_delete_black_sibling_left_def mem_simps flip: colf_def)
    from del_case2[OF I x crumb_sib.simps(1) w 2] n wp show ?thesis
      unfolding b del_progress_def by (fastforce simp: mem_simps)
  next
    case 4
    then obtain wa r wb where r: "w2 = Node wa r wb" "colf t r = RB_RED" by (cases w2) auto
    have "rright t w = r" using F(1) r by auto
    then have b: "rb_delete_black_sibling_left t x w =
        (let t' = rb_left_rotate (set_color r RB_BLACK (set_color p RB_BLACK (set_color w (colf t p) t))) p
         in (t', rbt_root t'))"
      using 4 F(2) cl cr r by (simp add: rb_delete_black_sibling_left_def Let_def mem_simps flip: colf_def)
    show ?thesis
      using del_case4_left[OF I x w r] unfolding b del_progress_def Let_def
      by (fastforce simp: mem_simps inorder_plug)
  next
    case 3
    then obtain wa l wb where l: "w1 = Node wa l wb" "colf t l = RB_RED" by (cases w1) auto
    let ?t1 = "rb_right_rotate (set_color w RB_RED (set_color l RB_BLACK t)) w"
    note c3 = del_case3_left[OF I[unfolded l(1)] x w l(2) 3(2)]
    have "rleft t w = l" using F(1) l by auto
    then have b: "rb_delete_black_sibling_left t x w =
        (let t' = rb_left_rotate (set_color w RB_BLACK (set_color p RB_BLACK (set_color l (colf ?t1 p) ?t1))) p
         in (t', rbt_root t'))"
      using 3 F(2) cl cr l c3(6-8) by (simp add: rb_delete_black_sibling_left_def Let_def mem_simps flip: colf_def)
    show ?thesis
      using del_case4_left[OF c3(1,5,2) refl c3(3)] l unfolding b del_progress_def Let_def
      by (fastforce simp: mem_simps inorder_plug)
  qed
qed
text \<open>The mirror images.\<close>

lemma del_case4_right:
  assumes I: "del_inv t (CR (Node w2 w w1) p # C1) p x X" and x: "colf t x = RB_BLACK"
    and w: "colf t w = RB_BLACK" and r: "w2 = Node wb r wa" "colf t r = RB_RED"
  defines "t' \<equiv> rb_right_rotate (set_color r RB_BLACK (set_color p RB_BLACK (set_color w (colf t p) t))) p"
  shows "rb_repr t' (plug C1 (Node w2 w (Node w1 p X)))"
    and "rootc (colf t') (plug C1 (Node w2 w (Node w1 p X))) = RB_BLACK"
proof -
  note F = del_inv_facts[OF I x crumb_sib.simps(2)]
  let ?T = "Node w2 w (Node w1 p X)"
  have R: "repr_at t' C1 (rparent t p) w ?T"
    unfolding t'_def using F(1) by (intro rb_right_rotate_repr) (auto simp: mem_simps)
  have c: "colf t' = (colf t)(w := colf t p, p := RB_BLACK, r := RB_BLACK)" and nl: "rbt_nil t' = rbt_nil t"
    by (simp_all add: t'_def mem_simps)
  have D: "distinct (ctx_pre C1 @ inorder wb @ r # inorder wa @ w # inorder w1 @ p # inorder X @ ctx_post C1)"
    using R r by (simp add: inorder_plug)
  have nn: "w \<noteq> rbt_nil t" "p \<noteq> rbt_nil t" "r \<noteq> rbt_nil t" using F(1) r by auto
  have bh: "bh (colf t) w1 = bh (colf t) X" "bh (colf t) wa = bh (colf t) X" "bh (colf t) wb = bh (colf t) X"
    using F(8,9) w r by auto
  have "invh (colf t') ?T" "invc (colf t') ?T" "rootc (colf t') ?T = colf t p"
    using F(5-10) D r w bh by (simp_all add: c)
  moreover have "hole_h (colf t') C1 (bh (colf t') ?T)" "hole_c (colf t') C1 (colf t p)"
    using F(12,13) D r bh by (simp_all add: c)
  moreover have "tree_at (rbt_mem t') (rbt_nil t') (rbt_nil t') (rbt_root t') (plug C1 ?T)"
    using R by (auto simp: tree_at_plug nl simp del: tree_at.simps)
  ultimately show "rb_repr t' (plug C1 ?T)"
    using R F(3,4) nn by (simp add: rb_repr_def invc_plug invh_plug nl c)
  show "rootc (colf t') (plug C1 ?T) = RB_BLACK"
    using F(14,15) D r last_crumb_ne[of C1] by (simp add: rootc_plug c)
qed

lemma del_case3_right:
  assumes I: "del_inv t (CR (Node w2 w (Node wb l wa)) p # C1) p x X" and x: "colf t x = RB_BLACK"
    and w: "colf t w = RB_BLACK" and l: "colf t l = RB_RED" and r: "rootc (colf t) w2 = RB_BLACK"
  defines "t' \<equiv> rb_left_rotate (set_color w RB_RED (set_color l RB_BLACK t)) w"
  shows "del_inv t' (CR (Node (Node w2 w wb) l wa) p # C1) p x X"
    and "colf t' l = RB_BLACK" "colf t' w = RB_RED" "colf t' p = colf t p" "colf t' x = RB_BLACK"
    and "rparent t' x = p" "rleft t' p = l" "rleft t' l = w"
proof -
  note F = del_inv_facts[OF I x crumb_sib.simps(2)]
  have R0: "repr_at (set_color w RB_RED (set_color l RB_BLACK t)) (CL p X # C1) p w (Node w2 w (Node wb l wa))"
    using F(1) by (simp add: mem_simps)
  note rot = rb_left_rotate_repr[OF R0, folded t'_def]
  have c: "colf t' = (colf t)(l := RB_BLACK, w := RB_RED)" and nl: "rbt_nil t' = rbt_nil t"
    by (simp_all add: t'_def mem_simps)
  have x': "rright t' p = x"
    using rot(1) F(1) tree_at_unique[of "rbt_mem t" "rbt_nil t" p x X "rbt_mem t'" p "rright t' p"] by (simp add: nl)
  with rot(1) have R: "repr_at t' (CR (Node (Node w2 w wb) l wa) p # C1) p x X" by simp
  show "rleft t' p = l" "rleft t' l = w" using rot(1) by auto
  have "tree_at (rbt_mem t') (rbt_nil t') p x X" using R by blast
  then show px: "rparent t' x = p"
    by (rule parent_of_focus[of t' t p x X, folded nl]) (use rot(2) F(2) in \<open>simp_all add: nl mem_simps\<close>)
  have D: "distinct (ctx_pre C1 @ inorder w2 @ w # inorder wb @ l # inorder wa @ p # inorder X @ ctx_post C1)"
    using R by (simp add: inorder_plug)
  have nn: "w \<noteq> rbt_nil t" "p \<noteq> rbt_nil t" "l \<noteq> rbt_nil t" using F(1) by auto
  show "colf t' l = RB_BLACK" "colf t' w = RB_RED" "colf t' p = colf t p" using D by (auto simp: c)
  show "colf t' x = RB_BLACK"
    using F(1) nn D x by (simp add: c focus_colour[of "rbt_mem t" "rbt_nil t" p x X] del: fun_upd_apply)
  have nlc: "colf t' (rbt_nil t') = RB_BLACK" "rbt_nil t' \<noteq> NULL" using F(3,4) nn by (simp_all add: c nl)
  have last: "colf t' (crumb_root (last (CR (Node (Node w2 w wb) l wa) p # C1))) = RB_BLACK"
    using F(14,15) D last_crumb_ne[of C1] by (simp add: c)
  have "hole_h (colf t') (CR (Node (Node w2 w wb) l wa) p # C1) (Suc (bh (colf t') X))"
    "hole_c (colf t') (CR (Node (Node w2 w wb) l wa) p # C1) RB_BLACK"
    using F(8-13) D w l r by (auto simp: c)
  moreover have "invc2 (colf t') X" "invh (colf t') X"
    using I D by (simp_all add: c del_inv_def)
  ultimately show "del_inv t' (CR (Node (Node w2 w wb) l wa) p # C1) p x X"
    unfolding del_inv_def using R px last nlc by blast
qed

lemma del_case1_right:
  assumes I: "del_inv t (CR (Node w2 w w1) p # C1) p x X" and x: "colf t x = RB_BLACK" and w: "colf t w = RB_RED"
  defines "t' \<equiv> rb_right_rotate (set_color p RB_RED (set_color w RB_BLACK t)) p"
  shows "del_inv t' (CR w1 p # CR w2 w # C1) p x X"
    and "colf t' p = RB_RED" "colf t' x = RB_BLACK" "rootc (colf t') w1 = RB_BLACK"
    and "rparent t' x = p" "\<exists>wa v wb. w1 = Node wb v wa \<and> rleft t' p = v"
proof -
  note F = del_inv_facts[OF I x crumb_sib.simps(2)]
  have R0: "repr_at (set_color p RB_RED (set_color w RB_BLACK t)) C1 (rparent t p) p (Node (Node w2 w w1) p X)"
    using F(1) by (simp add: mem_simps)
  note rot = rb_right_rotate_repr[OF R0, folded t'_def]
  have c: "colf t' = (colf t)(w := RB_BLACK, p := RB_RED)" and nl: "rbt_nil t' = rbt_nil t"
    by (simp_all add: t'_def mem_simps)
  have x': "rright t' p = x"
    using rot(1) F(1) tree_at_unique[of "rbt_mem t" "rbt_nil t" p x X "rbt_mem t'" p "rright t' p"] by (simp add: nl)
  with rot(1) have R: "repr_at t' (CR w1 p # CR w2 w # C1) p x X" by simp
  have "tree_at (rbt_mem t') (rbt_nil t') p x X" using R by blast
  then show px: "rparent t' x = p"
    by (rule parent_of_focus[of t' t p x X, folded nl]) (use rot(2) F(2) in \<open>simp_all add: nl mem_simps\<close>)
  have D: "distinct (ctx_pre C1 @ inorder w2 @ w # inorder w1 @ p # inorder X @ ctx_post C1)"
    using R by (simp add: inorder_plug)
  have nn: "w \<noteq> rbt_nil t" "p \<noteq> rbt_nil t" using F(1) by auto
  have pB: "colf t p = RB_BLACK" using F(11) w by (cases "colf t p") auto
  show "colf t' p = RB_RED" by (simp add: c)
  show "colf t' x = RB_BLACK"
    using F(1) nn D x by (simp add: c focus_colour[of "rbt_mem t" "rbt_nil t" p x X] del: fun_upd_apply)
  show rw: "rootc (colf t') w1 = RB_BLACK" using F(10) D w by (simp add: c)
  have "bh (colf t) w1 = Suc (bh (colf t) X)" using F(8,9) w by simp
  then show "\<exists>wa v wb. w1 = Node wb v wa \<and> rleft t' p = v"
    using rot(1) by (cases w1) auto
  have nlc: "colf t' (rbt_nil t') = RB_BLACK" "rbt_nil t' \<noteq> NULL" using F(3,4) nn by (simp_all add: c nl)
  have last: "colf t' (crumb_root (last (CR w1 p # CR w2 w # C1))) = RB_BLACK"
    using F(14,15) D last_crumb_ne[of C1] by (simp add: c)
  have "hole_h (colf t') (CR w1 p # CR w2 w # C1) (Suc (bh (colf t') X))"
    "hole_c (colf t') (CR w1 p # CR w2 w # C1) RB_BLACK"
    using F(8-13) D w pB by (auto simp: c)
  moreover have "invc2 (colf t') X" "invh (colf t') X"
    using I D by (simp_all add: c del_inv_def)
  ultimately show "del_inv t' (CR w1 p # CR w2 w # C1) p x X"
    unfolding del_inv_def using R px last nlc by blast
qed

lemma del_black_sibling_right:
  assumes I: "del_inv t (CR (Node w2 w w1) p # C1) p x X" and x: "colf t x = RB_BLACK" and w: "colf t w = RB_BLACK"
    and n: "length C1 < n \<or> colf t p = RB_RED"
  shows "del_progress t n (inorder (plug (CR (Node w2 w w1) p # C1) X)) (rb_delete_black_sibling_right t x w)"
proof -
  note F = del_inv_facts[OF I x crumb_sib.simps(2)]
  have cl: "colf t (rright t w) = rootc (colf t) w1" and cr: "colf t (rleft t w) = rootc (colf t) w2"
    using F(1,3) rootc_at[of "rbt_mem t" "rbt_nil t" w "rright t w" w1 "colf t"]
      rootc_at[of "rbt_mem t" "rbt_nil t" w "rleft t w" w2 "colf t"] by auto
  have wp: "w \<noteq> p" using F(1) by (auto simp: inorder_plug)
  consider (2) "rootc (colf t) w1 = RB_BLACK" "rootc (colf t) w2 = RB_BLACK" | (4) "rootc (colf t) w2 = RB_RED"
    | (3) "rootc (colf t) w1 = RB_RED" "rootc (colf t) w2 = RB_BLACK" by (metis not_red_iff(1))
  then show ?thesis
  proof cases
    case 2
    have b: "rb_delete_black_sibling_right t x w = (set_color w RB_RED t, p)"
      using 2 F(2) cl cr by (simp add: rb_delete_black_sibling_right_def mem_simps flip: colf_def)
    from del_case2[OF I x crumb_sib.simps(2) w 2(2,1)] n wp show ?thesis
      unfolding b del_progress_def by (fastforce simp: mem_simps)
  next
    case 4
    then obtain wa r wb where r: "w2 = Node wb r wa" "colf t r = RB_RED" by (cases w2) auto
    have "rleft t w = r" using F(1) r by auto
    then have b: "rb_delete_black_sibling_right t x w =
        (let t' = rb_right_rotate (set_color r RB_BLACK (set_color p RB_BLACK (set_color w (colf t p) t))) p
         in (t', rbt_root t'))"
      using 4 F(2) cl cr r by (simp add: rb_delete_black_sibling_right_def Let_def mem_simps flip: colf_def)
    show ?thesis
      using del_case4_right[OF I x w r] unfolding b del_progress_def Let_def
      by (fastforce simp: mem_simps inorder_plug)
  next
    case 3
    then obtain wa l wb where l: "w1 = Node wb l wa" "colf t l = RB_RED" by (cases w1) auto
    let ?t1 = "rb_left_rotate (set_color w RB_RED (set_color l RB_BLACK t)) w"
    note c3 = del_case3_right[OF I[unfolded l(1)] x w l(2) 3(2)]
    have "rright t w = l" using F(1) l by auto
    then have b: "rb_delete_black_sibling_right t x w =
        (let t' = rb_right_rotate (set_color w RB_BLACK (set_color p RB_BLACK (set_color l (colf ?t1 p) ?t1))) p
         in (t', rbt_root t'))"
      using 3 F(2) cl cr l c3(6-8) by (simp add: rb_delete_black_sibling_right_def Let_def mem_simps flip: colf_def)
    show ?thesis
      using del_case4_right[OF c3(1,5,2) refl c3(3)] l unfolding b del_progress_def Let_def
      by (fastforce simp: mem_simps inorder_plug)
  qed
qed

text \<open>One iteration of the loop.\<close>

lemma same_data_steps_left [mem_simps]:
  "same_data (set_color x v t) t' = same_data t t'" "same_data (rb_left_rotate t x) t' = same_data t t'"
  "same_data (rb_right_rotate t x) t' = same_data t t'"
  by (simp_all add: same_data_def mem_simps fun_eq_iff)

lemma del_step_left:
  assumes I: "del_inv t (CL p (Node w1 w w2) # C1) p x X" and x: "colf t x = RB_BLACK"
  shows "del_progress t (Suc (length C1)) (inorder (plug (CL p (Node w1 w w2) # C1) X)) (rb_delete_fixup_body t x)"
proof -
  note F = del_inv_facts[OF I x crumb_sib.simps(1)]
  have ptr: "rleft t p = x" "rright t p = w" using F(1) by auto
  show ?thesis
  proof (cases "colf t w")
    case RB_BLACK
    then have "rb_delete_fixup_body t x = rb_delete_black_sibling_left t x w"
      using ptr F(2) by (simp add: rb_delete_fixup_body_def rb_delete_red_sibling_left_def colf_def)
    with del_black_sibling_left[OF I x RB_BLACK, of "Suc (length C1)"] show ?thesis by simp
  next
    case RB_RED
    let ?t1 = "rb_left_rotate (set_color p RB_RED (set_color w RB_BLACK t)) p"
    note c = del_case1_left[OF I x RB_RED]
    from c(6) obtain wa v wb where v: "w1 = Node wa v wb" "rright ?t1 p = v" by blast
    have b: "rb_delete_fixup_body t x = rb_delete_black_sibling_left ?t1 x v"
      using ptr F(2) RB_RED v c(5)
      by (simp add: rb_delete_fixup_body_def rb_delete_red_sibling_left_def Let_def mem_simps flip: colf_def)
    have "del_progress ?t1 (Suc (length C1)) (inorder (plug (CL p (Node wa v wb) # CL w w2 # C1) X))
        (rb_delete_black_sibling_left ?t1 x v)"
      using c v by (intro del_black_sibling_left) auto
    then show ?thesis unfolding b by (simp add: del_progress_def inorder_plug v mem_simps split: prod.splits)
  qed
qed

lemma del_step_right:
  assumes I: "del_inv t (CR (Node w2 w w1) p # C1) p x X" and x: "colf t x = RB_BLACK"
  shows "del_progress t (Suc (length C1)) (inorder (plug (CR (Node w2 w w1) p # C1) X)) (rb_delete_fixup_body t x)"
proof -
  note F = del_inv_facts[OF I x crumb_sib.simps(2)]
  have ptr: "rright t p = x" "rleft t p = w" using F(1) by auto
  have ne: "x \<noteq> w" using F(1) tree_at_other[of "rbt_mem t" "rbt_nil t" p x X w] by (auto simp: inorder_plug)
  show ?thesis
  proof (cases "colf t w")
    case RB_BLACK
    then have "rb_delete_fixup_body t x = rb_delete_black_sibling_right t x w"
      using ptr F(2) ne by (simp add: rb_delete_fixup_body_def rb_delete_red_sibling_right_def colf_def)
    with del_black_sibling_right[OF I x RB_BLACK, of "Suc (length C1)"] show ?thesis by simp
  next
    case RB_RED
    let ?t1 = "rb_right_rotate (set_color p RB_RED (set_color w RB_BLACK t)) p"
    note c = del_case1_right[OF I x RB_RED]
    from c(6) obtain wa v wb where v: "w1 = Node wb v wa" "rleft ?t1 p = v" by blast
    have b: "rb_delete_fixup_body t x = rb_delete_black_sibling_right ?t1 x v"
      using ptr F(2) RB_RED v c(5) ne
      by (simp add: rb_delete_fixup_body_def rb_delete_red_sibling_right_def Let_def mem_simps flip: colf_def)
    have "del_progress ?t1 (Suc (length C1)) (inorder (plug (CR (Node wb v wa) p # CR w2 w # C1) X))
        (rb_delete_black_sibling_right ?t1 x v)"
      using c v by (intro del_black_sibling_right) auto
    then show ?thesis unfolding b by (simp add: del_progress_def inorder_plug v mem_simps split: prod.splits)
  qed
qed

lemma del_step:
  assumes I: "del_inv t C p x X" and C: "C \<noteq> []" and x: "colf t x = RB_BLACK"
  shows "del_progress t (length C) (inorder (plug C X)) (rb_delete_fixup_body t x)"
proof -
  obtain c1 C1 where C: "C = c1 # C1" using C by (cases C) auto
  from I have bh: "bh (colf t) (crumb_sib c1) = Suc (bh (colf t) X)" and p: "crumb_root c1 = p"
    unfolding C del_inv_def by (cases c1; auto)+
  obtain w1 w w2 where W: "crumb_sib c1 = Node w1 w w2" using bh by (cases "crumb_sib c1") auto
  then have "c1 = CL p (Node w1 w w2) \<or> c1 = CR (Node w1 w w2) p" using p by (cases c1) auto
  then show ?thesis
    using I x del_step_left[of t p w1 w w2 C1 x X] del_step_right[of t w1 w w2 p C1 x X] unfolding C by auto
qed

lemma del_not_root:
  assumes "del_inv t C p x X"
  shows "x = rbt_root t \<longleftrightarrow> C = []"
proof
  assume x: "x = rbt_root t"
  have R: "repr_at t C p x X" using assms unfolding del_inv_def by blast
  then have "tree_at (rbt_mem t) (rbt_nil t) (rbt_nil t) (rbt_root t) (plug C X)"
    unfolding tree_at_plug by blast
  moreover have "C \<noteq> [] \<Longrightarrow> \<exists>l r. plug C X = Node l (crumb_root (last C)) r"
    by (induction C X rule: plug.induct) (auto split: if_splits)
  ultimately have "C \<noteq> [] \<Longrightarrow> x = crumb_root (last C)" using x by auto
  moreover have "C \<noteq> [] \<Longrightarrow> crumb_root (last C) \<noteq> x"
    using R tree_at_root[of "rbt_mem t" "rbt_nil t" p x X] nil_notin_ctx[of "rbt_mem t" "rbt_nil t" "rbt_root t" C x p]
    by (intro last_crumb_ne) (auto simp: inorder_plug)
  ultimately show "C = []" by blast
qed (use assms in \<open>auto simp: del_inv_def\<close>)

text \<open>The loop ends at the root or at a red node; blackening it repairs the tree.\<close>

lemma del_exit:
  assumes I: "del_inv t C p x X" and x: "C = [] \<or> colf t x = RB_RED"
  shows "rb_repr (set_color x RB_BLACK t) (plug C X)"
    and "rootc (colf (set_color x RB_BLACK t)) (plug C X) = RB_BLACK"
proof -
  let ?c = "(colf t)(x := RB_BLACK)"
  from I have R: "repr_at t C p x X" and J: "invc2 (colf t) X" "invh (colf t) X" "hole_c (colf t) C RB_BLACK"
      "hole_h (colf t) C (Suc (bh (colf t) X))" "colf t (rbt_nil t) = RB_BLACK" "rbt_nil t \<noteq> NULL"
      "C \<noteq> [] \<longrightarrow> colf t (crumb_root (last C)) = RB_BLACK"
    unfolding del_inv_def by blast+
  have T: "tree_at (rbt_mem t) (rbt_nil t) (rbt_nil t) (rbt_root t) (plug C X)"
    using R unfolding tree_at_plug by blast
  have "invc ?c (plug C X) \<and> invh ?c (plug C X) \<and> rootc ?c (plug C X) = RB_BLACK"
  proof (cases X)
    case Leaf
    then show ?thesis using x R J by auto
  next
    case (Node l a r)
    then have a: "a = x" and D: "x \<notin> ctx_set C" "x \<notin> set_tree l" "x \<notin> set_tree r"
      using R by (auto simp: inorder_plug)
    have X: "invc ?c X" "invh ?c X" "rootc ?c X = RB_BLACK" using J D Node a by (simp_all)
    have "C \<noteq> [] \<Longrightarrow> bh ?c X = Suc (bh (colf t) X)" using x D Node a by auto
    then have "hole_h ?c C (bh ?c X)" using J(4) D by (cases "C = []") auto
    with X J D last_crumb_ne[of C x] show ?thesis
      by (auto simp: invc_plug invh_plug rootc_plug)
  qed
  with T R J show "rb_repr (set_color x RB_BLACK t) (plug C X)"
    and "rootc (colf (set_color x RB_BLACK t)) (plug C X) = RB_BLACK"
    by (simp_all add: rb_repr_def mem_simps)
qed

lemma rb_delete_fixup_loop_ok:
  assumes "del_inv t C p x X"
  shows "\<exists>t' x' T. rb_delete_fixup_loop t x = Some (t', x') \<and> same_data t t' \<and>
     rb_repr (set_color x' RB_BLACK t') T \<and> rootc (colf (set_color x' RB_BLACK t')) T = RB_BLACK \<and>
     inorder T = inorder (plug C X)"
  using assms
proof (induction "length C" arbitrary: t C p x X rule: less_induct)
  case less
  let ?G = "\<lambda>t0 r xs. \<exists>t' x' T. r = Some (t', x') \<and> same_data t0 t' \<and>
     rb_repr (set_color x' RB_BLACK t') T \<and> rootc (colf (set_color x' RB_BLACK t')) T = RB_BLACK \<and> inorder T = xs"
  have exit: "?G t (rb_delete_fixup_loop t x) (inorder (plug C X))"
    if "del_inv t C p x X" "C = [] \<or> colf t x = RB_RED" for t C p x X
    using del_exit[OF that] that(2) del_not_root[OF that(1)]
    by (subst rb_delete_fixup_loop.simps) (auto simp: colf_def)
  show ?case
  proof (cases "C = [] \<or> colf t x = RB_RED")
    case True
    then show ?thesis using exit[OF less.prems] by blast
  next
    case False
    obtain t' x' where b: "rb_delete_fixup_body t x = (t', x')" by (cases "rb_delete_fixup_body t x")
    have step: "rb_delete_fixup_loop t x = rb_delete_fixup_loop t' x'"
      using False b del_not_root[OF less.prems] by (subst rb_delete_fixup_loop.simps) (auto simp: colf_def)
    from False del_step[OF less.prems] b have P: "del_progress t (length C) (inorder (plug C X)) (t', x')" by auto
    have "?G t' (rb_delete_fixup_loop t' x') (inorder (plug C X))"
      using P unfolding del_progress_def prod.case
    proof (elim conjE disjE exE)
      fix C' p' X' assume "length C' < length C" "del_inv t' C' p' x' X'" "inorder (plug C' X') = inorder (plug C X)"
      with less.hyps[of C' t' p' x' X'] show ?thesis by simp
    next
      fix C' p' X' assume "colf t' x' = RB_RED" "del_inv t' C' p' x' X'" "inorder (plug C' X') = inorder (plug C X)"
      with exit[of t' C' p' x' X'] show ?thesis by simp
    next
      fix T assume T: "rb_repr t' T" "rootc (colf t') T = RB_BLACK" "inorder T = inorder (plug C X)" "x' = rbt_root t'"
      then have "rb_delete_fixup_loop t' x' = Some (t', x')" by (subst rb_delete_fixup_loop.simps) simp
      with blacken_root[OF T(1)] T show ?thesis by auto
    qed
    moreover have "same_data t t'" using P by (simp add: del_progress_def)
    ultimately show ?thesis unfolding step using same_data_trans by blast
  qed
qed

lemma rb_delete_fixup_ok:
  assumes "del_inv t C p x X"
  shows "\<exists>t' T. rb_delete_fixup t x = Some t' \<and> same_data t t' \<and> rb_repr t' T \<and>
     rootc (colf t') T = RB_BLACK \<and> inorder T = inorder (plug C X)"
  using rb_delete_fixup_loop_ok[OF assms]
  by (auto simp: rb_delete_fixup_def mem_simps)

end
