(* ===== verification/Rbtree_Splice.thy ===== *)
theory Rbtree_Splice
  imports Rbtree_Delete
begin

text \<open>
  \<open>rb_delete\<close>: \<open>rb_transplant\<close>, the splice of a node with no, one or two children, and the
  whole operation: a red-black tree without the deleted node, which is freed.
\<close>

section \<open>Deletion: the splice\<close>

lemma rb_transplant_fields [mem_simps]:
  "rparent (rb_transplant t u v) a = (if a = v then rparent t u else rparent t a)"
  "rleft (rb_transplant t u v) a =
     (if a = rparent t u \<and> rparent t u \<noteq> rbt_nil t \<and> rleft t (rparent t u) = u then v else rleft t a)"
  "rright (rb_transplant t u v) a =
     (if a = rparent t u \<and> rparent t u \<noteq> rbt_nil t \<and> rleft t (rparent t u) \<noteq> u then v else rright t a)"
  "rbt_root (rb_transplant t u v) = (if rparent t u = rbt_nil t then v else rbt_root t)"
  by (auto simp: rb_transplant_def Let_def mem_simps)

lemma rb_transplant_frame [mem_simps]:
  "rkey (rb_transplant t u v) a = rkey t a" "rtask (rb_transplant t u v) a = rtask t a"
  "rcolor (rb_transplant t u v) a = rcolor t a"
  "rbt_nil (rb_transplant t u v) = rbt_nil t" "rbt_size (rb_transplant t u v) = rbt_size t"
  "rbt_get_key (rb_transplant t u v) = rbt_get_key t" "rbt_live (rb_transplant t u v) = rbt_live t"
  "colf (rb_transplant t u v) = colf t" "same_data t (rb_transplant t' u v) = same_data t t'"
  by (auto simp: rb_transplant_def Let_def mem_simps colf_def same_data_def fun_eq_iff)

text \<open>Replacing the focus by one of its proper subtrees.\<close>

lemma rb_transplant_repr:
  assumes R: "repr_at t C p u U" and u: "u \<noteq> rbt_nil t"
    and V: "tree_at (rbt_mem t) (rbt_nil t) q v V" "set_tree V \<subseteq> set_tree U" "distinct (inorder V)"
  defines "t' \<equiv> rb_transplant t u v"
  shows "repr_at t' C p v V" and "rparent t' v = p"
proof -
  have D: "distinct (ctx_pre C @ inorder U @ ctx_post C)" using R by (simp add: inorder_plug)
  obtain ul ur where U: "U = Node ul u ur" "rparent t u = p" using R u by (cases U) auto
  show pv: "rparent t' v = p" by (simp add: t'_def mem_simps U)
  have cx: "ctx_at (rbt_mem t) (rbt_nil t) (rbt_root t) C u p" using R by blast
  have nC: "rbt_nil t \<notin> ctx_set C" using nil_notin_ctx[OF cx] by blast
  have pC: "p \<in> ctx_set C \<or> p = rbt_nil t" using ctx_parent_mem[OF cx] by blast
  have vV: "v \<in> set_tree V \<or> v = rbt_nil t" using tree_at_root[OF V(1)] by blast
  have dj: "set_tree V \<inter> ctx_set C = {}" "u \<notin> ctx_set C" "distinct (ctx_pre C @ ctx_post C)"
    "distinct (ctx_pre C @ inorder V @ ctx_post C)"
    using D U V(2,3) by auto
  have nV: "rbt_nil t \<notin> set_tree V" using nil_notin_tree[OF V(1)] by blast
  have "ctx_at (rbt_mem t') (rbt_nil t) (rbt_root t') C v p"
  proof (rule ctx_at_refocus[OF cx dj(3,2) u])
    show "links (rbt_mem t' a) = links (rbt_mem t a)" if "a \<in> ctx_set C" "a \<noteq> p" for a
      using that vV dj(1) nC U by (auto simp: t'_def mem_simps)
    show "links (rbt_mem t' p) = (if rb_left (rbt_mem t p) = u then (rb_parent (rbt_mem t p), v, rb_right (rbt_mem t p))
        else (rb_parent (rbt_mem t p), rb_left (rbt_mem t p), v))" if "p \<noteq> rbt_nil t"
      using that pC vV dj(1) U by (auto simp: t'_def mem_simps links_def)
  qed (simp add: t'_def mem_simps U)
  moreover have "tree_at (rbt_mem t') (rbt_nil t) p v V"
  proof (rule tree_at_reparent[OF V(1,3)])
    show "links (rbt_mem t' v) = (p, rb_left (rbt_mem t v), rb_right (rbt_mem t v))" if "v \<noteq> rbt_nil t"
      using that pC vV dj(1) U by (auto simp: t'_def mem_simps links_def)
    show "links (rbt_mem t' a) = links (rbt_mem t a)" if "a \<in> set_tree V" "a \<noteq> v" for a
      using that pC dj(1) nV U by (auto simp: t'_def mem_simps)
  qed
  ultimately show "repr_at t' C p v V"
    using dj(4) by (simp add: t'_def mem_simps inorder_plug)
qed

text \<open>
  The second half of the splice with two children: \<open>y\<close>, which already owns the right subtree \<open>R\<close>,
  takes the place of \<open>z\<close>.
\<close>

definition splice_tail :: "addr \<Rightarrow> addr \<Rightarrow> 'm rb_tree_t \<Rightarrow> 'm rb_tree_t" where
  "splice_tail z y t =
     (let t = rb_transplant t z y;
          t = set_left y (rleft t z) t;
          t = set_parent (rleft t y) y t
      in set_color y (rcolor t z) t)"

lemma splice_tail_fields:
  assumes "y \<noteq> z" "y \<noteq> rparent t z" "z \<noteq> rparent t z"
  shows "rparent (splice_tail z y t) a = (if a = rleft t z then y else if a = y then rparent t z else rparent t a)"
  "rleft (splice_tail z y t) a = (if a = y then rleft t z else
     if a = rparent t z \<and> rparent t z \<noteq> rbt_nil t \<and> rleft t (rparent t z) = z then y else rleft t a)"
  "rright (splice_tail z y t) a =
     (if a = rparent t z \<and> rparent t z \<noteq> rbt_nil t \<and> rleft t (rparent t z) \<noteq> z then y else rright t a)"
  "rbt_root (splice_tail z y t) = (if rparent t z = rbt_nil t then y else rbt_root t)"
  "colf (splice_tail z y t) = (colf t)(y := colf t z)" "rbt_nil (splice_tail z y t) = rbt_nil t"
  "same_data t0 (splice_tail z y t) = same_data t0 t"
  using assms by (simp_all add: splice_tail_def Let_def mem_simps colf_def)

lemma splice_tail_repr:
  assumes cx: "ctx_at (rbt_mem t) (rbt_nil t) (rbt_root t) C z p" and z: "z \<noteq> rbt_nil t" "rparent t z = p"
    and L: "tree_at (rbt_mem t) (rbt_nil t) z (rleft t z) L" "L \<noteq> Leaf"
    and R: "tree_at (rbt_mem t) (rbt_nil t) y (rright t y) R"
    and y: "y \<noteq> rbt_nil t" "y \<noteq> NULL" "z \<noteq> y" "z \<notin> ctx_set C" "z \<notin> set_tree L" "z \<notin> set_tree R"
    and D: "distinct (ctx_pre C @ inorder L @ y # inorder R @ ctx_post C)"
  defines "t' \<equiv> splice_tail z y t"
  shows "repr_at t' C p y (Node L y R)" and "rparent t' (rbt_nil t) = rparent t (rbt_nil t)"
proof -
  let ?nl = "rbt_nil t"
  have nC: "?nl \<notin> ctx_set C" using nil_notin_ctx[OF cx] by blast
  have pC: "p \<in> ctx_set C \<or> p = ?nl" using ctx_parent_mem[OF cx] by blast
  have l: "rleft t z \<noteq> ?nl" "rleft t z \<in> set_tree L" using L by (cases L; auto)+
  have nL: "?nl \<notin> set_tree L" "?nl \<notin> set_tree R" using nil_notin_tree[OF L(1)] nil_notin_tree[OF R] by blast+
  have dj: "y \<notin> ctx_set C" "y \<notin> set_tree L" "y \<notin> set_tree R" "set_tree L \<inter> ctx_set C = {}"
    "set_tree R \<inter> ctx_set C = {}" "set_tree L \<inter> set_tree R = {}" "distinct (ctx_pre C @ ctx_post C)" "distinct (inorder L)"
    using D by auto
  have ne: "y \<noteq> z" "y \<noteq> rparent t z" "z \<noteq> rparent t z" using z y pC dj(1) by auto
  note F = splice_tail_fields[OF ne, folded t'_def, unfolded z(2)]
  show "rparent t' ?nl = rparent t ?nl" using l y by (simp add: F)
  have U: "links (rbt_mem t' a) = links (rbt_mem t a)" if "a \<noteq> p" "a \<noteq> y" "a \<noteq> rleft t z" for a
    using that by (simp add: F)
  have "ctx_at (rbt_mem t') ?nl (rbt_root t') C y p"
  proof (rule ctx_at_refocus[OF cx dj(7) y(4) z(1)])
    show "links (rbt_mem t' a) = links (rbt_mem t a)" if "a \<in> ctx_set C" "a \<noteq> p" for a
      by (rule U) (use that dj l in auto)
    show "links (rbt_mem t' p) = (if rb_left (rbt_mem t p) = z then (rb_parent (rbt_mem t p), y, rb_right (rbt_mem t p))
        else (rb_parent (rbt_mem t p), rb_left (rbt_mem t p), y))" if "p \<noteq> ?nl"
      using that pC l dj by (auto simp: F links_def)
  qed (simp add: F)
  moreover have "tree_at (rbt_mem t') ?nl y (rleft t z) L"
  proof (rule tree_at_reparent[OF L(1) dj(8)])
    show "links (rbt_mem t' (rleft t z)) = (y, rleft t (rleft t z), rright t (rleft t z))"
      using l pC dj by (auto simp: F links_def)
    show "links (rbt_mem t' a) = links (rbt_mem t a)" if "a \<in> set_tree L" "a \<noteq> rleft t z" for a
      by (rule U) (use that pC dj nL in auto)
  qed
  moreover have "tree_at (rbt_mem t') ?nl y (rright t y) R"
    by (rule tree_at_cong[THEN iffD2, OF _ R], rule U) (use pC dj nL l in auto)
  moreover have "rparent t' y = p" "rleft t' y = rleft t z" "rright t' y = rright t y"
    using l dj pC y by (auto simp: F)
  ultimately show "repr_at t' C p y (Node L y R)"
    using D y by (simp add: F inorder_plug)
qed
text \<open>What the splice hands to the fix-up: a hole that lost a node of colour \<open>col\<close>.\<close>

definition del_start :: "'m rb_tree_t \<Rightarrow> rb_color_t \<Rightarrow> crumb list \<Rightarrow> addr \<Rightarrow> addr \<Rightarrow> addr tree \<Rightarrow> bool" where
  "del_start t col C p x X \<longleftrightarrow>
     repr_at t C p x X \<and> rparent t x = p \<and> colf t (rbt_nil t) = RB_BLACK \<and> rbt_nil t \<noteq> NULL \<and>
     invc (colf t) X \<and> invh (colf t) X \<and> (col = RB_RED \<longrightarrow> rootc (colf t) X = RB_BLACK) \<and>
     hole_h (colf t) C (bh (colf t) X + (if col = RB_BLACK then 1 else 0)) \<and> hole_c (colf t) C col \<and>
     (if C = [] then col = RB_BLACK else colf t (crumb_root (last C)) = RB_BLACK)"

lemma del_start_black: "del_start t RB_BLACK C p x X \<Longrightarrow> del_inv t C p x X"
  unfolding del_start_def del_inv_def by (cases X) auto

lemma del_start_red:
  assumes "del_start t RB_RED C p x X"
  shows "rb_repr t (plug C X)" and "rootc (colf t) (plug C X) = RB_BLACK"
proof -
  have "tree_at (rbt_mem t) (rbt_nil t) (rbt_nil t) (rbt_root t) (plug C X)"
    using assms unfolding tree_at_plug del_start_def by blast
  with assms show "rb_repr t (plug C X)"
    by (auto simp: del_start_def rb_repr_def invc_plug invh_plug hole_c_black)
  show "rootc (colf t) (plug C X) = RB_BLACK"
    using assms by (auto simp: del_start_def rootc_plug split: if_splits)
qed

text \<open>A node with at most one child.\<close>

lemma del_start_one_child:
  assumes ok: "rb_repr t (plug C (Node l z r))" "rootc (colf t) (plug C (Node l z r)) = RB_BLACK"
    and X: "l = Leaf \<and> X = r \<and> x = rright t z \<or> r = Leaf \<and> X = l \<and> x = rleft t z"
  shows "del_start (rb_transplant t z x) (colf t z) C (rparent t z) x X"
proof -
  let ?t = "rb_transplant t z x"
  from ok have T: "tree_at (rbt_mem t) (rbt_nil t) (rbt_nil t) (rbt_root t) (plug C (Node l z r))"
    and d: "distinct (inorder (plug C (Node l z r)))" by (auto simp: rb_repr_def)
  then have R: "repr_at t C (rparent t z) z (Node l z r)" by (auto simp: tree_at_plug)
  have "repr_at ?t C (rparent t z) x X \<and> rparent ?t x = rparent t z"
    using rb_transplant_repr[OF R, of z x X] R X d by (auto simp: inorder_plug)
  moreover have "bh (colf t) X = 0" "invc (colf t) X" "invh (colf t) X" "colf t z = RB_RED \<longrightarrow> rootc (colf t) X = RB_BLACK"
    "hole_h (colf t) C (if colf t z = RB_BLACK then 1 else 0)" "hole_c (colf t) C (colf t z)"
    using ok(1) X by (auto simp: rb_repr_def invc_plug invh_plug)
  moreover have "if C = [] then colf t z = RB_BLACK else colf t (crumb_root (last C)) = RB_BLACK"
    using ok(2) by (simp add: rootc_plug split: if_splits)
  ultimately show ?thesis
    using ok(1) unfolding del_start_def by (auto simp: mem_simps rb_repr_def)
qed

text \<open>A context does not notice that an inner node is replaced by another of its colour.\<close>

lemma hole_rename:
  fixes c :: "addr \<Rightarrow> rb_color_t" and y z :: addr
  assumes "y \<notin> ctx_set A" "y \<notin> set_tree L" "y \<notin> ctx_set C"
  defines "c' \<equiv> c(y := c z)"
  shows "hole_h c' (A @ CR L y # C) n = hole_h c (A @ CR L z # C) n"
    and "hole_c c' (A @ CR L y # C) k = hole_c c (A @ CR L z # C) k"
proof -
  have o: "c' y = c z" "a \<noteq> y \<Longrightarrow> c' a = c a" "y \<notin> set_tree r \<Longrightarrow> bh c' r = bh c r" "y \<notin> set_tree r \<Longrightarrow> invh c' r = invh c r"
    "y \<notin> set_tree r \<Longrightarrow> rootc c' r = rootc c r" "y \<notin> set_tree r \<Longrightarrow> invc c' r = invc c r"
    "hole_h c' C n = hole_h c C n" "hole_c c' C k = hole_c c C k" for r a n k
    using assms(3) by (simp_all add: c'_def)
  show "hole_h c' (A @ CR L y # C) n = hole_h c (A @ CR L z # C) n"
    using assms(1,2)
  proof (induction A arbitrary: n)
    case (Cons a A)
    then show ?case by (cases a) (simp_all add: o)
  qed (simp add: o)
  show "hole_c c' (A @ CR L y # C) k = hole_c c (A @ CR L z # C) k"
    using assms(1,2)
  proof (induction A arbitrary: k)
    case (Cons a A)
    then show ?case by (cases a) (simp_all add: o)
  qed (simp add: o)
qed

lemma plug_ne_leaf: "plug C (Node l x r) \<noteq> Leaf"
  by (induction C "Node l x r" arbitrary: l x r rule: plug.induct) auto

lemma plug_append: "plug (A @ B) X = plug B (plug A X)"
  by (induction A X rule: plug.induct) auto

lemma tree_at_append:
  "(\<exists>a p. tree_at m nl p a X \<and> ctx_at m nl rt (A @ B) a p) \<longleftrightarrow>
   (\<exists>a p. tree_at m nl p a (plug A X) \<and> ctx_at m nl rt B a p)"
proof (induction A X rule: plug.induct)
  case (2 x r C X)
  show ?case by (simp add: "2.IH"[symmetric]) blast
next
  case (3 l x C X)
  show ?case by (simp add: "3.IH"[symmetric]) blast
qed simp

lemma repr_at_zoom_in:
  assumes "repr_at t C p z (Node L z (plug A X))"
  obtains a q where "repr_at t (A @ CR L z # C) q a X"
proof -
  have "\<exists>a q. tree_at (rbt_mem t) (rbt_nil t) q a (plug A X) \<and> ctx_at (rbt_mem t) (rbt_nil t) (rbt_root t) (CR L z # C) a q"
    using assms by auto
  with tree_at_append[of "rbt_mem t" "rbt_nil t" X "rbt_root t" A "CR L z # C"] assms that show thesis
    by (auto simp: plug_append)
qed

lemma repr_at_zoom_out_node:
  assumes "repr_at t (A @ CR L z # C) q a X"
  obtains p where "repr_at t C p z (Node L z (plug A X))"
proof -
  have "\<exists>a q. tree_at (rbt_mem t) (rbt_nil t) q a (plug A X) \<and> ctx_at (rbt_mem t) (rbt_nil t) (rbt_root t) (CR L z # C) a q"
    using assms tree_at_append[of "rbt_mem t" "rbt_nil t" X "rbt_root t" A "CR L z # C"] by blast
  with assms that[of "rparent t z"] show thesis by (auto simp: plug_append)
qed

text \<open>The successor \<open>y\<close> is taken out of the right subtree of \<open>z\<close>, and the rest of that subtree hung below it.\<close>

lemma splice_detach:
  assumes R: "repr_at t C p z (Node L z (plug A (Node Leaf y Y)))" and A: "A \<noteq> []"
  defines "t2 \<equiv> rb_transplant t y (rright t y)"
  defines "t3 \<equiv> set_right y (rright t2 z) t2"
  defines "t4 \<equiv> set_parent (rright t3 y) y t3"
  shows "ctx_at (rbt_mem t4) (rbt_nil t) (rbt_root t4) C z (rparent t4 z)"
    and "tree_at (rbt_mem t4) (rbt_nil t) z (rleft t4 z) L"
    and "tree_at (rbt_mem t4) (rbt_nil t) y (rright t4 y) (plug A Y)"
    and "rright t y = rbt_nil t \<Longrightarrow> rparent t4 (rbt_nil t) = crumb_root (hd A)"
    and "tree_at (rbt_mem t) (rbt_nil t) y (rright t y) Y"
proof -
  obtain q where Ry: "repr_at t (A @ CR L z # C) q y (Node Leaf y Y)"
    using repr_at_zoom_in[OF R] by auto
  have q: "rparent t y = q" "q = crumb_root (hd A)" "q \<noteq> rbt_nil t"
    using Ry A ctx_at_hd[of "rbt_mem t" "rbt_nil t" "rbt_root t" "A @ CR L z # C" y q] by (cases A; auto)+
  show tY: "tree_at (rbt_mem t) (rbt_nil t) y (rright t y) Y" using Ry by auto
  have "repr_at t2 (A @ CR L z # C) q (rright t y) Y"
    unfolding t2_def by (rule rb_transplant_repr[OF Ry _ tY]) (use Ry in \<open>auto simp: inorder_plug\<close>)
  then obtain p' where R2: "repr_at t2 C p' z (Node L z (plug A Y))"
    by (rule repr_at_zoom_out_node)
  have nl: "rbt_nil t2 = rbt_nil t" by (simp add: t2_def mem_simps)
  let ?r = "rright t2 z"
  from R2 have cx: "ctx_at (rbt_mem t2) (rbt_nil t) (rbt_root t2) C z (rparent t2 z)"
    and tL: "tree_at (rbt_mem t2) (rbt_nil t) z (rleft t2 z) L"
    and tR: "tree_at (rbt_mem t2) (rbt_nil t) z ?r (plug A Y)" and dR: "distinct (inorder (plug A Y))"
    by (auto simp: nl inorder_plug)
  have "plug A Y \<noteq> Leaf" using A by (cases A rule: ctx_pre.cases) (auto simp: plug_ne_leaf)
  then have r: "?r \<noteq> rbt_nil t" "?r \<in> set_tree (plug A Y)" using tR by (cases "plug A Y"; auto)+
  have "distinct (ctx_pre C @ inorder L @ z # inorder (plug A (Node Leaf y Y)) @ ctx_post C)"
    using R by (simp add: inorder_plug)
  then have dj: "y \<notin> ctx_set C" "y \<notin> set_tree L" "y \<noteq> z" "y \<notin> set_tree (plug A Y)" "z \<notin> set_tree (plug A Y)"
      "set_tree (plug A Y) \<inter> ctx_set C = {}" "set_tree (plug A Y) \<inter> set_tree L = {}"
    by (auto simp: inorder_plug simp flip: set_inorder)
  have U: "links (rbt_mem t4 a) = links (rbt_mem t2 a)" if "a \<noteq> y" "a \<noteq> ?r" for a
    using that dj by (simp add: t4_def t3_def mem_simps)
  have z4: "rparent t4 z = rparent t2 z" "rleft t4 z = rleft t2 z" "rright t4 y = ?r" "rbt_root t4 = rbt_root t2"
    using U[of z] dj r by (auto simp: t4_def t3_def mem_simps)
  show "ctx_at (rbt_mem t4) (rbt_nil t) (rbt_root t4) C z (rparent t4 z)"
    unfolding z4 by (rule ctx_at_cong[THEN iffD2, OF _ cx], rule U) (use dj r in auto)
  show "tree_at (rbt_mem t4) (rbt_nil t) z (rleft t4 z) L"
    unfolding z4 by (rule tree_at_cong[THEN iffD2, OF _ tL], rule U) (use dj r in auto)
  show "tree_at (rbt_mem t4) (rbt_nil t) y (rright t4 y) (plug A Y)"
    unfolding z4
  proof (rule tree_at_reparent[OF tR dR])
    show "links (rbt_mem t4 ?r) = (y, rleft t2 ?r, rright t2 ?r)"
      using dj r by (auto simp: t4_def t3_def mem_simps links_def)
    show "links (rbt_mem t4 a) = links (rbt_mem t2 a)" if "a \<in> set_tree (plug A Y)" "a \<noteq> ?r" for a
      by (rule U) (use that dj in auto)
  qed
  show "rparent t4 (rbt_nil t) = crumb_root (hd A)" if "rright t y = rbt_nil t"
    using that q r by (simp add: t4_def t3_def t2_def mem_simps)
qed

lemma splice_adjacent:
  assumes R: "repr_at t C p z (Node L z (Node Leaf y Y))"
  defines "t4 \<equiv> set_parent (rright t y) y t"
  shows "ctx_at (rbt_mem t4) (rbt_nil t) (rbt_root t4) C z (rparent t4 z)"
    and "tree_at (rbt_mem t4) (rbt_nil t) z (rleft t4 z) L"
    and "tree_at (rbt_mem t4) (rbt_nil t) y (rright t4 y) Y"
    and "rright t y = rbt_nil t \<Longrightarrow> rparent t4 (rbt_nil t) = y"
    and "tree_at (rbt_mem t) (rbt_nil t) y (rright t y) Y"
proof -
  from R have cx: "ctx_at (rbt_mem t) (rbt_nil t) (rbt_root t) C z (rparent t z)"
    and tL: "tree_at (rbt_mem t) (rbt_nil t) z (rleft t z) L"
    and tY: "tree_at (rbt_mem t) (rbt_nil t) y (rright t y) Y" and z: "z \<noteq> rbt_nil t" by auto
  show "tree_at (rbt_mem t) (rbt_nil t) y (rright t y) Y" by fact
  have x: "rright t y = rbt_nil t \<or> rparent t (rright t y) = y" using tY by (cases Y) auto
  have U: "links (rbt_mem t4 a) = links (rbt_mem t a)" if "a \<noteq> rbt_nil t" for a
    using that x by (auto simp: t4_def mem_simps)
  have z4: "rparent t4 z = rparent t z" "rleft t4 z = rleft t z" "rright t4 y = rright t y" "rbt_root t4 = rbt_root t"
    using U[OF z] by (auto simp: t4_def mem_simps)
  show "ctx_at (rbt_mem t4) (rbt_nil t) (rbt_root t4) C z (rparent t4 z)"
    unfolding z4 by (rule ctx_at_cong[THEN iffD2, OF _ cx], rule U) (use nil_notin_ctx[OF cx] in auto)
  show "tree_at (rbt_mem t4) (rbt_nil t) z (rleft t4 z) L"
    unfolding z4 by (rule tree_at_cong[THEN iffD2, OF _ tL], rule U) (use nil_notin_tree[OF tL] in auto)
  show "tree_at (rbt_mem t4) (rbt_nil t) y (rright t4 y) Y"
    unfolding z4 by (rule tree_at_cong[THEN iffD2, OF _ tY], rule U) (use nil_notin_tree[OF tY] in auto)
  show "rparent t4 (rbt_nil t) = y" if "rright t y = rbt_nil t" using that by (simp add: t4_def mem_simps)
qed

lemma del_start_two_children:
  assumes ok: "rb_repr t (plug C (Node L z (plug A (Node Leaf y Y))))"
      "rootc (colf t) (plug C (Node L z (plug A (Node Leaf y Y)))) = RB_BLACK" and L: "L \<noteq> Leaf"
    and cx: "ctx_at (rbt_mem t4) (rbt_nil t) (rbt_root t4) C z (rparent t4 z)"
    and tL: "tree_at (rbt_mem t4) (rbt_nil t) z (rleft t4 z) L"
    and tR: "tree_at (rbt_mem t4) (rbt_nil t) y (rright t4 y) (plug A Y)"
    and nl4: "rright t y = rbt_nil t \<Longrightarrow> rparent t4 (rbt_nil t) = crumb_root (hd (A @ [CR L y]))"
    and tY: "tree_at (rbt_mem t) (rbt_nil t) y (rright t y) Y"
    and c4: "colf t4 = colf t" "rbt_nil t4 = rbt_nil t"
  shows "del_start (splice_tail z y t4) (colf t y) (A @ CR L y # C) (crumb_root (hd (A @ [CR L y]))) (rright t y) Y"
proof -
  let ?t = "splice_tail z y t4" and ?c = "(colf t)(y := colf t z)" and ?A = "A @ CR L y # C"
  from ok have T: "tree_at (rbt_mem t) (rbt_nil t) (rbt_nil t) (rbt_root t) (plug C (Node L z (plug A (Node Leaf y Y))))"
    and d: "distinct (inorder (plug C (Node L z (plug A (Node Leaf y Y)))))" by (auto simp: rb_repr_def)
  have yn: "y \<noteq> rbt_nil t" "y \<noteq> NULL" "z \<noteq> rbt_nil t"
    using nil_notin_tree[OF T] by (auto simp: inorder_plug simp flip: set_inorder)
  have D: "distinct (ctx_pre C @ inorder L @ y # inorder (plug A Y) @ ctx_post C)"
    and zy: "z \<noteq> y" "z \<notin> ctx_set C" "z \<notin> set_tree L" "z \<notin> set_tree (plug A Y)"
    using d by (auto simp: inorder_plug simp flip: set_inorder)
  have pz: "y \<noteq> rparent t4 z" "z \<noteq> rparent t4 z"
    using ctx_parent_mem[OF cx] yn zy D by auto
  note F = splice_tail_fields[OF zy(1)[symmetric] pz]
  have R: "repr_at ?t C (rparent t4 z) y (Node L y (plug A Y))" "rparent ?t (rbt_nil t) = rparent t4 (rbt_nil t)"
    using splice_tail_repr[of t4 C z "rparent t4 z" L y "plug A Y"] cx tL tR L yn zy D by (simp_all add: c4)
  obtain a q where Ra: "repr_at ?t ?A q a Y" using repr_at_zoom_in[OF R(1)] .
  have a: "a = rright t y" using Ra tY tree_at_unique by (simp add: F c4) blast
  have q: "q = crumb_root (hd (A @ [CR L y]))"
    using Ra ctx_at_hd(2)[of "rbt_mem ?t" "rbt_nil ?t" "rbt_root ?t" ?A a q] by (cases A) auto
  have pa: "rparent ?t a = q"
  proof (cases Y)
    case Leaf
    with tY nl4 R(2) a q show ?thesis by simp
  next
    case Node
    with Ra show ?thesis by auto
  qed
  have inv: "invc (colf t) (plug (A @ CR L z # C) (Node Leaf y Y))" "invh (colf t) (plug (A @ CR L z # C) (Node Leaf y Y))"
    using ok by (simp_all add: rb_repr_def plug_append)
  have y: "y \<notin> ctx_set A" "y \<notin> set_tree L" "y \<notin> ctx_set C" "y \<notin> set_tree Y"
    using D by (auto simp: inorder_plug simp flip: set_inorder)
  have "hole_h ?c ?A (bh ?c Y + (if colf t y = RB_BLACK then 1 else 0))" "hole_c ?c ?A (colf t y)"
    unfolding hole_rename[OF y(1-3)] using inv y by (simp_all add: invc_plug invh_plug)
  moreover have "invc ?c Y" "invh ?c Y" "colf t y = RB_RED \<longrightarrow> rootc ?c Y = RB_BLACK"
    using inv y by (simp_all add: invc_plug invh_plug)
  moreover have "?c (crumb_root (last ?A)) = RB_BLACK"
    using ok(2) y last_crumb_ne[of C y] by (auto simp: rootc_plug split: if_splits)
  ultimately show ?thesis
    using Ra pa ok(1) yn unfolding del_start_def a q by (simp add: F c4 rb_repr_def)
qed

text \<open>The successor of a node with a right child: the leftmost node of the right subtree.\<close>

lemma leftmost_split:
  assumes "R \<noteq> Leaf" and "distinct (inorder R)"
  obtains A Y where "R = plug A (Node Leaf (hd (inorder R)) Y)" and "ctx_pre A = []"
proof -
  let ?y = "hd (inorder R)"
  have "?y \<in> set_tree R" using assms(1) hd_in_set[of "inorder R"] by simp
  then obtain A l r where A: "plug A (Node l ?y r) = R" using plug_split[of ?y R "[]"] by auto
  have "inorder R = (ctx_pre A @ inorder l) @ ?y # (inorder r @ ctx_post A)"
    using arg_cong[OF A, of inorder] by (simp add: inorder_plug)
  then have "ctx_pre A @ inorder l = []"
    using distinct_hd_split assms(2) by metis
  then have "l = Leaf" "ctx_pre A = []" by simp_all
  with A that show thesis by metis
qed

text \<open>The splice, by the number of children of \<open>z\<close>.\<close>

definition splice_result :: "'m rb_tree_t \<Rightarrow> addr \<Rightarrow> addr list \<Rightarrow> bool" where
  "splice_result t z xs \<longleftrightarrow> (\<exists>t1 x col C p X. rb_splice t z = Some (t1, x, col) \<and> same_data t t1 \<and>
     del_start t1 col C p x X \<and> inorder (plug C X) = xs)"

lemma rb_splice_one_child:
  assumes ok: "rb_repr t (plug C (Node l z r))" "rootc (colf t) (plug C (Node l z r)) = RB_BLACK"
    and c: "l = Leaf \<or> r = Leaf"
  shows "splice_result t z (ctx_pre C @ inorder l @ inorder r @ ctx_post C)"
proof -
  have "tree_at (rbt_mem t) (rbt_nil t) (rbt_nil t) (rbt_root t) (plug C (Node l z r))"
    using ok(1) by (simp add: rb_repr_def)
  then have ln: "rleft t z = rbt_nil t \<longleftrightarrow> l = Leaf" and rn: "rright t z = rbt_nil t \<longleftrightarrow> r = Leaf"
    by (cases l; cases r; auto simp: tree_at_plug)+
  from c obtain x X where X: "l = Leaf \<and> X = r \<and> x = rright t z \<or> r = Leaf \<and> l \<noteq> Leaf \<and> X = l \<and> x = rleft t z" by blast
  then have "rb_splice t z = Some (rb_transplant t z x, x, colf t z)"
    using ln rn by (auto simp: rb_splice_def colf_def)
  moreover have "del_start (rb_transplant t z x) (colf t z) C (rparent t z) x X"
    using ok X by (intro del_start_one_child) auto
  ultimately show ?thesis using X unfolding splice_result_def by (fastforce simp: mem_simps inorder_plug)
qed

lemma rb_splice_two_children:
  assumes ok: "rb_repr t (plug C (Node l z r))" "rootc (colf t) (plug C (Node l z r)) = RB_BLACK"
    and c: "l \<noteq> Leaf" "r \<noteq> Leaf"
  shows "splice_result t z (ctx_pre C @ inorder l @ inorder r @ ctx_post C)"
proof -
  have T: "tree_at (rbt_mem t) (rbt_nil t) (rbt_nil t) (rbt_root t) (plug C (Node l z r))"
    and d: "distinct (inorder (plug C (Node l z r)))" using ok(1) by (simp_all add: rb_repr_def)
  then have R: "repr_at t C (rparent t z) z (Node l z r)" by (auto simp: tree_at_plug)
  have ne: "rleft t z \<noteq> rbt_nil t" "rright t z \<noteq> rbt_nil t" using R c by (cases l; cases r; auto)+
  have dr: "distinct (inorder r)" "z \<notin> set_tree r" using d by (auto simp: inorder_plug)
  define y where "y = hd (inorder r)"
  obtain A Y where r: "r = plug A (Node Leaf y Y)" and A: "ctx_pre A = []"
    using leftmost_split[OF c(2) dr(1)] unfolding y_def by blast
  have "tree_at (rbt_mem t) (rbt_nil t) z (rright t z) r" using R by auto
  then have min: "rb_minimum t (rright t z) = Some y" using c(2) unfolding y_def by (intro rb_minimum_at) auto
  have Rr: "repr_at t C (rparent t z) z (Node l z (plug A (Node Leaf y Y)))" using R unfolding r[symmetric] .
  obtain q where Ry: "repr_at t (A @ CR l z # C) q y (Node Leaf y Y)"
    using repr_at_zoom_in[OF Rr] by auto
  have "z \<notin> ctx_set A" using dr(2) by (subst (asm) r) (auto simp: inorder_plug simp flip: set_inorder)
  then have py: "rparent t y = z \<longleftrightarrow> A = []"
    using Ry ctx_at_hd(2)[of "rbt_mem t" "rbt_nil t" "rbt_root t" "A @ CR l z # C" y q] crumb_root_mem[of "hd A" A]
    by (cases A) auto
  let ?t4 = "if A = [] then set_parent (rright t y) y t
             else let t2 = rb_transplant t y (rright t y); t3 = set_right y (rright t2 z) t2 in set_parent (rright t3 y) y t3"
  have sp: "rb_splice t z = Some (splice_tail z y ?t4, rright t y, colf t y)"
    using ne min py by (simp add: rb_splice_def splice_tail_def colf_def Let_def)
  have "ctx_at (rbt_mem ?t4) (rbt_nil t) (rbt_root ?t4) C z (rparent ?t4 z) \<and>
      tree_at (rbt_mem ?t4) (rbt_nil t) z (rleft ?t4 z) l \<and>
      tree_at (rbt_mem ?t4) (rbt_nil t) y (rright ?t4 y) (plug A Y) \<and>
      tree_at (rbt_mem t) (rbt_nil t) y (rright t y) Y \<and>
      (rright t y = rbt_nil t \<longrightarrow> rparent ?t4 (rbt_nil t) = crumb_root (hd (A @ [CR l y])))"
  proof (cases "A = []")
    case True
    have Ra: "repr_at t C (rparent t z) z (Node l z (Node Leaf y Y))" using Rr True by simp
    show ?thesis using splice_adjacent[OF Ra] True by simp
  next
    case False
    then show ?thesis using splice_detach[OF Rr False] unfolding Let_def by simp
  qed
  then have "del_start (splice_tail z y ?t4) (colf t y) (A @ CR l y # C) (crumb_root (hd (A @ [CR l y]))) (rright t y) Y"
    using ok c unfolding r by (intro del_start_two_children) (simp_all add: mem_simps Let_def)
  moreover have "inorder (plug (A @ CR l y # C) Y) = ctx_pre C @ inorder l @ inorder r @ ctx_post C"
    unfolding r by (simp add: inorder_plug plug_append A)
  moreover have "same_data t (splice_tail z y ?t4)" by (simp add: splice_tail_def Let_def mem_simps)
  ultimately show ?thesis using sp unfolding splice_result_def by blast
qed

lemma rb_splice_ok:
  assumes ok: "rb_repr t T" "rootc (colf t) T = RB_BLACK" and z: "z \<in> set_tree T"
  shows "splice_result t z (remove1 z (inorder T))"
proof -
  from plug_split[OF z, of "[]"] obtain C l r where T: "T = plug C (Node l z r)" by auto
  have "distinct (inorder (plug C (Node l z r)))" using ok(1) T by (simp add: rb_repr_def)
  then have "remove1 z (inorder T) = ctx_pre C @ inorder l @ inorder r @ ctx_post C"
    by (auto simp: T inorder_plug remove1_append)
  then show ?thesis
    using rb_splice_one_child[of t C l z r] rb_splice_two_children[of t C l z r] ok T by auto
qed

lemma colf_header: "colf (t\<lparr>rbt_live := V, rbt_size := n\<rparr>) = colf t"
  by (simp add: colf_def fun_eq_iff)

lemma rb_delete_ok:
  assumes ok: "rb_ok t T" and z: "z \<in> set_tree T"
  shows "\<exists>t' T'. rb_delete t z = Some t' \<and> rb_ok t' T' \<and> inorder T' = remove1 z (inorder T) \<and>
     rkey t' = rkey t \<and> rtask t' = rtask t \<and> rbt_live t' = rbt_live t - {z} \<and>
     rbt_size t' = rbt_size t - 1 \<and> rbt_nil t' = rbt_nil t \<and> rbt_get_key t' = rbt_get_key t"
proof -
  have rep: "rb_repr t T" "rootc (colf t) T = RB_BLACK" using ok by (simp_all add: rb_ok_def)
  then obtain t1 x col C p X where s: "rb_splice t z = Some (t1, x, col)" "same_data t t1"
    "del_start t1 col C p x X" "inorder (plug C X) = remove1 z (inorder T)"
    using rb_splice_ok[OF rep z] unfolding splice_result_def by blast
  obtain t2 T' where f: "(if col = RB_BLACK then rb_delete_fixup t1 x else Some t1) = Some t2"
    "same_data t1 t2" "rb_repr t2 T'" "rootc (colf t2) T' = RB_BLACK" "inorder T' = remove1 z (inorder T)"
  proof (cases col)
    case RB_BLACK
    then have "del_inv t1 C p x X" using s(3) del_start_black by blast
    from rb_delete_fixup_ok[OF this] s(4) that RB_BLACK show thesis by auto
  next
    case RB_RED
    with del_start_red[of t1 C p x X] s that[of t1 "plug C X"] show thesis by simp
  qed
  let ?t = "t2\<lparr>rbt_live := rbt_live t2 - {z}, rbt_size := rbt_size t2 - 1\<rparr>"
  have del: "rb_delete t z = Some ?t" using s f by (simp add: rb_delete_def)
  have sd: "same_data t t2" using s(2) f(2) by (rule same_data_trans)
  have key: "rkey t2 = rkey t" using sd by (simp add: same_data_def)
  have io: "length (inorder T) > 0" "z \<in> set (inorder T)" "distinct (inorder T)"
    using z ok by (auto simp: rb_ok_def rb_repr_def) (cases T; simp)+
  have "sorted (map (rkey t) (inorder T'))"
    using ok sd unfolding f(5) rb_ok_def by (simp add: sorted_map_remove1)
  moreover have "size T' = size T - 1" "size T > 0" using io(1,2) by (simp_all add: f(5) length_remove1 flip: length_inorder)
  moreover have "set_tree T' = set_tree T - {z}" using io(3) by (simp add: f(5) flip: set_inorder)
  moreover have "rb_repr ?t T'" using f(3) by (simp add: rb_repr_def colf_header)
  moreover have "z \<noteq> rbt_nil t" using rb_ok_D(5)[OF ok] z by auto
  ultimately have "rb_ok ?t T'"
    using ok f(4) sd key unfolding rb_ok_def by (auto simp: same_data_def colf_header of_nat_diff)
  with del f(5) sd show ?thesis by (auto simp: same_data_def)
qed

end
