(* ===== verification/Rbtree_Spec.thy ===== *)
theory Rbtree_Spec
  imports Rbtree_Splice
begin

text \<open>
  What \<open>rbtree.c\<close> promises. The interface its clients rely on is the locale \<open>stable_queue\<close>: values
  under keys, first come first served among equal keys; the tree is an interpretation of it. The
  properties of the single operations follow, with two defects of the source: \<open>rb_find_task\<close>
  misses tasks of equal key, and \<open>rb_minimum\<close> of an empty tree reads through \<open>NULL\<close>.
\<close>

section \<open>The height of the tree\<close>

lemma bh_size: "invh c T \<Longrightarrow> 2 ^ bh c T \<le> size1 T"
proof (induction T)
  case (Node l x r)
  then have "2 ^ bh c l \<le> size1 l" "2 ^ bh c l \<le> size1 r" by auto
  then show ?case by simp
qed simp

lemma height_bh: "invc c T \<Longrightarrow> invh c T \<Longrightarrow> height T \<le> 2 * bh c T + (if rootc c T = RB_RED then 1 else 0)"
proof (induction T)
  case (Node l x r)
  then have "height l \<le> 2 * bh c l + (if rootc c l = RB_RED then 1 else 0)"
    "height r \<le> 2 * bh c l + (if rootc c r = RB_RED then 1 else 0)" by auto
  with Node.prems show ?case by (auto split: if_splits)
qed simp

section \<open>The interface the scheduler relies on\<close>

text \<open>
  A store of values under keys: \<open>push\<close> puts a value behind every value of smaller or equal key,
  \<open>front\<close> reads the first one. \<open>'a\<close> is the storage a push takes.
\<close>

locale stable_queue =
  fixes rep :: "'s \<Rightarrow> ('k::linorder \<times> 'v) list \<Rightarrow> bool"
    and fresh :: "'a \<Rightarrow> 's \<Rightarrow> bool"
    and key :: "'v \<Rightarrow> 'k"
    and push :: "'v \<Rightarrow> 'a \<Rightarrow> 's \<Rightarrow> 's option"
    and front :: "'s \<Rightarrow> 'v option"
  assumes push: "rep s xs \<Longrightarrow> fresh a s \<Longrightarrow>
      \<exists>s'. push v a s = Some s' \<and> (\<forall>b. fresh b s' \<longleftrightarrow> fresh b s \<and> b \<noteq> a) \<and>
        rep s' (takeWhile (\<lambda>x. fst x \<le> key v) xs @ (key v, v) # dropWhile (\<lambda>x. fst x \<le> key v) xs)"
    and front: "rep s (x # xs) \<Longrightarrow> front s = Some (snd x)"
begin

abbreviation keyed :: "'v list \<Rightarrow> ('k \<times> 'v) list" where
  "keyed vs \<equiv> map (\<lambda>v. (key v, v)) vs"

lemma push_sorted:
  assumes "rep s (keyed (sort_key key us))" and "fresh a s"
  shows "\<exists>s'. push v a s = Some s' \<and> (\<forall>b. fresh b s' \<longleftrightarrow> fresh b s \<and> b \<noteq> a) \<and>
     rep s' (keyed (sort_key key (us @ [v])))"
  using push[OF assms, of v] by (simp add: sort_key_snoc takeWhile_map dropWhile_map o_def)

lemma push_all_sorted:
  assumes "rep s (keyed (sort_key key us))" and "distinct (map snd vas)"
    and "\<forall>a \<in> set (map snd vas). fresh a s"
  shows "\<exists>s'. fold (\<lambda>(v, a) r. Option.bind r (push v a)) vas (Some s) = Some s' \<and>
     rep s' (keyed (sort_key key (us @ map fst vas)))"
  using assms
proof (induction vas arbitrary: s us)
  case (Cons va vas)
  obtain v a where va: "va = (v, a)" by fastforce
  with Cons.prems push_sorted[of s us a v] obtain s1 where s1: "push v a s = Some s1"
    "\<forall>b. fresh b s1 \<longleftrightarrow> fresh b s \<and> b \<noteq> a" "rep s1 (keyed (sort_key key (us @ [v])))" by auto
  have "\<exists>s'. fold (\<lambda>(v, a) r. Option.bind r (push v a)) vas (Some s1) = Some s' \<and>
     rep s' (keyed (sort_key key ((us @ [v]) @ map fst vas)))"
    by (rule Cons.IH) (use Cons.prems va s1 in auto)
  with s1 va show ?case by simp
qed simp

lemma front_after_push_all:
  assumes "rep s (keyed (sort_key key us))" and "us \<noteq> []"
  shows "front s = Some (hd (sort_key key us))"
proof -
  have "sort_key key us \<noteq> []" using assms(2) by (metis length_0_conv length_sort)
  with front[of s] assms(1) show ?thesis by (cases "sort_key key us") auto
qed

end

text \<open>The red-black tree of the source provides it.\<close>

definition rb_rep :: "('m \<Rightarrow> addr \<Rightarrow> u32) \<Rightarrow> 'm rb_tree_t \<Rightarrow> (u32 \<times> addr) list \<Rightarrow> bool" where
  "rb_rep gk t xs \<longleftrightarrow> rbt_get_key t = gk \<and>
     (\<exists>T. rb_ok t T \<and> xs = map (\<lambda>a. (rkey t a, rtask t a)) (inorder T))"

definition rb_fresh :: "addr \<Rightarrow> 'm rb_tree_t \<Rightarrow> bool" where
  "rb_fresh z t \<longleftrightarrow> z \<noteq> NULL \<and> z \<notin> rbt_live t"

definition rb_front :: "'m rb_tree_t \<Rightarrow> addr option" where
  "rb_front t = map_option (rtask t) (rb_minimum t (rbt_root t))"

definition rb_insert_all :: "'m \<Rightarrow> (addr \<times> addr) list \<Rightarrow> 'm rb_tree_t \<Rightarrow> 'm rb_tree_t option" where
  "rb_insert_all m tzs t = fold (\<lambda>(task, z) r. Option.bind r (\<lambda>t. rb_insert m t task z)) tzs (Some t)"

interpretation rbq: stable_queue "rb_rep gk" rb_fresh "gk m" "\<lambda>task z t. rb_insert m t task z" rb_front
  for gk :: "'m \<Rightarrow> addr \<Rightarrow> u32" and m :: 'm
proof unfold_locales
  fix s :: "'m rb_tree_t" and xs a v
  assume rep: "rb_rep gk s xs" and fr: "rb_fresh a s"
  then obtain T where ok: "rb_ok s T" and xs: "xs = map (\<lambda>a. (rkey s a, rtask s a)) (inorder T)" and gk: "rbt_get_key s = gk"
    by (auto simp: rb_rep_def)
  let ?k = "gk m v"
  from rb_insert_ok[OF ok, of a m v] fr gk obtain t' T' where
    t': "rb_insert m s v a = Some t'" "rb_ok t' T'" "rbt_live t' = insert a (rbt_live s)" "rbt_get_key t' = gk"
    and io: "inorder T' = takeWhile (\<lambda>a. rkey s a \<le> ?k) (inorder T) @ a # dropWhile (\<lambda>a. rkey s a \<le> ?k) (inorder T)"
    and new: "rtask t' a = v" "rkey t' a = ?k"
    and old: "\<forall>a \<in> set_tree T. rtask t' a = rtask s a \<and> rkey t' a = rkey s a"
    by (auto simp: rb_fresh_def)
  have "map (\<lambda>a. (rkey t' a, rtask t' a)) (inorder T') =
      takeWhile (\<lambda>x. fst x \<le> ?k) xs @ (?k, v) # dropWhile (\<lambda>x. fst x \<le> ?k) xs"
    using old new by (auto simp: io xs takeWhile_map dropWhile_map o_def dest!: set_takeWhileD set_dropWhileD)
  with t' fr show "\<exists>s'. rb_insert m s v a = Some s' \<and> (\<forall>b. rb_fresh b s' \<longleftrightarrow> rb_fresh b s \<and> b \<noteq> a) \<and>
      rb_rep gk s' (takeWhile (\<lambda>x. fst x \<le> gk m v) xs @ (gk m v, v) # dropWhile (\<lambda>x. fst x \<le> gk m v) xs)"
    unfolding rb_rep_def rb_fresh_def by (intro exI[of _ t']) (auto intro!: exI[of _ T'])
next
  fix s :: "'m rb_tree_t" and x xs
  assume "rb_rep gk s (x # xs)"
  then obtain T where ok: "rb_ok s T" and xs: "x # xs = map (\<lambda>a. (rkey s a, rtask s a)) (inorder T)"
    by (auto simp: rb_rep_def)
  then have "T \<noteq> Leaf" "rtask s (hd (inorder T)) = snd x" by (cases "inorder T"; auto)+
  with rb_minimum_at[OF rb_ok_D(1)[OF ok]] show "rb_front s = Some (snd x)" by (simp add: rb_front_def)
qed

section \<open>Concrete trees\<close>

text \<open>A well-formed tree of three nodes, and the key function that reads a task's key from its address.\<close>

definition ex_node :: "addr \<Rightarrow> addr \<Rightarrow> addr \<Rightarrow> rb_color_t \<Rightarrow> addr \<Rightarrow> u32 \<Rightarrow> rb_node_t" where
  "ex_node p l r c task k =
     \<lparr>rb_parent = p, rb_left = l, rb_right = r, rb_color = c, rb_task = task, rb_key = k\<rparr>"

definition ex_tree :: "unit rb_tree_t" where
  "ex_tree = \<lparr>rbt_root = 2, rbt_nil = 1, rbt_size = 3, rbt_get_key = (\<lambda>_ task. of_nat task),
     rbt_mem = (\<lambda>_. ex_node 0 0 0 RB_BLACK 0 0)
       (2 := ex_node 1 3 4 RB_BLACK 20 20, 3 := ex_node 2 1 1 RB_RED 10 10, 4 := ex_node 2 1 1 RB_RED 30 30),
     rbt_live = {1, 2, 3, 4}\<rparr>"

abbreviation ex_shape :: "addr tree" where
  "ex_shape \<equiv> Node (Node Leaf 3 Leaf) 2 (Node Leaf 4 Leaf)"

lemma ex_tree_ok: "rb_ok ex_tree ex_shape"
  by (auto simp: rb_ok_def rb_repr_def ex_tree_def ex_node_def colf_def)

lemma bh_zero_size: "bh c s = 0 \<Longrightarrow> invc c s \<Longrightarrow> invh c s \<Longrightarrow> size s \<le> 1"
proof (cases s)
  case (Node l x r)
  assume *: "bh c s = 0" "invc c s" "invh c s"
  have leaf: "w = Leaf" if "bh c w = 0" "rootc c w = RB_BLACK" for w using that by (cases w) auto
  from * Node have "c x = RB_RED" "bh c l = 0" "bh c r = 0" by (auto split: if_splits)
  with * Node leaf[of l] leaf[of r] show ?thesis by simp
qed simp

lemma rb_shape_three:
  assumes "rb_repr t T" and "inorder T = [a, b, c]"
  shows "T = Node (Node Leaf a Leaf) b (Node Leaf c Leaf)"
proof -
  obtain l x r where T: "T = Node l x r" using assms(2) by (cases T) auto
  have sz: "size l + size r = 2" using arg_cong[OF assms(2), of length] by (simp add: T)
  have inv: "bh (colf t) l = bh (colf t) r" "invc (colf t) l" "invc (colf t) r" "invh (colf t) l" "invh (colf t) r"
    using assms(1) T by (auto simp: rb_repr_def)
  have "size l = 0 \<Longrightarrow> size r \<le> 1" "size r = 0 \<Longrightarrow> size l \<le> 1"
    using inv bh_zero_size[of "colf t" l] bh_zero_size[of "colf t" r] by auto
  with sz have "size l = 1" "size r = 1" by linarith+
  then obtain y z where "l = Node Leaf y Leaf" "r = Node Leaf z Leaf" by (cases l; cases r) auto
  with assms(2) T show ?thesis by simp
qed

lemma rb_insert_all_rep:
  assumes "rb_init junk nl gk = Some t0" and "distinct (map snd tzs)" and "\<forall>z \<in> set (map snd tzs). z \<noteq> NULL \<and> z \<noteq> nl"
  shows "\<exists>t. rb_insert_all m tzs t0 = Some t \<and>
     rb_rep gk t (map (\<lambda>v. (gk m v, v)) (sort_key (gk m) (map fst tzs)))"
proof -
  have nl: "nl \<noteq> NULL" using assms(1) by (auto simp: rb_init_def split: if_splits)
  have t0: "rb_ok t0 Leaf" "rbt_get_key t0 = gk" "rbt_live t0 = {nl}"
    using rb_init_ok[OF nl, of junk gk] assms(1) by (auto simp: rb_init_def nl)
  then have "rb_rep gk t0 (map (\<lambda>v. (gk m v, v)) (sort_key (gk m) []))" by (auto simp: rb_rep_def)
  from rbq.push_all_sorted[OF this assms(2)] assms(3) t0(3) show ?thesis
    by (auto simp: rb_insert_all_def rb_fresh_def)
qed

section \<open>Properties\<close>

text \<open>C1: Inserting a task into a well-formed tree ends (descent and fix-up loop), keeps every
  red-black, ordering, parent-pointer, size and allocation invariant, and puts the new node behind
  all nodes of smaller or equal key; no other node's task or key changes.\<close>

theorem rb_insert_correct:
  assumes "rb_ok t T" and "z \<noteq> NULL" and "z \<notin> rbt_live t"
  shows "\<exists>t' T'. rb_insert m t task z = Some t' \<and> rb_ok t' T' \<and>
     inorder T' = takeWhile (\<lambda>a. rkey t a \<le> rbt_get_key t m task) (inorder T) @ z #
                  dropWhile (\<lambda>a. rkey t a \<le> rbt_get_key t m task) (inorder T) \<and>
     rtask t' z = task \<and> rkey t' z = rbt_get_key t m task \<and>
     (\<forall>a \<in> set_tree T. rtask t' a = rtask t a \<and> rkey t' a = rkey t a) \<and>
     rb_size t' = rb_size t + 1 \<and> rbt_live t' = insert z (rbt_live t)"
  using rb_insert_ok[OF assms, of m task] by (auto simp: rb_size_def)

theorem rb_insert_correct_witness:
  "\<exists>t' T'. rb_insert () ex_tree 20 5 = Some t' \<and> rb_ok t' T' \<and> inorder T' = [3, 2, 5, 4]"
proof -
  have "(5::addr) \<notin> rbt_live ex_tree" by (simp add: ex_tree_def)
  from rb_insert_correct[OF ex_tree_ok _ this, of "()" 20] show ?thesis
    by (auto simp: ex_tree_def ex_node_def)
qed

text \<open>C2: Deleting a node of a well-formed tree ends, frees exactly that node and leaves a well-formed
  tree whose in-order list is the old one without it.\<close>

theorem rb_delete_correct:
  assumes "rb_ok t T" and "z \<in> set_tree T"
  shows "\<exists>t' T'. rb_delete t z = Some t' \<and> rb_ok t' T' \<and> inorder T' = remove1 z (inorder T) \<and>
     (\<forall>a. rkey t' a = rkey t a \<and> rtask t' a = rtask t a) \<and>
     rbt_live t' = rbt_live t - {z} \<and> rb_size t' = rb_size t - 1"
  using rb_delete_ok[OF assms] by (auto simp: rb_size_def fun_eq_iff)

theorem rb_delete_correct_witness:
  "\<exists>t' T'. rb_delete ex_tree 2 = Some t' \<and> rb_ok t' T' \<and> inorder T' = [3, 4] \<and> rbt_live t' = rbt_live ex_tree - {2}"
  using rb_delete_correct[OF ex_tree_ok, of 2] by auto

text \<open>C10: Inserting any sequence of tasks into a fresh tree yields the stable sort of the tasks by key,
  and the leftmost node then holds the task of least key that was inserted first.\<close>

theorem rb_insert_all_sorts:
  assumes "rb_init junk nl gk = Some t0" and "distinct (map snd tzs)" and "\<forall>z \<in> set (map snd tzs). z \<noteq> NULL \<and> z \<noteq> nl"
  shows "\<exists>t T. rb_insert_all m tzs t0 = Some t \<and> rb_ok t T \<and>
     map (rtask t) (inorder T) = sort_key (gk m) (map fst tzs) \<and>
     (tzs \<noteq> [] \<longrightarrow> rb_front t = Some (hd (sort_key (gk m) (map fst tzs))))"
proof -
  obtain t where t: "rb_insert_all m tzs t0 = Some t" and
    r: "rb_rep gk t (map (\<lambda>v. (gk m v, v)) (sort_key (gk m) (map fst tzs)))"
    using rb_insert_all_rep[OF assms] by blast
  from r obtain T where T: "rb_ok t T"
    "map (\<lambda>a. (rkey t a, rtask t a)) (inorder T) = map (\<lambda>v. (gk m v, v)) (sort_key (gk m) (map fst tzs))"
    by (auto simp: rb_rep_def)
  from arg_cong[OF T(2), of "map snd"] have "map (rtask t) (inorder T) = sort_key (gk m) (map fst tzs)" by (simp add: o_def)
  moreover have "tzs \<noteq> [] \<longrightarrow> rb_front t = Some (hd (sort_key (gk m) (map fst tzs)))"
    using rbq.front_after_push_all[OF r] by auto
  ultimately show ?thesis using t T(1) by blast
qed

theorem rb_insert_all_sorts_witness:
  "\<exists>t0 t. rb_init (\<lambda>_. ex_node 0 0 0 RB_BLACK 0 0) 1 (\<lambda>_ task. of_nat task) = Some t0 \<and>
     rb_insert_all () [(30, 2), (10, 3), (20, 4)] t0 = Some t \<and> rb_front t = Some 10"
proof -
  obtain t0 :: "unit rb_tree_t" where
    t0: "rb_init (\<lambda>_. ex_node 0 0 0 RB_BLACK 0 0) 1 (\<lambda>_ task. of_nat task) = Some t0"
    by (simp add: rb_init_def)
  from rb_insert_all_sorts[OF this, of "[(30, 2), (10, 3), (20, 4)]" "()"] show ?thesis
    using t0 by auto
qed

text \<open>\<open>rb_search\<close> ends and returns a node of the key if one is in the tree, else \<open>NULL\<close>.\<close>

theorem rb_search_correct:
  assumes "rb_ok t T"
  shows "\<exists>x. rb_search t k = Some x \<and>
     (if \<exists>b \<in> set_tree T. rkey t b = k then x \<in> set_tree T \<and> rkey t x = k else x = NULL)"
  using assms by (rule rb_search_ok)

theorem rb_search_correct_witness:
  "rb_search ex_tree 30 = Some 4 \<and> rb_search ex_tree 40 = Some NULL"
proof -
  have "\<exists>x. rb_search ex_tree 30 = Some x \<and> x \<in> set_tree ex_shape \<and> rkey ex_tree x = 30"
    using rb_search_correct[OF ex_tree_ok, of 30] by (auto simp: ex_tree_def ex_node_def split: if_splits)
  moreover have "rb_search ex_tree 40 = Some NULL"
    using rb_search_correct[OF ex_tree_ok, of 40] by (auto simp: ex_tree_def ex_node_def split: if_splits)
  ultimately show ?thesis by (auto simp: ex_tree_def ex_node_def)
qed

text \<open>\<open>rb_successor\<close> and \<open>rb_predecessor\<close> step along the in-order list, and return the sentinel at
  its ends.\<close>

theorem rb_successor_predecessor_correct:
  assumes "rb_ok t T" and "inorder T = xs @ x # ys"
  shows "rb_successor t x = Some (hd (ys @ [rbt_nil t])) \<and> rb_predecessor t x = Some (last (rbt_nil t # xs))"
  using rb_successor_ok[OF assms] rb_predecessor_ok[OF assms] by simp

theorem rb_successor_predecessor_correct_witness:
  "rb_successor ex_tree 3 = Some 2 \<and> rb_predecessor ex_tree 3 = Some (rbt_nil ex_tree)"
  using rb_successor_predecessor_correct[OF ex_tree_ok, of "[]" 3 "[2, 4]"] by simp

text \<open>A well-formed tree of n nodes has height at most twice the binary logarithm of n + 1 (and a
  remainder below one level), the bound on every descent of the operations.\<close>

theorem rb_height_logarithmic:
  assumes "rb_ok t T"
  shows "2 ^ (height T div 2) \<le> size T + 1"
proof -
  from assms have i: "invc (colf t) T" "invh (colf t) T" "rootc (colf t) T = RB_BLACK" by (auto simp: rb_ok_def rb_repr_def)
  then have "height T div 2 \<le> bh (colf t) T" using height_bh[OF i(1,2)] by simp
  then have "(2::nat) ^ (height T div 2) \<le> 2 ^ bh (colf t) T" by (intro power_increasing) auto
  also have "\<dots> \<le> size1 T" using bh_size[OF i(2)] .
  finally show ?thesis by (simp add: size1_size)
qed

theorem rb_height_logarithmic_witness:
  "2 ^ (height ex_shape div 2) \<le> size ex_shape + 1"
  using rb_height_logarithmic[OF ex_tree_ok] .

text \<open>The search of \<open>rb_find_task\<close> goes right on equal keys, but the fix-up may have moved an equal
  key to the left: of three tasks of one key, the first one inserted is in the tree and is not found.\<close>

theorem rb_find_task_misses_equal_keys:
  assumes "rb_init junk nl (\<lambda>_ _. k) = Some t0" and "distinct [z1, z2, z3]"
    and "\<forall>z \<in> {z1, z2, z3}. z \<noteq> NULL \<and> z \<noteq> nl" and "distinct [a, b, c]"
  shows "\<exists>t. rb_insert_all m [(a, z1), (b, z2), (c, z3)] t0 = Some t \<and>
     (\<exists>n \<in> rbt_live t. rtask t n = a) \<and> rb_find_task m t a = Some NULL"
proof -
  obtain t where t: "rb_insert_all m [(a, z1), (b, z2), (c, z3)] t0 = Some t"
    and r: "rb_rep (\<lambda>_ _. k) t [(k, a), (k, b), (k, c)]"
    using rb_insert_all_rep[OF assms(1), of "[(a, z1), (b, z2), (c, z3)]" m] assms(2,3) by auto
  from r obtain T x y w where T: "rb_ok t T" "rbt_get_key t = (\<lambda>_ _. k)" and io: "inorder T = [x, y, w]"
    and d: "rtask t x = a" "rtask t y = b" "rtask t w = c" "rkey t y = k" "rkey t w = k"
    by (auto simp: rb_rep_def Cons_eq_map_conv)
  from T have shape: "T = Node (Node Leaf x Leaf) y (Node Leaf w Leaf)"
    using rb_shape_three[of t, OF _ io] by (simp add: rb_ok_def)
  have ptr: "rbt_root t = y" "rright t y = w" "rright t w = rbt_nil t" "y \<noteq> rbt_nil t" "w \<noteq> rbt_nil t"
    using rb_ok_D(1)[OF T(1)] shape by auto
  have "rb_find_task m t a = Some NULL"
    using assms(4) ptr d by (simp add: rb_find_task_def T(2) rb_find_task_loop.simps)
  moreover have "x \<in> rbt_live t" using T(1) shape by (simp add: rb_ok_def)
  ultimately show ?thesis using t d by auto
qed

theorem rb_find_task_misses_equal_keys_witness:
  "\<exists>t0 t. rb_init (\<lambda>_. ex_node 0 0 0 RB_BLACK 0 0) 1 (\<lambda>_ _. 0) = Some t0 \<and>
     rb_insert_all () [(10, 2), (20, 3), (30, 4)] t0 = Some t \<and> rb_find_task () t 10 = Some NULL"
proof -
  obtain t0 :: "unit rb_tree_t" where t0: "rb_init (\<lambda>_. ex_node 0 0 0 RB_BLACK 0 0) 1 (\<lambda>_ _. 0) = Some t0"
    by (simp add: rb_init_def)
  from rb_find_task_misses_equal_keys[OF this, of 2 3 4 10 20 30 "()"] show ?thesis
    using t0 by auto
qed

text \<open>\<open>rb_minimum\<close> of an empty tree does not return the sentinel: the sentinel's left child is
  \<open>NULL\<close>, not the sentinel, so the descent continues through \<open>NULL\<close> (undefined behaviour).\<close>

theorem rb_minimum_of_empty_tree:
  assumes "rb_init junk nl key = Some t"
  shows "rb_is_empty t \<and> rb_minimum t (rbt_root t) = None"
proof -
  from assms have t: "rbt_root t = nl" "rbt_nil t = nl" "nl \<noteq> NULL" "rleft t nl = NULL"
    by (auto simp: rb_init_def split: if_splits)
  have "rb_minimum t NULL = None" by (subst rb_minimum.simps) simp
  with t show ?thesis by (simp add: rb_is_empty_def, subst rb_minimum.simps) simp
qed

theorem rb_minimum_of_empty_tree_witness:
  "\<exists>t :: unit rb_tree_t. rb_init (\<lambda>_. ex_node 0 0 0 RB_BLACK 0 0) 1 (\<lambda>_ _. 0) = Some t \<and>
     rb_minimum t (rbt_root t) = None"
proof -
  obtain t :: "unit rb_tree_t" where t: "rb_init (\<lambda>_. ex_node 0 0 0 RB_BLACK 0 0) 1 (\<lambda>_ _. 0) = Some t"
    by (simp add: rb_init_def)
  from rb_minimum_of_empty_tree[OF this] t show ?thesis by blast
qed

end
