(* ===== verification/Hashtable.thy ===== *)
theory Hashtable
  imports Prelude
begin

text \<open>
  Model of \<open>mini_rtos/src/hashtable.c\<close>: open addressing with linear probing and tombstones, and a
  table that is rebuilt at a prime size when its load leaves the interval between 1/4 and 3/4.

  A key buffer is its list of bytes, so that \<open>key_size\<close> is its length; the table owns copies of keys
  and values, so an entry holds them by value (\<open>None\<close> is a value pointer that is \<open>NULL\<close>). \<open>size_t\<close> is
  \<open>nat\<close>: every size counts entries of an array in memory. The comparisons of the load factor are the
  exact ones, \<open>4 * count\<close> against \<open>3 * size\<close> and against \<open>size\<close>: the rounding of the source's
  \<open>float\<close> division cannot change them for tables of fewer than 2 to the 23 entries.

  \<open>ok n\<close> says whether the \<open>n\<close>-th call of \<open>malloc\<close> or \<open>calloc\<close> succeeds; the table counts the calls.
\<close>

section \<open>Data\<close>

datatype entry_flags = ENTRY_EMPTY | ENTRY_OCCUPIED | ENTRY_DELETED

record hash_entry_t =
  he_key :: "u8 list"
  he_value :: "u8 list option"
  he_flags :: entry_flags

record hashtable_t =
  ht_entries :: "hash_entry_t list"
  ht_size :: nat
  ht_cnt :: nat
  ht_hash_func :: "u8 list \<Rightarrow> u32"
  ht_comp_func :: "u8 list \<Rightarrow> u8 list \<Rightarrow> bool"
  ht_allocs :: nat

definition DEFAULT_HASH_SIZE :: nat where "DEFAULT_HASH_SIZE = 256"

definition empty_entry :: hash_entry_t where
  "empty_entry = \<lparr>he_key = [], he_value = None, he_flags = ENTRY_EMPTY\<rparr>"

section \<open>Helper functions\<close>

function is_prime_loop :: "nat \<Rightarrow> nat \<Rightarrow> bool" where
  "is_prime_loop n i =
     (if i * i \<le> n then
        if n mod i = 0 \<or> n mod (i + 2) = 0 then False else is_prime_loop n (i + 6)
      else True)"
  by pat_completeness auto
termination
proof (relation "measure (\<lambda>(n, i). n + 1 - i)")
  fix n i :: nat
  assume "i * i \<le> n"
  then have "i \<le> n" using le_square le_trans by blast
  then show "((n, i + 6), n, i) \<in> measure (\<lambda>(n, i). n + 1 - i)" by simp
qed simp

declare is_prime_loop.simps [simp del]

definition is_prime :: "nat \<Rightarrow> bool" where
  "is_prime n =
     (if n \<le> 1 then False
      else if n \<le> 3 then True
      else if n mod 2 = 0 \<or> n mod 3 = 0 then False
      else is_prime_loop n 5)"

partial_function (option) next_prime_loop :: "nat \<Rightarrow> nat option" where
  "next_prime_loop prime =
     (let prime = prime + 1 in if is_prime prime then Some prime else next_prime_loop prime)"

definition next_prime :: "nat \<Rightarrow> nat option" where
  "next_prime n = (if n \<le> 1 then Some 2 else next_prime_loop n)"

section \<open>Hash and compare functions\<close>

abbreviation FNV_PRIME :: u32 where "FNV_PRIME \<equiv> 16777619"
abbreviation FNV_OFFSET_BASIS :: u32 where "FNV_OFFSET_BASIS \<equiv> 2166136261"

definition fnv_step :: "u32 \<Rightarrow> u8 \<Rightarrow> u32" where
  "fnv_step hash b = (hash XOR ucast b) * FNV_PRIME"

text \<open>
  \<open>ht_hash_string\<close> reads up to the first zero byte and ignores \<open>key_size\<close>; a buffer without one is
  read past its end (undefined: \<open>None\<close>).
\<close>

fun ht_hash_string_loop :: "u32 \<Rightarrow> u8 list \<Rightarrow> u32 option" where
  "ht_hash_string_loop hash [] = None"
| "ht_hash_string_loop hash (b # bs) =
     (if b = 0 then Some hash else ht_hash_string_loop (fnv_step hash b) bs)"

definition ht_hash_string :: "u8 list \<Rightarrow> u32 option" where
  "ht_hash_string key = ht_hash_string_loop FNV_OFFSET_BASIS key"

definition ht_hash_int :: "u32 \<Rightarrow> u32" where
  "ht_hash_int k =
     (let k = k XOR drop_bit 16 k;
          k = k * 0x85ebca6b;
          k = k XOR drop_bit 13 k;
          k = k * 0xc2b2ae35
      in k XOR drop_bit 16 k)"

definition ht_hash_bytes :: "u8 list \<Rightarrow> u32" where
  "ht_hash_bytes key = foldl fnv_step FNV_OFFSET_BASIS key"

text \<open>\<open>strcmp\<close> of two buffers, \<open>None\<close> when it reads past the end of one of them.\<close>

fun ht_compare_string :: "u8 list \<Rightarrow> u8 list \<Rightarrow> bool option" where
  "ht_compare_string (a # as) (b # bs) =
     (if a \<noteq> b then Some False else if a = 0 then Some True else ht_compare_string as bs)"
| "ht_compare_string _ _ = None"

definition ht_compare_int :: "u32 \<Rightarrow> u32 \<Rightarrow> bool" where
  "ht_compare_int k1 k2 \<longleftrightarrow> k1 = k2"

definition ht_compare_bytes :: "u8 list \<Rightarrow> u8 list \<Rightarrow> bool" where
  "ht_compare_bytes k1 k2 \<longleftrightarrow> k1 = k2"

section \<open>Creation and destruction\<close>

text \<open>A function pointer that is \<open>NULL\<close> is \<open>None\<close>. The first two allocations are the table and the array.\<close>

definition ht_create :: "(nat \<Rightarrow> bool) \<Rightarrow> nat \<Rightarrow> (u8 list \<Rightarrow> u32) option \<Rightarrow>
    (u8 list \<Rightarrow> u8 list \<Rightarrow> bool) option \<Rightarrow> hashtable_t option" where
  "ht_create ok initial_size hash_func comp_func =
     (if \<not> ok 0 then None
      else Option.bind (next_prime (if initial_size \<noteq> 0 then initial_size else DEFAULT_HASH_SIZE))
        (\<lambda>initial_size.
           if \<not> ok 1 then None
           else Some \<lparr>ht_entries = replicate initial_size empty_entry, ht_size = initial_size, ht_cnt = 0,
                      ht_hash_func = (case hash_func of Some f \<Rightarrow> f | None \<Rightarrow> ht_hash_bytes),
                      ht_comp_func = (case comp_func of Some f \<Rightarrow> f | None \<Rightarrow> ht_compare_bytes),
                      ht_allocs = 2\<rparr>))"

text \<open>\<open>ht_destroy\<close>: the key and value buffers it frees, in order.\<close>

definition ht_destroy :: "hashtable_t \<Rightarrow> (u8 list \<times> u8 list option) list" where
  "ht_destroy t =
     map (\<lambda>e. (he_key e, he_value e)) (filter (\<lambda>e. he_flags e = ENTRY_OCCUPIED) (ht_entries t))"

section \<open>Operations\<close>

text \<open>
  \<open>find_slot\<close>: the index and \<open>found\<close>. The loop is the \<open>do while\<close> of the source, one call per probe.
\<close>

partial_function (option) find_slot_loop ::
    "hashtable_t \<Rightarrow> u8 list \<Rightarrow> nat \<Rightarrow> nat \<Rightarrow> nat \<Rightarrow> (nat \<times> bool) option" where
  "find_slot_loop t key original_index index deleted_slot =
     (let e = ht_entries t ! index in
      if he_flags e = ENTRY_EMPTY then
        Some (if deleted_slot \<noteq> ht_size t then deleted_slot else index, False)
      else if he_flags e \<noteq> ENTRY_DELETED \<and> length (he_key e) = length key \<and> ht_comp_func t (he_key e) key then
        Some (index, True)
      else
        (let deleted_slot = (if he_flags e = ENTRY_DELETED \<and> deleted_slot = ht_size t then index else deleted_slot);
             index = (index + 1) mod ht_size t
         in if index \<noteq> original_index then find_slot_loop t key original_index index deleted_slot
            else Some (if deleted_slot \<noteq> ht_size t then deleted_slot else original_index, False)))"

definition find_slot :: "hashtable_t \<Rightarrow> u8 list \<Rightarrow> (nat \<times> bool) option" where
  "find_slot t key =
     (if ht_size t = 0 then None
      else let index = unat (ht_hash_func t key) mod ht_size t
           in find_slot_loop t key index index (ht_size t))"

text \<open>
  \<open>ht_insert\<close> and \<open>ht_resize\<close> call each other; the first argument bounds the depth of these calls and
  \<open>None\<close> is its exhaustion. The results are the updated table and the return code.
\<close>

definition ht_put :: "(nat \<Rightarrow> bool) \<Rightarrow> hashtable_t \<Rightarrow> u8 list \<Rightarrow> u8 list \<Rightarrow> (hashtable_t \<times> int) option" where
  "ht_put ok t key val =
     Option.bind (find_slot t key) (\<lambda>(index, found).
       let e = ht_entries t ! index; n = ht_allocs t in
       if found then
         Some (t\<lparr>ht_entries := (ht_entries t)[index := e\<lparr>he_value := (if ok n then Some val else None)\<rparr>],
                 ht_allocs := n + 1\<rparr>, 0)
       else if \<not> ok n \<or> \<not> ok (n + 1) then Some (t\<lparr>ht_allocs := n + 2\<rparr>, -1)
       else
         Some (t\<lparr>ht_entries := (ht_entries t)[index :=
                    \<lparr>he_key = key, he_value = Some val, he_flags = ENTRY_OCCUPIED\<rparr>],
                 ht_cnt := ht_cnt t + 1, ht_allocs := n + 2\<rparr>, 0))"

fun ht_resize_with :: "(hashtable_t \<Rightarrow> u8 list \<Rightarrow> u8 list option \<Rightarrow> (hashtable_t \<times> int) option) \<Rightarrow>
    hash_entry_t list \<Rightarrow> hashtable_t \<Rightarrow> hashtable_t option" where
  "ht_resize_with ins [] t = Some t"
| "ht_resize_with ins (e # es) t =
     (if he_flags e = ENTRY_OCCUPIED
      then Option.bind (ins t (he_key e) (he_value e)) (\<lambda>(t, _). ht_resize_with ins es t)
      else ht_resize_with ins es t)"

definition ht_resize_step :: "(hashtable_t \<Rightarrow> u8 list \<Rightarrow> u8 list option \<Rightarrow> (hashtable_t \<times> int) option) \<Rightarrow>
    (nat \<Rightarrow> bool) \<Rightarrow> hashtable_t \<Rightarrow> nat \<Rightarrow> (hashtable_t \<times> int) option" where
  "ht_resize_step ins ok t new_size =
     (if new_size < 1 then Some (t, -1)
      else Option.bind (next_prime new_size) (\<lambda>new_size.
        let n = ht_allocs t in
        if \<not> ok n then Some (t\<lparr>ht_allocs := n + 1\<rparr>, -1)
        else map_option (\<lambda>t. (t, 0))
          (ht_resize_with ins (ht_entries t)
             (t\<lparr>ht_entries := replicate new_size empty_entry, ht_size := new_size, ht_cnt := 0,
                ht_allocs := n + 1\<rparr>))))"

fun ht_insert_d :: "nat \<Rightarrow> (nat \<Rightarrow> bool) \<Rightarrow> hashtable_t \<Rightarrow> u8 list \<Rightarrow> u8 list option \<Rightarrow> (hashtable_t \<times> int) option" where
  "ht_insert_d 0 ok t key val = None"
| "ht_insert_d (Suc d) ok t key val_ptr =
     (case val_ptr of
        None \<Rightarrow> Some (t, -1)
      | Some val \<Rightarrow>
          (if 4 * (ht_cnt t + 1) > 3 * ht_size t then
             Option.bind (ht_resize_step (ht_insert_d d ok) ok t (ht_size t * 2)) (\<lambda>(t, rc).
               if rc \<noteq> 0 then Some (t, -1) else ht_put ok t key val)
           else ht_put ok t key val))"

text \<open>Two nested calls are enough: the reinsertion into a table of twice the size never resizes again.\<close>

definition ht_insert :: "(nat \<Rightarrow> bool) \<Rightarrow> hashtable_t \<Rightarrow> u8 list \<Rightarrow> u8 list option \<Rightarrow> (hashtable_t \<times> int) option" where
  "ht_insert ok t key val_ptr = ht_insert_d 2 ok t key val_ptr"

definition ht_resize :: "(nat \<Rightarrow> bool) \<Rightarrow> hashtable_t \<Rightarrow> nat \<Rightarrow> (hashtable_t \<times> int) option" where
  "ht_resize ok t new_size = ht_resize_step (ht_insert_d 2 ok) ok t new_size"

definition ht_remove :: "(nat \<Rightarrow> bool) \<Rightarrow> hashtable_t \<Rightarrow> u8 list \<Rightarrow> (hashtable_t \<times> int) option" where
  "ht_remove ok t key =
     Option.bind (find_slot t key) (\<lambda>(index, found).
       if \<not> found then Some (t, -1)
       else
         (let t = t\<lparr>ht_entries := (ht_entries t)[index := (ht_entries t ! index)\<lparr>he_flags := ENTRY_DELETED\<rparr>],
                    ht_cnt := ht_cnt t - 1\<rparr>
          in if 4 * ht_cnt t < ht_size t \<and> ht_size t > DEFAULT_HASH_SIZE
             then map_option (\<lambda>(t, _). (t, 0)) (ht_resize ok t (ht_size t div 2))
             else Some (t, 0)))"

definition ht_get :: "hashtable_t \<Rightarrow> u8 list \<Rightarrow> u8 list option option" where
  "ht_get t key =
     map_option (\<lambda>(index, found). if \<not> found then None else he_value (ht_entries t ! index)) (find_slot t key)"

definition ht_contains :: "hashtable_t \<Rightarrow> u8 list \<Rightarrow> bool option" where
  "ht_contains t key = map_option snd (find_slot t key)"

definition ht_clear :: "hashtable_t \<Rightarrow> hashtable_t" where
  "ht_clear t =
     t\<lparr>ht_entries := map (\<lambda>e. if he_flags e = ENTRY_OCCUPIED then e\<lparr>he_flags := ENTRY_EMPTY\<rparr> else e) (ht_entries t),
       ht_cnt := 0\<rparr>"

definition ht_count :: "hashtable_t option \<Rightarrow> nat" where
  "ht_count table = (case table of Some t \<Rightarrow> ht_cnt t | None \<Rightarrow> 0)"

text \<open>The load factor as the fraction \<open>(count, size)\<close>; a missing table gives 0.\<close>

definition ht_load_factor :: "hashtable_t option \<Rightarrow> nat \<times> nat" where
  "ht_load_factor table = (case table of Some t \<Rightarrow> (ht_cnt t, ht_size t) | None \<Rightarrow> (0, 1))"

section \<open>Iterator\<close>

record ht_iterator_t =
  it_table :: "hashtable_t option"
  it_current_index :: nat

definition ht_iterator_init :: "hashtable_t \<Rightarrow> ht_iterator_t" where
  "ht_iterator_init t = \<lparr>it_table = Some t, it_current_index = 0\<rparr>"

text \<open>The result is the index of the entry whose address the source returns.\<close>

function ht_iterator_next_loop :: "hashtable_t \<Rightarrow> nat \<Rightarrow> nat option \<times> nat" where
  "ht_iterator_next_loop t i =
     (if i < ht_size t then
        if he_flags (ht_entries t ! i) = ENTRY_OCCUPIED then (Some i, i + 1)
        else ht_iterator_next_loop t (i + 1)
      else (None, i))"
  by pat_completeness auto
termination by (relation "measure (\<lambda>(t, i). ht_size t - i)") auto

declare ht_iterator_next_loop.simps [simp del]

definition ht_iterator_next :: "ht_iterator_t \<Rightarrow> nat option \<times> ht_iterator_t" where
  "ht_iterator_next it =
     (case it_table it of
        None \<Rightarrow> (None, it)
      | Some t \<Rightarrow> (let (r, i) = ht_iterator_next_loop t (it_current_index it)
                  in (r, it\<lparr>it_current_index := i\<rparr>)))"

definition ht_iterator_reset :: "ht_iterator_t \<Rightarrow> ht_iterator_t" where
  "ht_iterator_reset it = it\<lparr>it_current_index := 0\<rparr>"

end
