(* ===== verification/Hashtable_Spec.thy ===== *)
theory Hashtable_Spec
  imports Hashtable
begin

text \<open>
  What \<open>hashtable.c\<close> promises: a finite map. The invariant \<open>ht_inv\<close> says that every slot between the
  home slot of a key and the slot it is stored in is in use, which is what a search relies on; it
  is kept by insertion, removal (tombstones) and by rebuilding the table at another prime size.
  The interface is the locale \<open>map_store\<close>, of which the table is an interpretation.
\<close>

section \<open>Primes\<close>










section \<open>Probing\<close>

abbreviation flag_at :: "hashtable_t \<Rightarrow> nat \<Rightarrow> entry_flags" where
  "flag_at t i \<equiv> he_flags (ht_entries t ! i)"

abbreviation key_at :: "hashtable_t \<Rightarrow> nat \<Rightarrow> u8 list" where
  "key_at t i \<equiv> he_key (ht_entries t ! i)"

definition ht_home :: "hashtable_t \<Rightarrow> u8 list \<Rightarrow> nat" where
  "ht_home t key = unat (ht_hash_func t key) mod ht_size t"

text \<open>The slots in the order in which a search of \<open>key\<close> visits them.\<close>

definition probes :: "hashtable_t \<Rightarrow> u8 list \<Rightarrow> nat list" where
  "probes t key = map (\<lambda>d. (ht_home t key + d) mod ht_size t) [0..<ht_size t]"

lemma mod_add_inj:
  fixes h a b n :: nat
  assumes "a < n" "b < n" "(h + a) mod n = (h + b) mod n"
  shows "a = b"
proof -
  have *: "a = b" if "a \<le> b" "b < n" "(h + a) mod n = (h + b) mod n" for a b
  proof -
    have "n dvd (h + b) - (h + a)" using that by (intro mod_eq_dvd_iff_nat[THEN iffD1]) auto
    then have "n dvd b - a" by simp
    moreover have "b - a < n" using that by simp
    ultimately have "b - a = 0" using nat_dvd_not_less by blast
    with that show ?thesis by simp
  qed
  show ?thesis using *[of a b] *[of b a] assms by (cases "a \<le> b") auto
qed

lemma distinct_probes: "distinct (probes t key)"
  unfolding probes_def by (auto simp: distinct_map inj_on_def dest: mod_add_inj)

lemma set_probes: "0 < ht_size t \<Longrightarrow> set (probes t key) = {..<ht_size t}"
proof -
  assume s: "0 < ht_size t"
  have "set (probes t key) \<subseteq> {..<ht_size t}" using s by (auto simp: probes_def)
  moreover have "card (set (probes t key)) = ht_size t"
    using distinct_card[OF distinct_probes[of t key]] by (simp add: probes_def)
  ultimately show ?thesis by (metis card_lessThan card_subset_eq finite_lessThan)
qed

text \<open>The search as a recursion over a list of slots.\<close>

fun probe :: "hashtable_t \<Rightarrow> u8 list \<Rightarrow> nat \<Rightarrow> nat list \<Rightarrow> nat \<Rightarrow> nat \<times> bool" where
  "probe t key h [] del = (if del \<noteq> ht_size t then del else h, False)"
| "probe t key h (p # ps) del =
     (if flag_at t p = ENTRY_EMPTY then (if del \<noteq> ht_size t then del else p, False)
      else if flag_at t p \<noteq> ENTRY_DELETED \<and> length (key_at t p) = length key \<and> ht_comp_func t (key_at t p) key
      then (p, True)
      else probe t key h ps (if flag_at t p = ENTRY_DELETED \<and> del = ht_size t then p else del))"

lemma find_slot_loop_probe:
  assumes "j < ht_size t" and "h < ht_size t"
  shows "find_slot_loop t key h ((h + j) mod ht_size t) del =
     Some (probe t key h (map (\<lambda>d. (h + d) mod ht_size t) [j..<ht_size t]) del)"
  using assms
proof (induction "ht_size t - j" arbitrary: j del)
  case (Suc n)
  let ?i = "(h + j) mod ht_size t"
  have nx: "(?i + 1) mod ht_size t = (h + Suc j) mod ht_size t" by (simp add: mod_Suc_eq)
  have us: "[j..<ht_size t] = j # [Suc j..<ht_size t]" using Suc.prems by (simp add: upt_conv_Cons)
  show ?case
  proof (cases "Suc j < ht_size t")
    case True
    have "(h + Suc j) mod ht_size t \<noteq> h"
      using mod_add_inj[of "Suc j" "ht_size t" 0 h] True Suc.prems by auto
    with Suc.hyps(1)[of "Suc j"] Suc.hyps(2) Suc.prems True nx show ?thesis
      by (subst find_slot_loop.simps) (simp add: us Let_def)
  next
    case False
    then have "h + Suc j = h + ht_size t" using Suc.prems by simp
    then have "(h + Suc j) mod ht_size t = h" using Suc.prems by (simp del: add_Suc_right)
    with False nx show ?thesis by (subst find_slot_loop.simps) (simp add: us Let_def)
  qed
qed simp

lemma find_slot_probe:
  assumes "0 < ht_size t"
  shows "find_slot t key = Some (probe t key (ht_home t key) (probes t key) (ht_size t))"
proof -
  have h: "ht_home t key < ht_size t" using assms by (simp add: ht_home_def)
  show ?thesis
    using find_slot_loop_probe[OF assms h, of key "ht_size t"] assms h
    by (simp add: find_slot_def probes_def Let_def ht_home_def)
qed

lemma probe_cong:
  assumes "\<forall>p \<in> set ps. flag_at t' p = flag_at t p \<and> key_at t' p = key_at t p"
    and "ht_size t' = ht_size t" "ht_comp_func t' = ht_comp_func t"
  shows "probe t' key h ps del = probe t key h ps del"
  using assms by (induction ps arbitrary: del) auto

lemma value_update_nth:
  "es[i := (es ! i)\<lparr>he_value := v\<rparr>] ! p = (if i < length es \<and> p = i then (es ! i)\<lparr>he_value := v\<rparr> else es ! p)"
  by (metis list_update_beyond not_le nth_list_update_eq nth_list_update_neq)

lemma find_slot_value_update:
  assumes "0 < ht_size t"
  shows "find_slot (t\<lparr>ht_entries := (ht_entries t)[i := (ht_entries t ! i)\<lparr>he_value := v\<rparr>], ht_allocs := n\<rparr>) key = find_slot t key"
    (is "find_slot ?t key = _")
proof -
  have "probes ?t key = probes t key" "ht_home ?t key = ht_home t key" by (simp_all add: probes_def ht_home_def)
  moreover have "probe ?t key h (probes t key) d = probe t key h (probes t key) d" for h d
    by (rule probe_cong) (simp_all add: value_update_nth)
  moreover have "0 < ht_size ?t" "ht_size ?t = ht_size t" using assms by simp_all
  ultimately show ?thesis by (simp only: find_slot_probe assms)
qed

text \<open>Slots before \<open>i\<close> on the search path.\<close>

abbreviation before :: "nat \<Rightarrow> nat list \<Rightarrow> nat set" where
  "before i ps \<equiv> set (takeWhile (\<lambda>p. p \<noteq> i) ps)"

definition matches :: "hashtable_t \<Rightarrow> u8 list \<Rightarrow> nat \<Rightarrow> bool" where
  "matches t key i \<longleftrightarrow> flag_at t i = ENTRY_OCCUPIED \<and> key_at t i = key"

definition comp_ok :: "hashtable_t \<Rightarrow> bool" where
  "comp_ok t \<longleftrightarrow> (\<forall>a b. length a = length b \<longrightarrow> ht_comp_func t a b = (a = b))"

lemma probe_found:
  assumes "comp_ok t" "i \<in> set ps" "matches t key i" "\<forall>p \<in> before i ps. flag_at t p \<noteq> ENTRY_EMPTY \<and> \<not> matches t key p"
  shows "probe t key h ps del = (i, True)"
  using assms
proof (induction ps arbitrary: del)
  case (Cons p ps)
  show ?case
  proof (cases "p = i")
    case True
    with Cons.prems show ?thesis by (auto simp: matches_def comp_ok_def)
  next
    case False
    with Cons.prems(4) have "flag_at t p \<noteq> ENTRY_EMPTY" "\<not> matches t key p" by auto
    then have "\<not> (flag_at t p \<noteq> ENTRY_DELETED \<and> length (key_at t p) = length key \<and> ht_comp_func t (key_at t p) key)"
      using Cons.prems(1) by (cases "flag_at t p") (auto simp: matches_def comp_ok_def)
    with \<open>flag_at t p \<noteq> ENTRY_EMPTY\<close> Cons False show ?thesis by simp
  qed
qed simp

lemma probe_absent:
  assumes "comp_ok t" "\<forall>p \<in> set ps. \<not> matches t key p" "\<forall>p \<in> set ps. p < ht_size t"
  shows "\<exists>r. probe t key h ps del = (r, False) \<and>
     (if del \<noteq> ht_size t then r = del
      else (\<exists>p \<in> set ps. flag_at t p \<noteq> ENTRY_OCCUPIED) \<longrightarrow>
        r \<in> set ps \<and> flag_at t r \<noteq> ENTRY_OCCUPIED \<and> (\<forall>p \<in> before r ps. flag_at t p \<noteq> ENTRY_EMPTY))"
  using assms
proof (induction ps arbitrary: del)
  case (Cons p ps)
  have nm: "\<not> (flag_at t p \<noteq> ENTRY_DELETED \<and> length (key_at t p) = length key \<and> ht_comp_func t (key_at t p) key)"
    if "flag_at t p \<noteq> ENTRY_EMPTY"
    using Cons.prems(1,2) that by (cases "flag_at t p") (auto simp: matches_def comp_ok_def)
  have IH: "\<exists>r. probe t key h ps d = (r, False) \<and>
     (if d \<noteq> ht_size t then r = d
      else (\<exists>p \<in> set ps. flag_at t p \<noteq> ENTRY_OCCUPIED) \<longrightarrow>
        r \<in> set ps \<and> flag_at t r \<noteq> ENTRY_OCCUPIED \<and> (\<forall>p \<in> before r ps. flag_at t p \<noteq> ENTRY_EMPTY))" for d
    using Cons.prems by (intro Cons.IH) auto
  show ?case
  proof (cases "flag_at t p")
    case ENTRY_EMPTY
    then show ?thesis by auto
  next
    case ENTRY_OCCUPIED
    with nm IH[of del] show ?thesis by (cases "del = ht_size t") auto
  next
    case ENTRY_DELETED
    have "p \<noteq> ht_size t" using Cons.prems(3) by auto
    with nm IH[of "if del = ht_size t then p else del"] ENTRY_DELETED show ?thesis
      by (cases "del = ht_size t") auto
  qed
qed simp

section \<open>The abstract map and the invariant\<close>

definition occupied :: "hash_entry_t \<Rightarrow> bool" where
  "occupied e \<longleftrightarrow> he_flags e = ENTRY_OCCUPIED"

definition assoc_of :: "hash_entry_t list \<Rightarrow> (u8 list \<times> u8 list option) list" where
  "assoc_of es = map (\<lambda>e. (he_key e, he_value e)) (filter occupied es)"

abbreviation ht_assoc :: "hashtable_t \<Rightarrow> (u8 list \<times> u8 list option) list" where
  "ht_assoc t \<equiv> assoc_of (ht_entries t)"

definition ht_map :: "hashtable_t \<Rightarrow> u8 list \<Rightarrow> u8 list option" where
  "ht_map t k = Option.bind (map_of (ht_assoc t) k) id"

definition path_ok :: "hashtable_t \<Rightarrow> nat \<Rightarrow> bool" where
  "path_ok t i \<longleftrightarrow> (\<forall>p \<in> before i (probes t (key_at t i)). flag_at t p \<noteq> ENTRY_EMPTY)"

definition ht_inv :: "hashtable_t \<Rightarrow> bool" where
  "ht_inv t \<longleftrightarrow> 0 < ht_size t \<and> length (ht_entries t) = ht_size t \<and> comp_ok t \<and>
     distinct (map fst (ht_assoc t)) \<and> ht_cnt t = length (ht_assoc t) \<and> 4 * ht_cnt t \<le> 3 * ht_size t \<and>
     (\<forall>kv \<in> set (ht_assoc t). snd kv \<noteq> None) \<and>
     (\<forall>i < ht_size t. flag_at t i = ENTRY_OCCUPIED \<longrightarrow> path_ok t i)"

lemma assoc_of_simps [simp]:
  "assoc_of [] = []" "assoc_of (es @ fs) = assoc_of es @ assoc_of fs"
  "assoc_of (e # es) = (if occupied e then (he_key e, he_value e) # assoc_of es else assoc_of es)"
  "assoc_of (replicate n empty_entry) = []"
  by (auto simp: assoc_of_def occupied_def empty_entry_def)

lemma ht_assoc_keys: "k \<in> set (map fst (ht_assoc t)) \<longleftrightarrow> (\<exists>i < length (ht_entries t). matches t k i)"
proof -
  have "k \<in> set (map fst (ht_assoc t)) \<longleftrightarrow> (\<exists>e \<in> set (ht_entries t). occupied e \<and> he_key e = k)"
    by (auto simp: assoc_of_def)
  also have "\<dots> \<longleftrightarrow> (\<exists>i < length (ht_entries t). matches t k i)"
    unfolding matches_def occupied_def by (metis in_set_conv_nth)
  finally show ?thesis .
qed

lemma distinct_filter_nth:
  assumes "distinct (map f (filter P xs))" "i < length xs" "j < length xs" "P (xs ! i)" "P (xs ! j)" "f (xs ! i) = f (xs ! j)"
  shows "i = j"
  using assms
proof (induction xs arbitrary: i j)
  case (Cons x xs)
  have mem: "f (xs ! n) \<in> f ` set (filter P xs)" if "n < length xs" "P (xs ! n)" for n using that by auto
  show ?case
    using Cons mem[of "i - 1"] mem[of "j - 1"] by (cases i; cases j) (fastforce split: if_splits)+
qed simp

lemma matches_unique:
  assumes "ht_inv t" "i < ht_size t" "j < ht_size t" "matches t k i" "matches t k j"
  shows "i = j"
  using assms distinct_filter_nth[of he_key occupied "ht_entries t" i j]
  by (auto simp: ht_inv_def assoc_of_def matches_def occupied_def o_def)

lemma free_slot:
  assumes "length es = n" "length (assoc_of es) < n"
  shows "\<exists>i < n. he_flags (es ! i) \<noteq> ENTRY_OCCUPIED"
proof (rule ccontr)
  assume "\<not> ?thesis"
  then have "\<forall>e \<in> set es. occupied e" using assms(1) by (auto simp: occupied_def in_set_conv_nth)
  then have "filter occupied es = es" by simp
  with assms show False by (simp add: assoc_of_def)
qed

lemma find_slot_correct:
  assumes inv: "ht_inv t"
  shows "(\<exists>i < ht_size t. matches t k i \<and> find_slot t k = Some (i, True)) \<or>
     (k \<notin> set (map fst (ht_assoc t)) \<and>
      (\<exists>i. find_slot t k = Some (i, False) \<and>
        (ht_cnt t < ht_size t \<longrightarrow> i < ht_size t \<and> flag_at t i \<noteq> ENTRY_OCCUPIED \<and>
           (\<forall>p \<in> before i (probes t k). flag_at t p \<noteq> ENTRY_EMPTY))))"
proof -
  from inv have s: "0 < ht_size t" "length (ht_entries t) = ht_size t" "comp_ok t" by (auto simp: ht_inv_def)
  note fs = find_slot_probe[OF s(1), of k]
  show ?thesis
  proof (cases "\<exists>i < ht_size t. matches t k i")
    case True
    then obtain i where i: "i < ht_size t" "matches t k i" by blast
    have "\<forall>p \<in> before i (probes t k). flag_at t p \<noteq> ENTRY_EMPTY \<and> \<not> matches t k p"
    proof
      fix p assume p: "p \<in> before i (probes t k)"
      then have "p \<noteq> i" "p < ht_size t" using set_probes[OF s(1), of k] by (auto dest: set_takeWhileD)
      then have "\<not> matches t k p" using matches_unique[OF inv] i by blast
      moreover have "flag_at t p \<noteq> ENTRY_EMPTY" using inv i p by (auto simp: ht_inv_def path_ok_def matches_def)
      ultimately show "flag_at t p \<noteq> ENTRY_EMPTY \<and> \<not> matches t k p" by simp
    qed
    then have "probe t k (ht_home t k) (probes t k) (ht_size t) = (i, True)"
      using i s set_probes[OF s(1), of k] by (intro probe_found) auto
    with fs i show ?thesis by auto
  next
    case False
    then obtain r where r: "probe t k (ht_home t k) (probes t k) (ht_size t) = (r, False)"
      "(\<exists>p < ht_size t. flag_at t p \<noteq> ENTRY_OCCUPIED) \<longrightarrow>
        r < ht_size t \<and> flag_at t r \<noteq> ENTRY_OCCUPIED \<and> (\<forall>p \<in> before r (probes t k). flag_at t p \<noteq> ENTRY_EMPTY)"
      using probe_absent[OF s(3), of "probes t k" k "ht_home t k" "ht_size t"] set_probes[OF s(1), of k] by auto
    moreover have "ht_cnt t < ht_size t \<Longrightarrow> \<exists>p < ht_size t. flag_at t p \<noteq> ENTRY_OCCUPIED"
      using free_slot[OF s(2)] inv by (auto simp: ht_inv_def)
    moreover have "k \<notin> set (map fst (ht_assoc t))" using False s by (simp add: ht_assoc_keys del: set_map)
    ultimately show ?thesis using fs by auto
  qed
qed



lemma path_ok_header [simp]:
  "path_ok (t\<lparr>ht_cnt := n\<rparr>) j = path_ok t j" "path_ok (t\<lparr>ht_allocs := m\<rparr>) j = path_ok t j"
  "path_ok (t\<lparr>ht_entries := es, ht_cnt := n\<rparr>) j = path_ok (t\<lparr>ht_entries := es\<rparr>) j"
  "path_ok (t\<lparr>ht_entries := es, ht_allocs := m\<rparr>) j = path_ok (t\<lparr>ht_entries := es\<rparr>) j"
  "path_ok (t\<lparr>ht_entries := es, ht_cnt := n, ht_allocs := m\<rparr>) j = path_ok (t\<lparr>ht_entries := es\<rparr>) j"
  by (simp_all add: path_ok_def probes_def ht_home_def)

lemma comp_ok_header [simp]:
  "comp_ok (t\<lparr>ht_entries := es\<rparr>) = comp_ok t" "comp_ok (t\<lparr>ht_cnt := n\<rparr>) = comp_ok t"
  "comp_ok (t\<lparr>ht_allocs := m\<rparr>) = comp_ok t" "comp_ok (t\<lparr>ht_size := m\<rparr>) = comp_ok t"
  by (simp_all add: comp_ok_def)


lemma map_of_bind_notin: "k \<notin> fst ` set xs \<Longrightarrow> Option.bind (map_of xs k) id = None"
  by (metis bind_eq_None_conv map_of_eq_None_iff)



section \<open>Rebuilding the table\<close>

lemma ht_insert_d_no_resize:
  "4 * (ht_cnt t + 1) \<le> 3 * ht_size t \<Longrightarrow> ht_insert_d (Suc d) ok t k (Some v) = ht_put ok t k v"
  by simp

lemma empty_entry_flags [simp]: "he_flags empty_entry = ENTRY_EMPTY"
  by (simp add: empty_entry_def)

declare ht_insert_d.simps [simp del]




section \<open>The operations\<close>



lemma ht_map_found: "ht_inv t \<Longrightarrow> i < ht_size t \<Longrightarrow> matches t k i \<Longrightarrow> ht_map t k = he_value (ht_entries t ! i)"
proof -
  assume a: "ht_inv t" "i < ht_size t" "matches t k i"
  have "(k, he_value (ht_entries t ! i)) \<in> set (ht_assoc t)"
    using a by (force simp: assoc_of_def matches_def occupied_def ht_inv_def)
  then have "map_of (ht_assoc t) k = Some (he_value (ht_entries t ! i))" using a(1) by (simp add: ht_inv_def)
  then show ?thesis by (simp add: ht_map_def)
qed

lemma ht_map_absent: "k \<notin> set (map fst (ht_assoc t)) \<Longrightarrow> ht_map t k = None"
  by (simp add: ht_map_def map_of_bind_notin)


lemma ht_get_ok: "ht_inv t \<Longrightarrow> ht_get t k = Some (ht_map t k)"
proof -
  assume inv: "ht_inv t"
  from find_slot_correct[OF inv, of k] show ?thesis
  proof (elim disjE exE conjE)
    fix i assume "i < ht_size t" "matches t k i" "find_slot t k = Some (i, True)"
    with ht_map_found[OF inv] show ?thesis by (simp add: ht_get_def)
  next
    fix i assume "k \<notin> set (map fst (ht_assoc t))" "find_slot t k = Some (i, False)"
    with ht_map_absent[of k t] show ?thesis by (simp add: ht_get_def)
  qed
qed



lemma ht_clear_ok:
  assumes "ht_inv t" shows "ht_inv (ht_clear t) \<and> ht_map (ht_clear t) = Map.empty"
proof -
  have a: "assoc_of (map (\<lambda>e. if he_flags e = ENTRY_OCCUPIED then e\<lparr>he_flags := ENTRY_EMPTY\<rparr> else e) es) = []" for es
    by (induction es) (auto simp: occupied_def)
  have f: "he_flags (map (\<lambda>e. if he_flags e = ENTRY_OCCUPIED then e\<lparr>he_flags := ENTRY_EMPTY\<rparr> else e) es ! i) \<noteq> ENTRY_OCCUPIED"
    if "i < length es" for es i using that by auto
  show ?thesis using assms a f by (auto simp: ht_clear_def ht_inv_def ht_map_def)
qed


section \<open>The interface of a map\<close>





section \<open>The iterator\<close>

text \<open>The indices of the occupied entries from \<open>i\<close> on, in order.\<close>

lemma ht_iterator_next_loop_ok:
  "ht_iterator_next_loop t i =
     (case filter (\<lambda>j. flag_at t j = ENTRY_OCCUPIED) [i..<ht_size t] of
        [] \<Rightarrow> (None, max i (ht_size t)) | j # _ \<Rightarrow> (Some j, j + 1))"
proof (induction t i rule: ht_iterator_next_loop.induct)
  case (1 t i)
  show ?case
  proof (cases "i < ht_size t")
    case True
    with 1 show ?thesis by (subst ht_iterator_next_loop.simps) (auto simp: upt_conv_Cons max_def split: list.splits)
  next
    case False
    then show ?thesis by (subst ht_iterator_next_loop.simps) simp
  qed
qed

section \<open>Properties\<close>









text \<open>Overwriting a key while \<open>malloc\<close> fails returns 0, but the old value is freed and the stored
  value pointer is \<open>NULL\<close>: the value is lost although the call reports success.\<close>

theorem ht_update_out_of_memory:
  assumes "ht_inv t" and "ht_map t k = Some w" and "4 * (ht_cnt t + 1) \<le> 3 * ht_size t" and "\<not> ok (ht_allocs t)"
  shows "\<exists>t'. ht_insert ok t k (Some v) = Some (t', 0) \<and> ht_get t' k = Some None \<and> ht_contains t' k = Some True"
proof -
  obtain i where i: "i < ht_size t" "matches t k i" "find_slot t k = Some (i, True)"
    using find_slot_correct[OF assms(1), of k] assms(2) ht_map_absent[of k t] by auto
  let ?e = "(ht_entries t ! i)\<lparr>he_value := None\<rparr>"
  let ?t = "t\<lparr>ht_entries := (ht_entries t)[i := ?e], ht_allocs := ht_allocs t + 1\<rparr>"
  have len: "length (ht_entries t) = ht_size t" using assms(1) by (simp add: ht_inv_def)
  have ins: "ht_insert ok t k (Some v) = Some (?t, 0)"
    using assms(3,4) i ht_insert_d_no_resize[OF assms(3), of 1 ok k v] by (simp add: ht_insert_def numeral_2_eq_2 ht_put_def Let_def)
  have "find_slot ?t k = find_slot t k" by (rule find_slot_value_update) (use i in auto)
  with ins i len show ?thesis by (auto simp: ht_get_def ht_contains_def)
qed

theorem ht_update_out_of_memory_witness:
  "\<exists>t t'. ht_get t [1] = Some (Some [2]) \<and>
     ht_insert (\<lambda>_. False) t [1] (Some [3]) = Some (t', 0) \<and> ht_get t' [1] = Some None"
proof -
  define e where "e = \<lparr>he_key = [1], he_value = Some [2], he_flags = ENTRY_OCCUPIED\<rparr>"
  define t where "t = \<lparr>ht_entries = [empty_entry, e, empty_entry], ht_size = 3, ht_cnt = 1, ht_hash_func = (\<lambda>_. 1),
    ht_comp_func = ht_compare_bytes, ht_allocs = 4\<rparr>"
  have "path_ok t i" if "flag_at t i = ENTRY_OCCUPIED" "i < 3" for i
  proof -
    have "i = 0 \<or> i = 1 \<or> i = 2" using that(2) by auto
    then have "i = 1" using that(1) by (auto simp: t_def empty_entry_def)
    moreover have "probes t [1] = [1, 2, 0]" by (simp add: probes_def ht_home_def t_def upt_rec)
    ultimately show ?thesis by (simp add: path_ok_def t_def e_def)
  qed
  then have "ht_inv t"
    unfolding ht_inv_def comp_ok_def by (simp add: t_def e_def empty_entry_def occupied_def ht_compare_bytes_def)
  moreover have "ht_map t [1] = Some [2]" by (simp add: ht_map_def t_def e_def empty_entry_def occupied_def)
  moreover have "4 * (ht_cnt t + 1) \<le> 3 * ht_size t" by (simp add: t_def)
  ultimately show ?thesis using ht_update_out_of_memory[of t "[1]" "[2]" "\<lambda>_. False" "[3]"] ht_get_ok[of t "[1]"] by auto
qed

end
