(* ===== verification/Linked_List.thy ===== *)
theory Linked_List
  imports Prelude
begin

text \<open>
  Singly linked lists in memory, shared by the components that keep their elements on \<open>next\<close>
  pointers: \<open>chain nx p xs\<close> says that following \<open>nx\<close> from \<open>p\<close> visits exactly \<open>xs\<close> and ends in
  \<open>NULL\<close>; \<open>fifo nx h tp xs\<close> adds a tail pointer \<open>tp\<close>.
\<close>

fun chain :: "(addr \<Rightarrow> addr) \<Rightarrow> addr \<Rightarrow> addr list \<Rightarrow> bool" where
  "chain nx p [] \<longleftrightarrow> p = NULL"
| "chain nx p (x # xs) \<longleftrightarrow> p = x \<and> x \<noteq> NULL \<and> chain nx (nx x) xs"

definition fifo :: "(addr \<Rightarrow> addr) \<Rightarrow> addr \<Rightarrow> addr \<Rightarrow> addr list \<Rightarrow> bool" where
  "fifo nx h tp xs \<longleftrightarrow> chain nx h xs \<and> tp = (if xs = [] then NULL else last xs)"

lemma chain_NULL [simp]: "chain nx NULL xs \<longleftrightarrow> xs = []"
  by (cases xs) auto

lemma chain_nonnull: "p \<noteq> NULL \<Longrightarrow> chain nx p xs \<longleftrightarrow> (\<exists>ys. xs = p # ys \<and> chain nx (nx p) ys)"
  by (cases xs) auto

lemma chain_no_NULL: "chain nx p xs \<Longrightarrow> NULL \<notin> set xs"
  by (induction xs arbitrary: p) auto

lemma chain_unique: "chain nx p xs \<Longrightarrow> chain nx p ys \<Longrightarrow> xs = ys"
proof (induction xs arbitrary: p ys)
  case (Cons x xs)
  then show ?case by (cases ys) auto
qed simp

lemma chain_cong: "\<forall>x \<in> set xs. nx' x = nx x \<Longrightarrow> chain nx' p xs = chain nx p xs"
  by (induction xs arbitrary: p) auto

lemma chain_upd [simp]: "a \<notin> set xs \<Longrightarrow> chain (nx(a := b)) p xs = chain nx p xs"
  by (rule chain_cong) auto

lemma chain_distinct: "chain nx p xs \<Longrightarrow> distinct xs"
proof (induction xs arbitrary: p)
  case (Cons x xs)
  have "x \<notin> set xs"
  proof
    assume "x \<in> set xs"
    then obtain us vs where s: "xs = us @ x # vs" by (meson split_list)
    have "chain nx q (us @ x # vs) \<Longrightarrow> chain nx x (x # vs)" for q by (induction us arbitrary: q) auto
    with Cons.prems s have "chain nx x (x # vs)" "chain nx x (x # us @ x # vs)" by auto
    from chain_unique[OF this] show False by (metis append_Cons append_is_Nil_conv list.distinct(1) list.inject append_self_conv2 same_append_eq append_assoc)
  qed
  with Cons show ?case by auto
qed simp

lemma chain_snoc:
  assumes "chain nx p xs" "xs \<noteq> []" "x \<noteq> NULL" "x \<notin> set xs"
  shows "chain (nx(last xs := x, x := NULL)) p (xs @ [x])"
  using assms
proof (induction xs arbitrary: p)
  case (Cons y ys)
  have d: "y \<notin> set ys" using chain_distinct[OF Cons.prems(1)] by simp
  show ?case
  proof (cases "ys = []")
    case False
    then have "last ys \<noteq> y" using d by (metis last_in_set)
    with Cons False show ?thesis by auto
  qed (use Cons.prems in auto)
qed simp

text \<open>Appending at the tail, and taking the head, as the queues of the source do.\<close>

lemma fifo_snoc:
  assumes "fifo nx h tp xs" "x \<noteq> NULL" "x \<notin> set xs"
  shows "if h = NULL then fifo (nx(x := NULL)) x x (xs @ [x]) else fifo (nx(tp := x, x := NULL)) h x (xs @ [x])"
proof (cases "h = NULL")
  case True
  then show ?thesis using assms by (auto simp: fifo_def)
next
  case False
  then have "xs \<noteq> []" using assms by (auto simp: fifo_def)
  with False assms chain_snoc[of nx h xs x] show ?thesis by (auto simp: fifo_def)
qed

lemma fifo_tail:
  assumes "fifo nx h tp xs" "h \<noteq> NULL"
  obtains ys where "xs = h # ys" "h \<notin> set ys" "fifo (nx(h := v)) (nx h) (if nx h = NULL then NULL else tp) ys"
proof -
  from assms obtain ys where ys: "xs = h # ys" "chain nx (nx h) ys" by (auto simp: fifo_def chain_nonnull)
  moreover have "h \<notin> set ys" using assms ys chain_distinct[of nx h xs] by (auto simp: fifo_def)
  moreover have "nx h = NULL \<longleftrightarrow> ys = []" using ys(2) by (cases ys) auto
  ultimately show thesis using assms by (intro that[of ys]) (auto simp: fifo_def)
qed

lemma fifo_upd: "a \<notin> set xs \<Longrightarrow> fifo (nx(a := b)) h tp xs = fifo nx h tp xs"
  by (simp add: fifo_def)

lemma fifo_empty [simp]: "fifo nx NULL NULL []" "fifo nx h tp [] \<longleftrightarrow> h = NULL \<and> tp = NULL"
  "fifo nx NULL tp xs \<longleftrightarrow> xs = [] \<and> tp = NULL"
  by (auto simp: fifo_def)

section \<open>Doubly linked lists\<close>

text \<open>\<open>dseg nx pv q p xs r\<close>: the doubly linked segment \<open>xs\<close> from \<open>p\<close> up to \<open>r\<close>, entered from \<open>q\<close>.\<close>

fun dseg :: "(addr \<Rightarrow> addr) \<Rightarrow> (addr \<Rightarrow> addr) \<Rightarrow> addr \<Rightarrow> addr \<Rightarrow> addr list \<Rightarrow> addr \<Rightarrow> bool" where
  "dseg nx pv q p [] r \<longleftrightarrow> p = r"
| "dseg nx pv q p (x # xs) r \<longleftrightarrow> p = x \<and> x \<noteq> NULL \<and> pv x = q \<and> dseg nx pv x (nx x) xs r"

lemma dseg_append: "dseg nx pv q p (xs @ ys) r \<longleftrightarrow> (\<exists>s. dseg nx pv q p xs s \<and> dseg nx pv (last (q # xs)) s ys r)"
  by (induction xs arbitrary: q p) auto

lemma dseg_cong:
  "\<forall>x \<in> set xs. nx' x = nx x \<and> pv' x = pv x \<Longrightarrow> dseg nx' pv' q p xs r = dseg nx pv q p xs r"
  by (induction xs arbitrary: q p) auto

lemma dseg_head: "dseg nx pv q p xs NULL \<Longrightarrow> p = (if xs = [] then NULL else hd xs)"
  by (cases xs) auto

lemma dseg_nonnull: "dseg nx pv q p xs r \<Longrightarrow> x \<in> set xs \<Longrightarrow> x \<noteq> NULL"
  by (induction xs arbitrary: q p) auto

lemma dseg_chain: "dseg nx pv q p xs NULL \<Longrightarrow> chain nx p xs"
  by (induction xs arbitrary: q p) auto

text \<open>The last element may be linked to another successor, the first to another predecessor.\<close>

lemma dseg_end:
  assumes "dseg nx pv q p (xs @ [x]) r" "x \<notin> set xs" "pv' x = pv x" "\<forall>y \<in> set xs. nx' y = nx y \<and> pv' y = pv y"
  shows "dseg nx' pv' q p (xs @ [x]) (nx' x)"
  using assms dseg_cong[of xs nx' nx pv' pv q p] by (auto simp: dseg_append)

lemma dseg_front:
  assumes "dseg nx pv q p (x # xs) r" "x \<notin> set xs" "nx' x = nx x" "pv' x = q'" "\<forall>y \<in> set xs. nx' y = nx y \<and> pv' y = pv y"
  shows "dseg nx' pv' q' p (x # xs) r"
  using assms dseg_cong[of xs nx' nx pv' pv x "nx x"] by auto

text \<open>Links of an element in the middle.\<close>

lemma dseg_middle:
  assumes "dseg nx pv NULL h (ys @ x # zs) NULL"
  shows "x \<noteq> NULL" "pv x = last (NULL # ys)" "nx x = (if zs = [] then NULL else hd zs)"
    "pv x = NULL \<longleftrightarrow> ys = []" "nx x = NULL \<longleftrightarrow> zs = []" "distinct (ys @ x # zs)" "h = x \<longleftrightarrow> ys = []"
proof -
  obtain s where s: "dseg nx pv NULL h ys s" "s = x" "x \<noteq> NULL" "pv x = last (NULL # ys)" "dseg nx pv x (nx x) zs NULL"
    using assms by (auto simp: dseg_append)
  then show "x \<noteq> NULL" "pv x = last (NULL # ys)" by simp_all
  show n: "nx x = (if zs = [] then NULL else hd zs)" using dseg_head[OF s(5)] .
  show d: "distinct (ys @ x # zs)" using chain_distinct[OF dseg_chain[OF assms]] .
  have "ys \<noteq> [] \<Longrightarrow> last ys \<noteq> NULL" using dseg_nonnull[OF s(1)] by simp
  then show "pv x = NULL \<longleftrightarrow> ys = []" using s(4) by auto
  have "zs \<noteq> [] \<Longrightarrow> hd zs \<noteq> NULL" using dseg_nonnull[OF s(5)] by simp
  then show "nx x = NULL \<longleftrightarrow> zs = []" using n by auto
  show "h = x \<longleftrightarrow> ys = []" using s(1,2) d by (cases ys) auto
qed

lemma dseg_remove:
  assumes "dseg nx pv NULL h (ys @ x # zs) NULL"
    and nx': "\<And>u. u \<noteq> x \<Longrightarrow> nx' u = (if ys \<noteq> [] \<and> u = last ys then nx x else nx u)"
    and pv': "\<And>u. u \<noteq> x \<Longrightarrow> pv' u = (if zs \<noteq> [] \<and> u = hd zs then pv x else pv u)"
  shows "dseg nx' pv' NULL (if ys = [] then nx x else h) (ys @ zs) NULL"
proof -
  note mid = dseg_middle[OF assms(1)]
  have d: "dseg nx pv NULL h ys x" "dseg nx pv x (nx x) zs NULL" using assms(1) by (auto simp: dseg_append)
  have ly: "last ys \<notin> set zs" "last ys \<noteq> x" if "ys \<noteq> []" using mid(6) last_in_set[OF that] by auto
  have mem: "u \<in> set zs \<Longrightarrow> u \<noteq> x" "u \<in> set ys \<Longrightarrow> u \<noteq> x" "u \<in> set ys \<Longrightarrow> zs \<noteq> [] \<Longrightarrow> u \<noteq> hd zs" for u
    using mid(6) hd_in_set[of zs] by auto
  have zs: "dseg nx' pv' (last (NULL # ys)) (nx x) zs NULL"
  proof (cases zs)
    case (Cons z zs')
    have in_zs: "nx' u = nx u" "u \<noteq> z \<Longrightarrow> pv' u = pv u" "u = z \<Longrightarrow> pv' u = last (NULL # ys)" if "u \<in> set zs" for u
      using nx'[OF mem(1)[OF that]] pv'[OF mem(1)[OF that]] Cons ly that mid(2) by auto
    show ?thesis unfolding Cons
      by (rule dseg_front[of nx pv x _ z]) (use Cons d(2) mid(6) in_zs in auto)
  qed (use d(2) in simp)
  show ?thesis
  proof (cases ys rule: rev_cases)
    case (snoc us y)
    have "dseg nx' pv' NULL h (us @ [y]) (nx' y)"
      by (rule dseg_end[of nx pv _ _ _ _ x]) (use d(1) snoc mid(6) mem in \<open>auto simp: nx' pv'\<close>)
    with snoc zs nx'[of y] ly show ?thesis by (simp add: dseg_append)
  qed (use zs in simp)
qed

lemma dseg_insert:
  assumes "dseg nx pv NULL h (ys @ zs) NULL" "x \<notin> set (ys @ zs)" "x \<noteq> NULL"
    and nx': "\<And>u. nx' u = (if u = x then (if zs = [] then NULL else hd zs) else if ys \<noteq> [] \<and> u = last ys then x else nx u)"
    and pv': "\<And>u. pv' u = (if u = x then last (NULL # ys) else if zs \<noteq> [] \<and> u = hd zs then x else pv u)"
  shows "dseg nx' pv' NULL (if ys = [] then x else h) (ys @ x # zs) NULL"
proof -
  obtain s where d: "dseg nx pv NULL h ys s" "dseg nx pv (last (NULL # ys)) s zs NULL" using assms(1) by (auto simp: dseg_append)
  have s: "s = (if zs = [] then NULL else hd zs)" using dseg_head[OF d(2)] .
  have dis: "distinct (ys @ zs)" using chain_distinct[OF dseg_chain[OF assms(1)]] .
  have ly: "last ys \<notin> set zs" if "ys \<noteq> []" using dis last_in_set[OF that] by auto
  have zs: "dseg nx' pv' x s zs NULL"
  proof (cases zs)
    case (Cons z zs')
    show ?thesis unfolding Cons
      by (rule dseg_front[of nx pv "last (NULL # ys)" _ z]) (use Cons d(2) dis assms(2) ly nx' pv' in auto)
  qed (use d(2) in simp)
  then have xz: "dseg nx' pv' (last (NULL # ys)) x (x # zs) NULL" using assms(3) s nx'[of x] pv'[of x] by simp
  show ?thesis
  proof (cases ys rule: rev_cases)
    case (snoc us y)
    have "dseg nx' pv' NULL h (us @ [y]) (nx' y)"
      by (rule dseg_end[of nx pv _ _ _ _ s]) (use d(1) snoc dis assms(2) nx' pv' in auto)
    moreover have "nx' y = x" using nx'[of y] snoc assms(2) by auto
    ultimately show ?thesis using snoc xz by (simp add: dseg_append)
  qed (use xz in simp)
qed

end
