(* ===== verification/Tcb.thy ===== *)
theory Tcb
  imports Linked_List
begin

text \<open>
  The task control block of \<open>mini_rtos/include/scheduler.h\<close>, shared by the scheduler, the traffic
  control and the load balancer. Tasks live in a memory \<open>tcb_mem\<close>. Fields that hold addresses of
  stacks are 32-bit words, as the source casts them; \<open>name\<close> is the bytes of the array.
\<close>

datatype sched_policy_t = SCHED_PRIORITY | SCHED_RR | SCHED_EDF | SCHED_HYBRID

datatype task_state_t = TASK_READY | TASK_RUNNING | TASK_BLOCKED | TASK_SUSPENDED | TASK_TERMINATED

abbreviation (input) TASK_PRIORITY_IDLE :: u8 where "TASK_PRIORITY_IDLE \<equiv> 0"
abbreviation (input) TASK_PRIORITY_LOW :: u8 where "TASK_PRIORITY_LOW \<equiv> 1"
abbreviation (input) TASK_PRIORITY_NORMAL :: u8 where "TASK_PRIORITY_NORMAL \<equiv> 2"
abbreviation (input) TASK_PRIORITY_HIGH :: u8 where "TASK_PRIORITY_HIGH \<equiv> 3"
abbreviation (input) TASK_PRIORITY_REALTIME :: u8 where "TASK_PRIORITY_REALTIME \<equiv> 4"
abbreviation (input) MAX_PRIORITY_LEVELS :: u8 where "MAX_PRIORITY_LEVELS \<equiv> 5"

abbreviation (input) MAX_TASKS :: nat where "MAX_TASKS \<equiv> 32"
abbreviation (input) TASK_STACK_SIZE :: nat where "TASK_STACK_SIZE \<equiv> 1024"

abbreviation (input) PREEMPT_DISABLE :: u8 where "PREEMPT_DISABLE \<equiv> 0"
abbreviation (input) PREEMPT_ENABLE :: u8 where "PREEMPT_ENABLE \<equiv> 1"

abbreviation (input) TASK_FLAG_INHERITED :: u32 where "TASK_FLAG_INHERITED \<equiv> 4"
abbreviation (input) TASK_FLAG_DEADLINE :: u32 where "TASK_FLAG_DEADLINE \<equiv> 8"

record tcb_t =
  tcb_id :: u32
  tcb_name :: "u8 list"
  tcb_state :: task_state_t
  tcb_priority :: u8
  tcb_original_priority :: u8
  tcb_time_slice :: u32
  tcb_ticks_remaining :: u32
  tcb_flags :: u32
  tcb_policy :: sched_policy_t
  tcb_deadline :: u32
  tcb_period :: u32
  tcb_execution_time :: u32
  tcb_arrival_time :: u32
  tcb_stack_ptr :: u32
  tcb_stack_base :: u32
  tcb_stack_size :: u32
  tcb_context :: addr
  tcb_entry_point :: addr
  tcb_arg :: addr
  tcb_blocked_by :: addr
  tcb_blocking :: addr
  tcb_inheritance_depth :: u32
  tcb_run_time :: u32
  tcb_last_run :: u32
  tcb_num_activations :: u32
  tcb_num_preemptions :: u32
  tcb_deadline_misses :: u32
  tcb_next :: addr
  tcb_prev :: addr

type_synonym tcb_mem = "addr \<Rightarrow> tcb_t"

text \<open>A block of zeroes, as \<open>memset\<close> and static storage leave it.\<close>

definition zero_tcb :: tcb_t where
  "zero_tcb = \<lparr>tcb_id = 0, tcb_name = replicate 32 0, tcb_state = TASK_READY, tcb_priority = 0,
     tcb_original_priority = 0, tcb_time_slice = 0, tcb_ticks_remaining = 0, tcb_flags = 0,
     tcb_policy = SCHED_PRIORITY, tcb_deadline = 0, tcb_period = 0, tcb_execution_time = 0,
     tcb_arrival_time = 0, tcb_stack_ptr = 0, tcb_stack_base = 0, tcb_stack_size = 0, tcb_context = NULL,
     tcb_entry_point = NULL, tcb_arg = NULL, tcb_blocked_by = NULL, tcb_blocking = NULL,
     tcb_inheritance_depth = 0, tcb_run_time = 0, tcb_last_run = 0, tcb_num_activations = 0,
     tcb_num_preemptions = 0, tcb_deadline_misses = 0, tcb_next = NULL, tcb_prev = NULL\<rparr>"

text \<open>\<open>p->f = v\<close> through a task pointer.\<close>

definition upd_tcb :: "(tcb_t \<Rightarrow> tcb_t) \<Rightarrow> addr \<Rightarrow> tcb_mem \<Rightarrow> tcb_mem" where
  "upd_tcb f p m = m(p := f (m p))"

abbreviation next_of :: "tcb_mem \<Rightarrow> addr \<Rightarrow> addr" where
  "next_of m p \<equiv> tcb_next (m p)"

lemma upd_tcb_apply [mem_simps]: "upd_tcb f p m q = (if q = p then f (m p) else m q)"
  by (simp add: upd_tcb_def)

lemma next_of_upd [mem_simps]:
  "next_of (upd_tcb (tcb_next_update (\<lambda>_. v)) p m) = (next_of m)(p := v)"
  "(\<And>t. tcb_next (f t) = tcb_next t) \<Longrightarrow> next_of (upd_tcb f p m) = next_of m"
  by (auto simp: upd_tcb_def fun_eq_iff)

end
