(* ===== verification/Traffic_Control.thy ===== *)
theory Traffic_Control
  imports Tcb
begin

text \<open>
  Model of \<open>mini_rtos/src/traffic_control.c\<close>: five FIFO queues of tasks, one per traffic class, each
  behind a token bucket. The queues link the tasks through \<open>tcb_t.next\<close>, so the operations on them
  take and return the task memory. \<open>now\<close> is what \<open>get_system_time\<close> returned; the queue array has
  \<open>TC_MAX_CLASSES\<close> elements, and a write outside of it is \<open>None\<close>.
\<close>

section \<open>Data\<close>

type_synonym traffic_class_t = u32

abbreviation (input) TC_REALTIME :: traffic_class_t where "TC_REALTIME \<equiv> 0"
abbreviation (input) TC_INTERACTIVE :: traffic_class_t where "TC_INTERACTIVE \<equiv> 1"
abbreviation (input) TC_BULK :: traffic_class_t where "TC_BULK \<equiv> 2"
abbreviation (input) TC_BACKGROUND :: traffic_class_t where "TC_BACKGROUND \<equiv> 3"
abbreviation (input) TC_IDLE :: traffic_class_t where "TC_IDLE \<equiv> 4"
abbreviation (input) TC_MAX_CLASSES :: traffic_class_t where "TC_MAX_CLASSES \<equiv> 5"

datatype tc_policy_t = TC_POLICY_STRICT | TC_POLICY_WRR | TC_POLICY_DRR | TC_POLICY_FAIR_QUEUE

record tc_bandwidth_t =
  bw_min_rate :: u32
  bw_max_rate :: u32
  bw_burst_size :: u32
  bw_latency :: u32

record tc_class_config_t =
  cc_class :: traffic_class_t
  cc_policy :: tc_policy_t
  cc_bandwidth :: tc_bandwidth_t
  cc_weight :: u32
  cc_quantum :: u32
  cc_priority :: u32

record tc_stats_t =
  ts_bytes_sent :: u64
  ts_bytes_received :: u64
  ts_packets_sent :: u32
  ts_packets_received :: u32
  ts_drops :: u32
  ts_overruns :: u32
  ts_latency_sum :: u32
  ts_latency_samples :: u32

record tc_shaper_t =
  sh_token_rate :: u32
  sh_bucket_size :: u32
  sh_current_tokens :: u32
  sh_last_update :: u32

record tc_queue_t =
  tq_head :: addr
  tq_tail :: addr
  tq_count :: u32
  tq_total_weight :: u32
  tq_shaper :: tc_shaper_t
  tq_stats :: tc_stats_t
  tq_config :: tc_class_config_t

record tc_state =
  tc_queues :: "tc_queue_t list"
  tc_initialized :: bool

definition zero_stats :: tc_stats_t where
  "zero_stats = \<lparr>ts_bytes_sent = 0, ts_bytes_received = 0, ts_packets_sent = 0, ts_packets_received = 0,
     ts_drops = 0, ts_overruns = 0, ts_latency_sum = 0, ts_latency_samples = 0\<rparr>"

definition zero_queue :: tc_queue_t where
  "zero_queue = \<lparr>tq_head = NULL, tq_tail = NULL, tq_count = 0, tq_total_weight = 0,
     tq_shaper = \<lparr>sh_token_rate = 0, sh_bucket_size = 0, sh_current_tokens = 0, sh_last_update = 0\<rparr>,
     tq_stats = zero_stats,
     tq_config = \<lparr>cc_class = 0, cc_policy = TC_POLICY_STRICT,
       cc_bandwidth = \<lparr>bw_min_rate = 0, bw_max_rate = 0, bw_burst_size = 0, bw_latency = 0\<rparr>,
       cc_weight = 0, cc_quantum = 0, cc_priority = 0\<rparr>\<rparr>"

text \<open>Static storage before \<open>tc_init\<close>.\<close>

definition tc_boot :: tc_state where
  "tc_boot = \<lparr>tc_queues = replicate 5 zero_queue, tc_initialized = False\<rparr>"

abbreviation tc_queue :: "tc_state \<Rightarrow> traffic_class_t \<Rightarrow> tc_queue_t" where
  "tc_queue s class \<equiv> tc_queues s ! unat class"

definition upd_queue :: "(tc_queue_t \<Rightarrow> tc_queue_t) \<Rightarrow> traffic_class_t \<Rightarrow> tc_state \<Rightarrow> tc_state" where
  "upd_queue f class s = s\<lparr>tc_queues := (tc_queues s)[unat class := f (tc_queue s class)]\<rparr>"

section \<open>Token bucket\<close>

definition update_shaper :: "u32 \<Rightarrow> tc_shaper_t \<Rightarrow> tc_shaper_t" where
  "update_shaper now sh =
     (let elapsed = now - sh_last_update sh;
          new_tokens = (elapsed * sh_token_rate sh) div 1000
      in sh\<lparr>sh_current_tokens := min (sh_bucket_size sh) (sh_current_tokens sh + new_tokens),
            sh_last_update := now\<rparr>)"

definition consume_tokens :: "u32 \<Rightarrow> tc_shaper_t \<Rightarrow> u32 \<Rightarrow> tc_shaper_t \<times> bool" where
  "consume_tokens now sh tokens =
     (let sh = update_shaper now sh in
      if sh_current_tokens sh \<ge> tokens
      then (sh\<lparr>sh_current_tokens := sh_current_tokens sh - tokens\<rparr>, True)
      else (sh, False))"

definition tc_check_rate :: "u32 \<Rightarrow> tc_state \<Rightarrow> traffic_class_t \<Rightarrow> u32 \<Rightarrow> tc_state \<times> bool" where
  "tc_check_rate now s class sz =
     (if class \<ge> TC_MAX_CLASSES then (s, False)
      else let (sh, ok) = consume_tokens now (tq_shaper (tc_queue s class)) sz
           in (upd_queue (tq_shaper_update (\<lambda>_. sh)) class s, ok))"

definition tc_update_tokens :: "u32 \<Rightarrow> tc_shaper_t option \<Rightarrow> tc_shaper_t option" where
  "tc_update_tokens now shaper = map_option (update_shaper now) shaper"

definition tc_shape_traffic :: "u32 \<Rightarrow> tc_state \<Rightarrow> traffic_class_t \<Rightarrow> u32 \<Rightarrow> tc_state \<times> int" where
  "tc_shape_traffic now s class sz =
     (if class \<ge> TC_MAX_CLASSES then (s, -1)
      else let (s, ok) = tc_check_rate now s class sz in
        if \<not> ok
        then (upd_queue (tq_stats_update (ts_drops_update (\<lambda>n. n + 1))) class s, -1)
        else (s, 0))"

section \<open>Initialisation and class management\<close>

text \<open>One iteration of the loop of \<open>tc_init\<close>.\<close>

definition tc_init_queue :: "u32 \<Rightarrow> nat \<Rightarrow> tc_queue_t" where
  "tc_init_queue now i =
     zero_queue\<lparr>
       tq_config := \<lparr>cc_class = of_nat i, cc_policy = TC_POLICY_STRICT,
         cc_bandwidth = \<lparr>bw_min_rate = 0, bw_max_rate = UINT32_MAX, bw_burst_size = 16384, bw_latency = 1000\<rparr>,
         cc_weight = 0, cc_quantum = 0, cc_priority = TC_MAX_CLASSES - of_nat i - 1\<rparr>,
       tq_shaper := \<lparr>sh_token_rate = UINT32_MAX, sh_bucket_size = 16384, sh_current_tokens = 16384,
         sh_last_update = now\<rparr>\<rparr>"

text \<open>\<open>now i\<close> is the time read in iteration \<open>i\<close>.\<close>

definition tc_init :: "(nat \<Rightarrow> u32) \<Rightarrow> tc_state \<Rightarrow> tc_state" where
  "tc_init now s =
     (if tc_initialized s then s
      else s\<lparr>tc_queues := map (\<lambda>i. tc_init_queue (now i) i) [0..<5], tc_initialized := True\<rparr>)"

definition tc_flush_queue :: "tc_state \<Rightarrow> traffic_class_t \<Rightarrow> tc_state" where
  "tc_flush_queue s class =
     (if class \<ge> TC_MAX_CLASSES then s
      else upd_queue (\<lambda>q. q\<lparr>tq_head := NULL, tq_tail := NULL, tq_count := 0\<rparr>) class s)"

definition tc_shutdown :: "tc_state \<Rightarrow> tc_state" where
  "tc_shutdown s =
     (if \<not> tc_initialized s then s
      else (fold (\<lambda>i s. tc_flush_queue s (of_nat i)) [0..<5] s)\<lparr>tc_initialized := False\<rparr>)"

text \<open>\<open>None\<close> is the pointer \<open>NULL\<close>.\<close>

definition tc_create_class :: "u32 \<Rightarrow> tc_state \<Rightarrow> tc_class_config_t option \<Rightarrow> tc_state \<times> int" where
  "tc_create_class now s config =
     (case config of None \<Rightarrow> (s, -1)
      | Some c \<Rightarrow>
        if cc_class c \<ge> TC_MAX_CLASSES then (s, -1)
        else (upd_queue (\<lambda>q. q\<lparr>tq_config := c,
                tq_shaper := \<lparr>sh_token_rate = bw_max_rate (cc_bandwidth c), sh_bucket_size = bw_burst_size (cc_bandwidth c),
                  sh_current_tokens = bw_burst_size (cc_bandwidth c), sh_last_update = now\<rparr>\<rparr>) (cc_class c) s, 0))"

definition tc_modify_class :: "tc_state \<Rightarrow> traffic_class_t \<Rightarrow> tc_class_config_t option \<Rightarrow> tc_state \<times> int" where
  "tc_modify_class s class config =
     (case config of None \<Rightarrow> (s, -1)
      | Some c \<Rightarrow>
        if class \<ge> TC_MAX_CLASSES then (s, -1)
        else (upd_queue (\<lambda>q. q\<lparr>tq_config := c,
                tq_shaper := (tq_shaper q)\<lparr>sh_token_rate := bw_max_rate (cc_bandwidth c),
                  sh_bucket_size := bw_burst_size (cc_bandwidth c)\<rparr>\<rparr>) class s, 0))"

definition tc_delete_class :: "tc_state \<Rightarrow> traffic_class_t \<Rightarrow> tc_state \<times> int" where
  "tc_delete_class s class =
     (if class \<ge> TC_MAX_CLASSES then (s, -1)
      else (upd_queue (\<lambda>_. zero_queue) class (tc_flush_queue s class), 0))"

section \<open>Task classification\<close>

definition tc_assign_task_class :: "tcb_mem \<Rightarrow> addr \<Rightarrow> traffic_class_t \<Rightarrow> tcb_mem \<times> int" where
  "tc_assign_task_class m task class =
     (if task = NULL \<or> class \<ge> TC_MAX_CLASSES then (m, -1)
      else (upd_tcb (tcb_flags_update (\<lambda>fl. (fl AND NOT 0xFF000000) OR push_bit 24 class)) task m, 0))"

definition tc_get_task_class :: "tcb_mem \<Rightarrow> addr \<Rightarrow> traffic_class_t" where
  "tc_get_task_class m task =
     (if task = NULL then TC_IDLE else drop_bit 24 (tcb_flags (m task)) AND 0xFF)"

section \<open>Queues\<close>

definition tc_enqueue_task :: "u32 \<Rightarrow> tcb_mem \<Rightarrow> tc_state \<Rightarrow> addr \<Rightarrow> (tcb_mem \<times> tc_state \<times> int) option" where
  "tc_enqueue_task now m s task =
     (if task = NULL then Some (m, s, -1)
      else
        let class = tc_get_task_class m task; (s, ok) = tc_check_rate now s class 1 in
        if \<not> ok then
          if unat class < length (tc_queues s)
          then Some (m, upd_queue (tq_stats_update (ts_drops_update (\<lambda>n. n + 1))) class s, -1)
          else None
        else
          (let (m, s) = (if tq_head (tc_queue s class) = NULL
                         then (m, upd_queue (\<lambda>q. q\<lparr>tq_head := task, tq_tail := task\<rparr>) class s)
                         else (upd_tcb (tcb_next_update (\<lambda>_. task)) (tq_tail (tc_queue s class)) m,
                               upd_queue (\<lambda>q. q\<lparr>tq_tail := task\<rparr>) class s));
               m = upd_tcb (tcb_next_update (\<lambda>_. NULL)) task m
           in Some (m, upd_queue (tq_count_update (\<lambda>n. n + 1)) class s, 0)))"

fun tc_dequeue_loop :: "nat list \<Rightarrow> tcb_mem \<Rightarrow> tc_state \<Rightarrow> tcb_mem \<times> tc_state \<times> addr" where
  "tc_dequeue_loop [] m s = (m, s, NULL)"
| "tc_dequeue_loop (i # is) m s =
     (let q = tc_queues s ! i in
      if tq_head q \<noteq> NULL then
        (let task = tq_head q;
             q = q\<lparr>tq_head := next_of m task\<rparr>;
             q = (if tq_head q = NULL then q\<lparr>tq_tail := NULL\<rparr> else q);
             m = upd_tcb (tcb_next_update (\<lambda>_. NULL)) task m;
             q = q\<lparr>tq_count := tq_count q - 1, tq_stats := ts_packets_sent_update (\<lambda>n. n + 1) (tq_stats q)\<rparr>
         in (m, s\<lparr>tc_queues := (tc_queues s)[i := q]\<rparr>, task))
      else tc_dequeue_loop is m s)"

definition tc_dequeue_task :: "tcb_mem \<Rightarrow> tc_state \<Rightarrow> tcb_mem \<times> tc_state \<times> addr" where
  "tc_dequeue_task m s = tc_dequeue_loop [0..<5] m s"

section \<open>Statistics, policies and resource control\<close>

definition tc_get_stats :: "tc_state \<Rightarrow> traffic_class_t \<Rightarrow> tc_stats_t option" where
  "tc_get_stats s class = (if class \<ge> TC_MAX_CLASSES then None else Some (tq_stats (tc_queue s class)))"

definition tc_reset_stats :: "tc_state \<Rightarrow> traffic_class_t \<Rightarrow> tc_state" where
  "tc_reset_stats s class =
     (if class \<ge> TC_MAX_CLASSES then s else upd_queue (tq_stats_update (\<lambda>_. zero_stats)) class s)"

text \<open>The quotient the source rounds to \<open>float\<close>, as a fraction.\<close>

definition tc_get_average_latency :: "tc_state \<Rightarrow> traffic_class_t \<Rightarrow> nat \<times> nat" where
  "tc_get_average_latency s class =
     (if class \<ge> TC_MAX_CLASSES then (0, 1)
      else let st = tq_stats (tc_queue s class) in
        if ts_latency_samples st = 0 then (0, 1)
        else (unat (ts_latency_sum st), unat (ts_latency_samples st)))"

definition tc_get_drop_rate :: "tc_state \<Rightarrow> traffic_class_t \<Rightarrow> u32" where
  "tc_get_drop_rate s class =
     (if class \<ge> TC_MAX_CLASSES then 0
      else let st = tq_stats (tc_queue s class); total = ts_packets_sent st + ts_drops st in
        if total = 0 then 0 else (ts_drops st * 100) div total)"

definition tc_set_policy :: "tc_state \<Rightarrow> traffic_class_t \<Rightarrow> tc_policy_t \<Rightarrow> tc_state \<times> int" where
  "tc_set_policy s class policy =
     (if class \<ge> TC_MAX_CLASSES then (s, -1)
      else (upd_queue (tq_config_update (cc_policy_update (\<lambda>_. policy))) class s, 0))"

definition tc_get_policy :: "tc_state \<Rightarrow> traffic_class_t \<Rightarrow> tc_policy_t" where
  "tc_get_policy s class =
     (if class \<ge> TC_MAX_CLASSES then TC_POLICY_STRICT else cc_policy (tq_config (tc_queue s class)))"

definition tc_set_cpu_share :: "tc_state \<Rightarrow> traffic_class_t \<Rightarrow> u8 \<Rightarrow> tc_state" where
  "tc_set_cpu_share s class percentage =
     (if class \<ge> TC_MAX_CLASSES \<or> percentage > 100 then s
      else upd_queue (tq_config_update (cc_weight_update (\<lambda>_. ucast percentage))) class s)"

definition tc_set_memory_limit :: "tc_state \<Rightarrow> traffic_class_t \<Rightarrow> u32 \<Rightarrow> tc_state" where
  "tc_set_memory_limit s class bytes =
     (if class \<ge> TC_MAX_CLASSES then s
      else upd_queue (tq_config_update (cc_bandwidth_update (bw_max_rate_update (\<lambda>_. bytes)))) class s)"

definition tc_set_io_priority :: "tc_state \<Rightarrow> traffic_class_t \<Rightarrow> u8 \<Rightarrow> tc_state" where
  "tc_set_io_priority s class prio =
     (if class \<ge> TC_MAX_CLASSES then s
      else upd_queue (tq_config_update (cc_priority_update (\<lambda>_. ucast prio))) class s)"

section \<open>Maintenance\<close>

text \<open>The warnings \<open>tc_verify_configuration\<close> prints: class, counted tasks, stored count.\<close>

partial_function (option) tc_count_tasks :: "tcb_mem \<Rightarrow> addr \<Rightarrow> u32 \<Rightarrow> u32 option" where
  "tc_count_tasks m task n = (if task \<noteq> NULL then tc_count_tasks m (next_of m task) (n + 1) else Some n)"

fun tc_verify_loop :: "nat list \<Rightarrow> tcb_mem \<Rightarrow> tc_state \<Rightarrow> (nat \<times> u32 \<times> u32) list option" where
  "tc_verify_loop [] m s = Some []"
| "tc_verify_loop (i # is) m s =
     Option.bind (tc_count_tasks m (tq_head (tc_queues s ! i)) 0) (\<lambda>count.
       map_option (\<lambda>ws. if count \<noteq> tq_count (tc_queues s ! i) then (i, count, tq_count (tc_queues s ! i)) # ws else ws)
         (tc_verify_loop is m s))"

definition tc_verify_configuration :: "tcb_mem \<Rightarrow> tc_state \<Rightarrow> (nat \<times> u32 \<times> u32) list option" where
  "tc_verify_configuration m s = tc_verify_loop [0..<5] m s"

definition tc_class_to_string :: "traffic_class_t \<Rightarrow> string" where
  "tc_class_to_string class =
     (if class \<ge> TC_MAX_CLASSES then ''UNKNOWN''
      else [''REALTIME'', ''INTERACTIVE'', ''BULK'', ''BACKGROUND'', ''IDLE''] ! unat class)"

end
