(* ===== verification/Traffic_Control_Spec.thy ===== *)
theory Traffic_Control_Spec
  imports Traffic_Control
begin

text \<open>
  What \<open>traffic_control.c\<close> promises. \<open>tc_rep m s xss\<close> relates the five linked queues to five lists of
  tasks; \<open>tc_enqueue_task\<close> appends to the list of the task's class when its bucket has a token, and
  \<open>tc_dequeue_task\<close> takes the first task of the first non-empty class, which is the interface
  \<open>class_queue\<close>. The token bucket never grants more than its initial content and rate allow.
\<close>

section \<open>Queues\<close>

definition queue_ok :: "tcb_mem \<Rightarrow> tc_queue_t \<Rightarrow> addr list \<Rightarrow> bool" where
  "queue_ok m q xs \<longleftrightarrow> fifo (next_of m) (tq_head q) (tq_tail q) xs \<and> tq_count q = of_nat (length xs)"

definition tc_rep :: "tcb_mem \<Rightarrow> tc_state \<Rightarrow> addr list list \<Rightarrow> bool" where
  "tc_rep m s xss \<longleftrightarrow> length (tc_queues s) = 5 \<and> length xss = 5 \<and>
     (\<forall>i < 5. queue_ok m (tc_queues s ! i) (xss ! i)) \<and> distinct (concat xss)"

lemma distinct_concat_disjoint:
  "distinct (concat xss) \<Longrightarrow> i < length xss \<Longrightarrow> j < length xss \<Longrightarrow> i \<noteq> j \<Longrightarrow> x \<in> set (xss ! i) \<Longrightarrow> x \<notin> set (xss ! j)"
proof (induction xss arbitrary: i j)
  case (Cons ys xss)
  have mem: "x \<in> set (xss ! k) \<Longrightarrow> k < length xss \<Longrightarrow> x \<in> set (concat xss)" for k by force
  have d: "distinct (concat xss)" "set ys \<inter> set (concat xss) = {}" using Cons.prems(1) by auto
  show ?case
  proof (cases i)
    case 0
    then obtain k where "j = Suc k" using Cons.prems(4) by (cases j) auto
    then show ?thesis using 0 Cons.prems(3,5) d(2) mem[of k] by auto
  next
    case (Suc a)
    show ?thesis
    proof (cases j)
      case 0
      then show ?thesis using Suc Cons.prems(2,5) d(2) mem[of a] by auto
    next
      case (Suc b)
      then show ?thesis using \<open>i = Suc a\<close> Cons.prems(2-5) Cons.IH[OF d(1), of a b] by simp
    qed
  qed
qed simp

lemma concat_update_split:
  "i < length xss \<Longrightarrow> \<exists>A B. concat xss = A @ xss ! i @ B \<and> (\<forall>ys. concat (xss[i := ys]) = A @ ys @ B)"
  by (rule exI[of _ "concat (take i xss)"], rule exI[of _ "concat (drop (Suc i) xss)"])
     (simp add: upd_conv_take_nth_drop, subst id_take_nth_drop, assumption, simp)

lemma queue_ok_frame:
  assumes "queue_ok m q xs" and "\<forall>p \<in> set xs. next_of m' p = next_of m p"
  shows "queue_ok m' q xs"
  using assms chain_cong[of xs "next_of m'" "next_of m"] by (auto simp: queue_ok_def fifo_def)

lemma less_TC_MAX: "class < TC_MAX_CLASSES \<Longrightarrow> unat class < 5"
  using unat_mono[of "class" TC_MAX_CLASSES] by simp

lemma tc_rep_update:
  assumes rep: "tc_rep m s xss" and i: "i < 5" and q: "queue_ok m' q ys"
    and fr: "\<forall>j < 5. j \<noteq> i \<longrightarrow> (\<forall>p \<in> set (xss ! j). next_of m' p = next_of m p)"
    and d: "distinct (concat (xss[i := ys]))"
  shows "tc_rep m' (s\<lparr>tc_queues := (tc_queues s)[i := q]\<rparr>) (xss[i := ys])"
proof -
  have "queue_ok m' ((tc_queues s)[i := q] ! j) (xss[i := ys] ! j)" if "j < 5" for j
    using that rep q fr queue_ok_frame[of m "tc_queues s ! j" "xss ! j" m']
    by (cases "j = i") (auto simp: tc_rep_def)
  with rep d show ?thesis by (simp add: tc_rep_def)
qed

lemma tc_rep_same_queues:
  assumes "tc_rep m s xss" "i < 5" "tq_head q = tq_head (tc_queues s ! i)" "tq_tail q = tq_tail (tc_queues s ! i)"
    "tq_count q = tq_count (tc_queues s ! i)"
  shows "tc_rep m (s\<lparr>tc_queues := (tc_queues s)[i := q]\<rparr>) xss"
proof -
  have "queue_ok m q (xss ! i)" using assms by (auto simp: tc_rep_def queue_ok_def)
  from tc_rep_update[OF assms(1,2) this] assms(1,2) show ?thesis by (auto simp: tc_rep_def)
qed

lemma tc_enqueue_ok:
  assumes rep: "tc_rep m s xss" and t: "task \<noteq> NULL" "task \<notin> set (concat xss)"
    and c: "tc_get_task_class m task = class" "class < TC_MAX_CLASSES"
  shows "\<exists>m' s' r. tc_enqueue_task now m s task = Some (m', s', r) \<and>
     (if snd (consume_tokens now (tq_shaper (tc_queue s class)) 1)
      then r = 0 \<and> tc_rep m' s' (xss[unat class := xss ! unat class @ [task]])
      else r = -1 \<and> m' = m \<and> tc_rep m' s' xss)"
proof -
  have i: "unat class < 5" using c(2) by (rule less_TC_MAX)
  have len: "length (tc_queues s) = 5" "length xss = 5" using rep by (auto simp: tc_rep_def)
  obtain sh ok where sh: "consume_tokens now (tq_shaper (tc_queue s class)) 1 = (sh, ok)" by fastforce
  let ?q = "(tc_queue s class)\<lparr>tq_shaper := sh\<rparr>"
  let ?s = "s\<lparr>tc_queues := (tc_queues s)[unat class := ?q]\<rparr>"
  have cr: "tc_check_rate now s class 1 = (?s, ok)" using c(2) sh by (simp add: tc_check_rate_def upd_queue_def not_le[symmetric])
  show ?thesis
  proof (cases ok)
    case False
    have "tc_rep m (?s\<lparr>tc_queues := (tc_queues ?s)[unat class := tq_stats_update (ts_drops_update (\<lambda>n. n + 1)) ?q]\<rparr>) xss"
      by (intro tc_rep_same_queues rep) (use i len in auto)
    with False cr c t sh i len show ?thesis
      by (auto simp: tc_enqueue_task_def Let_def upd_queue_def)
  next
    case True
    let ?xs = "xss ! unat class"
    let ?h = "tq_head (tc_queue s class)" and ?tp = "tq_tail (tc_queue s class)"
    have q: "queue_ok m (tc_queue s class) ?xs" using rep i by (simp add: tc_rep_def)
    have nt: "task \<notin> set (xss ! j)" if "j < 5" for j using t(2) that len nth_mem[of j xss] by auto
    note tn = nt[OF i]
    define m' where "m' = upd_tcb (tcb_next_update (\<lambda>_. NULL)) task
      (if ?h = NULL then m else upd_tcb (tcb_next_update (\<lambda>_. task)) ?tp m)"
    define q' where "q' = tq_count_update (\<lambda>n. n + 1) (?q\<lparr>tq_head := (if ?h = NULL then task else ?h), tq_tail := task\<rparr>)"
    have nx: "next_of m' = (if ?h = NULL then (next_of m)(task := NULL) else (next_of m)(?tp := task, task := NULL))"
      by (simp add: m'_def next_of_upd)
    have "queue_ok m' q' (?xs @ [task])"
      using fifo_snoc[of "next_of m" ?h ?tp ?xs task] q t(1) tn nx
      by (auto simp: queue_ok_def q'_def split: if_splits)
    moreover have tp: "?h \<noteq> NULL \<Longrightarrow> ?tp \<in> set ?xs"
      using q by (auto simp: queue_ok_def fifo_def chain_nonnull)
    have "\<forall>j < 5. j \<noteq> unat class \<longrightarrow> (\<forall>p \<in> set (xss ! j). next_of m' p = next_of m p)"
    proof (intro allI impI ballI)
      fix j p assume j: "j < 5" "j \<noteq> unat class" "p \<in> set (xss ! j)"
      have "p \<noteq> task" using nt[OF j(1)] j(3) by blast
      moreover have "?h \<noteq> NULL \<Longrightarrow> p \<noteq> ?tp"
        using tp distinct_concat_disjoint[of xss "unat class" j ?tp] rep i j len by (auto simp: tc_rep_def)
      ultimately show "next_of m' p = next_of m p" using fun_cong[OF nx, of p] by auto
    qed
    moreover have "distinct (concat (xss[unat class := ?xs @ [task]]))"
    proof -
      obtain A B where "concat xss = A @ ?xs @ B" "\<forall>ys. concat (xss[unat class := ys]) = A @ ys @ B"
        using concat_update_split[of "unat class" xss] i len by auto
      with rep t(2) show ?thesis by (auto simp: tc_rep_def)
    qed
    ultimately have "tc_rep m' (s\<lparr>tc_queues := (tc_queues s)[unat class := q']\<rparr>) (xss[unat class := ?xs @ [task]])"
      by (rule tc_rep_update[OF rep i])
    moreover have "tc_enqueue_task now m s task = Some (m', s\<lparr>tc_queues := (tc_queues s)[unat class := q']\<rparr>, 0)"
      using True cr c t i len by (simp add: tc_enqueue_task_def Let_def upd_queue_def m'_def q'_def)
    ultimately show ?thesis using True sh by auto
  qed
qed

lemma tc_dequeue_loop_skip:
  "\<forall>i \<in> set is. tq_head (tc_queues s ! i) = NULL \<Longrightarrow> tc_dequeue_loop (is @ js) m s = tc_dequeue_loop js m s"
  by (induction "is") auto

lemma tc_rep_head: "tc_rep m s xss \<Longrightarrow> i < 5 \<Longrightarrow> tq_head (tc_queues s ! i) = (if xss ! i = [] then NULL else hd (xss ! i))"
  by (cases "xss ! i") (auto simp: tc_rep_def queue_ok_def fifo_def)

lemma tc_dequeue_empty:
  assumes "tc_rep m s xss" "concat xss = []"
  shows "tc_dequeue_task m s = (m, s, NULL)"
proof -
  have "\<forall>i \<in> set [0..<5]. tq_head (tc_queues s ! i) = NULL"
    using assms tc_rep_head[OF assms(1)] by (auto simp: tc_rep_def concat_eq_Nil_conv)
  from tc_dequeue_loop_skip[OF this, of "[]" m] show ?thesis by (simp add: tc_dequeue_task_def)
qed

lemma tc_dequeue_first:
  assumes rep: "tc_rep m s xss" and i: "i < 5" "xss ! i = x # ys" "\<forall>j < i. xss ! j = []"
  shows "\<exists>m' s'. tc_dequeue_task m s = (m', s', x) \<and> tc_rep m' s' (xss[i := ys])"
proof -
  let ?q = "tc_queues s ! i"
  have len: "length xss = 5" "length (tc_queues s) = 5" using rep by (auto simp: tc_rep_def)
  have h: "tq_head ?q = x" using tc_rep_head[OF rep i(1)] i(2) by simp
  have f: "fifo (next_of m) (tq_head ?q) (tq_tail ?q) (x # ys)" "tq_count ?q = of_nat (length (x # ys))"
    using rep i by (auto simp: tc_rep_def queue_ok_def)
  then have x: "x \<noteq> NULL" by (auto simp: fifo_def)
  have "fifo (next_of m) x (tq_tail ?q) (x # ys)" using f(1) h by simp
  from fifo_tail[OF this x, of NULL]
  have f': "fifo ((next_of m)(x := NULL)) (next_of m x) (if next_of m x = NULL then NULL else tq_tail ?q) ys" by blast
  define m' where "m' = upd_tcb (tcb_next_update (\<lambda>_. NULL)) x m"
  define q' where "q' = ?q\<lparr>tq_head := next_of m x, tq_tail := (if next_of m x = NULL then NULL else tq_tail ?q),
    tq_count := tq_count ?q - 1, tq_stats := ts_packets_sent_update (\<lambda>n. n + 1) (tq_stats ?q)\<rparr>"
  have nx: "next_of m' = (next_of m)(x := NULL)" by (simp add: m'_def next_of_upd)
  have sp: "[0..<5] = [0..<i] @ i # [Suc i..<5]" using i(1) by (metis add.commute add_diff_inverse_nat less_imp_le not_le upt_add_eq_append upt_conv_Cons zero_le)
  have "\<forall>j \<in> set [0..<i]. tq_head (tc_queues s ! j) = NULL" using i tc_rep_head[OF rep] by auto
  from tc_dequeue_loop_skip[OF this, of "i # [Suc i..<5]" m]
  have "tc_dequeue_task m s = tc_dequeue_loop (i # [Suc i..<5]) m s" by (simp only: tc_dequeue_task_def sp)
  also have "\<dots> = (m', s\<lparr>tc_queues := (tc_queues s)[i := q']\<rparr>, x)"
    using h x by (simp add: Let_def m'_def q'_def)
  finally have 1: "tc_dequeue_task m s = (m', s\<lparr>tc_queues := (tc_queues s)[i := q']\<rparr>, x)" .
  have "queue_ok m' q' ys" using f' f(2) nx by (simp add: queue_ok_def q'_def)
  moreover have "\<forall>j < 5. j \<noteq> i \<longrightarrow> (\<forall>p \<in> set (xss ! j). next_of m' p = next_of m p)"
  proof (intro allI impI ballI)
    fix j p assume "j < 5" "j \<noteq> i" "p \<in> set (xss ! j)"
    then have "p \<noteq> x" using distinct_concat_disjoint[of xss i j x] rep i len by (auto simp: tc_rep_def)
    then show "next_of m' p = next_of m p" using fun_cong[OF nx, of p] by simp
  qed
  moreover have "distinct (concat (xss[i := ys]))"
  proof -
    obtain A B where "concat xss = A @ (x # ys) @ B" "\<forall>zs. concat (xss[i := zs]) = A @ zs @ B"
      using concat_update_split[of i xss] i len by auto
    with rep show ?thesis by (auto simp: tc_rep_def)
  qed
  ultimately have "tc_rep m' (s\<lparr>tc_queues := (tc_queues s)[i := q']\<rparr>) (xss[i := ys])"
    by (rule tc_rep_update[OF rep i(1)])
  with 1 show ?thesis by blast
qed

section \<open>The interface: strict priority between classes, first come first served in each\<close>

fun drain :: "('s \<Rightarrow> 's \<times> 'v option) \<Rightarrow> nat \<Rightarrow> 's \<Rightarrow> 'v list" where
  "drain deq 0 s = []"
| "drain deq (Suc n) s = (case deq s of (s', None) \<Rightarrow> [] | (s', Some v) \<Rightarrow> v # drain deq n s')"

locale class_queue =
  fixes rep :: "'s \<Rightarrow> 'v list list \<Rightarrow> bool"
    and deq :: "'s \<Rightarrow> 's \<times> 'v option"
  assumes deq_empty: "rep s xss \<Longrightarrow> concat xss = [] \<Longrightarrow> deq s = (s, None)"
    and deq_first: "rep s xss \<Longrightarrow> i < length xss \<Longrightarrow> xss ! i = x # ys \<Longrightarrow> \<forall>j < i. xss ! j = [] \<Longrightarrow>
      \<exists>s'. deq s = (s', Some x) \<and> rep s' (xss[i := ys])"
begin

lemma first_nonempty:
  assumes "concat xss = x # zs"
  obtains i ys where "i < length xss" "xss ! i = x # ys" "\<forall>j < i. xss ! j = []" "concat (xss[i := ys]) = zs"
  using assms
proof (induction xss arbitrary: thesis)
  case (Cons us xss)
  show ?case
  proof (cases us)
    case Nil
    with Cons.prems(2) have "concat xss = x # zs" by simp
    then obtain i ys where i: "i < length xss" "xss ! i = x # ys" "\<forall>j < i. xss ! j = []" "concat (xss[i := ys]) = zs"
      using Cons.IH by blast
    show ?thesis by (rule Cons.prems(1)[of "Suc i" ys]) (use i Nil in \<open>auto simp: less_Suc_eq_0_disj\<close>)
  next
    case (Cons u us')
    then show ?thesis using Cons.prems by (intro Cons.prems(1)[of 0 us']) auto
  qed
qed simp

lemma deq_head:
  assumes "rep s xss" "concat xss = x # zs"
  shows "\<exists>s' yss. deq s = (s', Some x) \<and> rep s' yss \<and> concat yss = zs"
  using first_nonempty[OF assms(2)] deq_first[OF assms(1)] by metis

lemma drain_all:
  assumes "rep s xss"
  shows "drain deq n s = take n (concat xss)"
  using assms
proof (induction n arbitrary: s xss)
  case (Suc n)
  show ?case
  proof (cases "concat xss")
    case Nil
    with deq_empty[OF Suc.prems] show ?thesis by simp
  next
    case (Cons x zs)
    with deq_head[OF Suc.prems] obtain s' yss where "deq s = (s', Some x)" "rep s' yss" "concat yss = zs" by blast
    with Suc.IH Cons show ?thesis by simp
  qed
qed simp

end

definition tc_deq :: "tcb_mem \<times> tc_state \<Rightarrow> (tcb_mem \<times> tc_state) \<times> addr option" where
  "tc_deq ms = (let (m, s, task) = tc_dequeue_task (fst ms) (snd ms) in ((m, s), if task = NULL then None else Some task))"

interpretation tcq: class_queue "\<lambda>(m, s). tc_rep m s" tc_deq
proof unfold_locales
  fix ms :: "tcb_mem \<times> tc_state" and xss :: "addr list list"
  obtain m s where ms: "ms = (m, s)" by fastforce
  assume rep: "(\<lambda>(m, s). tc_rep m s) ms xss"
  show "concat xss = [] \<Longrightarrow> tc_deq ms = (ms, None)"
    using rep tc_dequeue_empty[of m s xss] ms by (simp add: tc_deq_def)
  fix i x ys
  assume i: "i < length xss" "xss ! i = x # ys" "\<forall>j < i. xss ! j = []"
  have r: "tc_rep m s xss" using rep ms by simp
  have i5: "i < 5" using i(1) r by (simp add: tc_rep_def)
  have "x \<noteq> NULL" using r i5 i(2) by (auto simp: tc_rep_def queue_ok_def fifo_def)
  with tc_dequeue_first[OF r i5 i(2,3)] ms
  show "\<exists>s'. tc_deq ms = (s', Some x) \<and> (\<lambda>(m, s). tc_rep m s) s' (xss[i := ys])"
    by (auto simp: tc_deq_def)
qed

section \<open>The token bucket\<close>

lemma unat_add_le: "unat (a + b) \<le> unat a + unat (b :: u32)"
  by (simp add: unat_word_ariths)

lemma unat_mult_le: "unat (a * b) \<le> unat a * unat (b :: u32)"
  by (simp add: unat_word_ariths)

lemma update_shaper_tokens:
  "unat (sh_current_tokens (update_shaper now sh)) \<le>
     unat (sh_current_tokens sh) + unat (now - sh_last_update sh) * unat (sh_token_rate sh) div 1000"
  "sh_current_tokens (update_shaper now sh) \<le> sh_bucket_size sh"
  "sh_last_update (update_shaper now sh) = now" "sh_token_rate (update_shaper now sh) = sh_token_rate sh"
  "sh_bucket_size (update_shaper now sh) = sh_bucket_size sh"
proof -
  let ?n = "((now - sh_last_update sh) * sh_token_rate sh) div 1000"
  have "unat ?n \<le> unat (now - sh_last_update sh) * unat (sh_token_rate sh) div 1000"
    using unat_mult_le[of "now - sh_last_update sh" "sh_token_rate sh"] by (simp add: unat_div div_le_mono)
  moreover have "unat (min (sh_bucket_size sh) (sh_current_tokens sh + ?n)) \<le> unat (sh_current_tokens sh + ?n)"
    by (simp add: word_le_nat_alt[symmetric])
  ultimately show "unat (sh_current_tokens (update_shaper now sh)) \<le>
     unat (sh_current_tokens sh) + unat (now - sh_last_update sh) * unat (sh_token_rate sh) div 1000"
    using unat_add_le[of "sh_current_tokens sh" ?n] by (simp add: update_shaper_def Let_def)
qed (simp_all add: update_shaper_def Let_def)

text \<open>A run of requests (time, size): the tokens granted and the final bucket.\<close>

fun shaper_run :: "tc_shaper_t \<Rightarrow> (u32 \<times> u32) list \<Rightarrow> nat \<times> tc_shaper_t" where
  "shaper_run sh [] = (0, sh)"
| "shaper_run sh ((now, sz) # rs) =
     (let (sh, ok) = consume_tokens now sh sz; (g, sh) = shaper_run sh rs
      in ((if ok then unat sz else 0) + g, sh))"

lemma consume_tokens_step:
  assumes "consume_tokens now sh sz = (sh', ok)"
  shows "(if ok then unat sz else 0) + unat (sh_current_tokens sh') \<le>
      unat (sh_current_tokens sh) + unat (now - sh_last_update sh) * unat (sh_token_rate sh) div 1000"
    and "sh_last_update sh' = now" "sh_token_rate sh' = sh_token_rate sh" "sh_bucket_size sh' = sh_bucket_size sh"
    and "sh_current_tokens sh' \<le> sh_bucket_size sh'"
proof -
  let ?u = "update_shaper now sh"
  have c: "sh' = (if ok then ?u\<lparr>sh_current_tokens := sh_current_tokens ?u - sz\<rparr> else ?u)" "ok \<longleftrightarrow> sz \<le> sh_current_tokens ?u"
    using assms by (auto simp: consume_tokens_def Let_def split: if_splits)
  show "sh_last_update sh' = now" "sh_token_rate sh' = sh_token_rate sh" "sh_bucket_size sh' = sh_bucket_size sh"
    by (simp_all add: c(1) update_shaper_tokens)
  have le: "ok \<Longrightarrow> unat (sh_current_tokens ?u - sz) = unat (sh_current_tokens ?u) - unat sz" "ok \<Longrightarrow> unat sz \<le> unat (sh_current_tokens ?u)"
    using c(2) by (auto simp: unat_sub word_le_nat_alt)
  show "(if ok then unat sz else 0) + unat (sh_current_tokens sh') \<le>
      unat (sh_current_tokens sh) + unat (now - sh_last_update sh) * unat (sh_token_rate sh) div 1000"
    using update_shaper_tokens(1)[of now sh] le by (auto simp: c(1))
  have "ok \<Longrightarrow> sh_current_tokens ?u - sz \<le> sh_current_tokens ?u" using le by (simp add: word_le_nat_alt)
  then show "sh_current_tokens sh' \<le> sh_bucket_size sh'"
    using update_shaper_tokens(2)[of now sh] order_trans[of "sh_current_tokens ?u - sz"]
    by (cases ok) (simp_all add: c(1) update_shaper_tokens)
qed

lemma div_add_le: "a div k + b div k \<le> (a + b) div (k::nat)"
  using div_add1_eq[of a b k] by linarith

lemma unat_diff_sorted: "unat a \<le> unat b \<Longrightarrow> unat (b - a :: u32) = unat b - unat a"
  by (simp add: unat_sub word_le_nat_alt)

lemma shaper_run_bound:
  assumes "sorted (map unat (sh_last_update sh # map fst rs))" and "shaper_run sh rs = (g, sh')"
  shows "g + unat (sh_current_tokens sh') \<le> unat (sh_current_tokens sh) +
     (unat (last (sh_last_update sh # map fst rs)) - unat (sh_last_update sh)) * unat (sh_token_rate sh) div 1000"
  using assms
proof (induction rs arbitrary: sh g)
  case (Cons r rs)
  obtain now sz where r: "r = (now, sz)" by fastforce
  obtain sh1 ok where c: "consume_tokens now sh sz = (sh1, ok)" by fastforce
  obtain g1 where g1: "shaper_run sh1 rs = (g1, sh')" "g = (if ok then unat sz else 0) + g1"
    using Cons.prems(2) r c by (auto simp: Let_def split: prod.splits)
  note st = consume_tokens_step[OF c]
  let ?l = "last (now # map fst rs)"
  have IH: "g1 + unat (sh_current_tokens sh') \<le> unat (sh_current_tokens sh1) +
     (unat ?l - unat now) * unat (sh_token_rate sh) div 1000"
    using Cons.IH[of sh1 g1] Cons.prems(1) g1 st r by simp
  have o: "unat (sh_last_update sh) \<le> unat now" "unat now \<le> unat ?l"
    using Cons.prems(1) r last_in_set[of "now # map fst rs"] by (auto simp del: last.simps)
  let ?a = "(unat now - unat (sh_last_update sh)) * unat (sh_token_rate sh)"
  let ?b = "(unat ?l - unat now) * unat (sh_token_rate sh)"
  have "?a + ?b = (unat ?l - unat (sh_last_update sh)) * unat (sh_token_rate sh)"
    using o by (simp add: add_mult_distrib[symmetric])
  with div_add_le[of ?a 1000 ?b] IH st(1) g1(2) o r show ?case
    by (simp add: unat_diff_sorted)
qed simp

section \<open>Self-check and start-up\<close>

lemma tc_count_tasks_chain: "chain (next_of m) p xs \<Longrightarrow> tc_count_tasks m p n = Some (n + of_nat (length xs))"
proof (induction xs arbitrary: p n)
  case (Cons x xs)
  then show ?case by (subst tc_count_tasks.simps) (simp add: add.assoc)
qed (simp add: tc_count_tasks.simps)

lemma tc_verify_loop_ok:
  "tc_rep m s xss \<Longrightarrow> set is \<subseteq> {..<5} \<Longrightarrow> tc_verify_loop is m s = Some []"
proof (induction "is")
  case (Cons i "is")
  then have "queue_ok m (tc_queues s ! i) (xss ! i)" by (simp add: tc_rep_def)
  with Cons tc_count_tasks_chain[of m "tq_head (tc_queues s ! i)" "xss ! i" 0] show ?case
    by (simp add: queue_ok_def fifo_def)
qed simp

lemma tc_init_rep: "\<not> tc_initialized s \<Longrightarrow> tc_rep m (tc_init now s) (replicate 5 [])"
  by (auto simp: tc_rep_def tc_init_def tc_init_queue_def zero_queue_def queue_ok_def)

section \<open>Classification\<close>

lemma class_bits:
  assumes "class < TC_MAX_CLASSES"
  shows "drop_bit 24 ((fl AND NOT 0xFF000000) OR push_bit 24 class) AND 0xFF = (class :: u32)"
proof -
  have "unat (take_bit 8 class) = unat class"
    using less_TC_MAX[OF assms] by (simp add: unsigned_take_bit_eq take_bit_nat_eq_self)
  then have c: "take_bit 8 class = class" by (simp only: word_unat_eq_iff)
  have m: "(0xFF000000 :: u32) = push_bit 24 (mask 8)" "(0xFF :: u32) = mask 8"
    by (simp_all add: mask_eq_exp_minus_1 push_bit_eq_mult)
  have "drop_bit 24 ((fl AND NOT 0xFF000000) OR push_bit 24 class) AND 0xFF = take_bit 8 class"
    unfolding m by (rule bit_eqI) (auto simp: bit_simps)
  with c show ?thesis by simp
qed

lemma class_low_bits: "((fl AND NOT 0xFF000000) OR push_bit 24 class) AND 0x00FFFFFF = fl AND (0x00FFFFFF :: u32)"
proof -
  have m: "(0xFF000000 :: u32) = push_bit 24 (mask 8)" "(0x00FFFFFF :: u32) = mask 24"
    by (simp_all add: mask_eq_exp_minus_1 push_bit_eq_mult)
  show ?thesis unfolding m by (rule bit_eqI) (auto simp: bit_simps)
qed

section \<open>Starvation\<close>

lemma update_shaper_slow:
  assumes "unat (sh_token_rate sh) < 1000" "now = sh_last_update sh + 1"
  shows "sh_current_tokens (update_shaper now sh) = min (sh_bucket_size sh) (sh_current_tokens sh)"
proof -
  have "unat (sh_token_rate sh div 1000) = 0" using assms(1) by (simp add: unat_div)
  then have "sh_token_rate sh div 1000 = 0" by (simp add: unat_eq_0)
  with assms(2) show ?thesis by (simp add: update_shaper_def Let_def)
qed

lemma update_shaper_slow_run:
  assumes "unat (sh_token_rate sh) < 1000"
  shows "sh_current_tokens (foldl (\<lambda>sh now. update_shaper now sh) sh (map (\<lambda>i. sh_last_update sh + of_nat (Suc i)) [0..<n]))
      \<le> sh_current_tokens sh \<and>
     sh_token_rate (foldl (\<lambda>sh now. update_shaper now sh) sh (map (\<lambda>i. sh_last_update sh + of_nat (Suc i)) [0..<n])) = sh_token_rate sh \<and>
     sh_last_update (foldl (\<lambda>sh now. update_shaper now sh) sh (map (\<lambda>i. sh_last_update sh + of_nat (Suc i)) [0..<n])) = sh_last_update sh + of_nat n"
proof (induction n)
  case (Suc n)
  let ?s = "foldl (\<lambda>sh now. update_shaper now sh) sh (map (\<lambda>i. sh_last_update sh + of_nat (Suc i)) [0..<n])"
  have "sh_current_tokens (update_shaper (sh_last_update sh + of_nat (Suc n)) ?s) = min (sh_bucket_size ?s) (sh_current_tokens ?s)"
    by (rule update_shaper_slow) (use Suc assms in \<open>auto simp: add_ac\<close>)
  also have "\<dots> \<le> sh_current_tokens sh" using Suc by (simp add: min.coboundedI2)
  finally show ?case using Suc by (simp add: update_shaper_tokens)
qed simp

section \<open>Concrete queues\<close>

definition ex_tc :: tc_state where
  "ex_tc = \<lparr>tc_queues = [zero_queue\<lparr>tq_head := 7, tq_tail := 7, tq_count := 1\<rparr>, zero_queue,
     zero_queue\<lparr>tq_head := 8, tq_tail := 8, tq_count := 1,
       tq_shaper := \<lparr>sh_token_rate = 0, sh_bucket_size = 4, sh_current_tokens = 4, sh_last_update = 0\<rparr>\<rparr>,
     zero_queue, zero_queue], tc_initialized = True\<rparr>"

definition ex_tcb_mem :: tcb_mem where
  "ex_tcb_mem = (\<lambda>_. zero_tcb)(9 := zero_tcb\<lparr>tcb_flags := 0x02000000\<rparr>)"

lemma ex_tc_rep: "tc_rep ex_tcb_mem ex_tc [[7], [], [8], [], []]"
proof -
  have "queue_ok ex_tcb_mem (tc_queues ex_tc ! i) ([[7], [], [8], [], []] ! i)" if "i < 5" for i
  proof -
    have "i = 0 \<or> i = 1 \<or> i = 2 \<or> i = 3 \<or> i = 4" using that by linarith
    then show ?thesis
      by (elim disjE) (simp_all add: ex_tc_def ex_tcb_mem_def queue_ok_def fifo_def zero_queue_def zero_tcb_def)
  qed
  then show ?thesis by (simp add: tc_rep_def ex_tc_def)
qed

section \<open>Properties\<close>

text \<open>C9: Enqueueing a task that is in no queue appends it to the queue of its class exactly when the
  class's bucket has a token for it; otherwise the call returns -1, leaves the queues and all tasks as
  they are. Afterwards the source's own check of the queue counts reports no mismatch.\<close>

theorem tc_enqueue_correct:
  assumes "tc_rep m s xss" and "task \<noteq> NULL" and "task \<notin> set (concat xss)"
    and "tc_get_task_class m task = class" and "class < TC_MAX_CLASSES"
  shows "\<exists>m' s' r. tc_enqueue_task now m s task = Some (m', s', r) \<and> tc_verify_configuration m' s' = Some [] \<and>
     (if snd (consume_tokens now (tq_shaper (tc_queue s class)) 1)
      then r = 0 \<and> tc_rep m' s' (xss[unat class := xss ! unat class @ [task]])
      else r = -1 \<and> m' = m \<and> tc_rep m' s' xss)"
proof -
  obtain m' s' r where e: "tc_enqueue_task now m s task = Some (m', s', r)"
    "if snd (consume_tokens now (tq_shaper (tc_queue s class)) 1)
      then r = 0 \<and> tc_rep m' s' (xss[unat class := xss ! unat class @ [task]])
      else r = -1 \<and> m' = m \<and> tc_rep m' s' xss"
    using tc_enqueue_ok[OF assms] by blast
  moreover from e(2) obtain yss where "tc_rep m' s' yss" by (auto split: if_splits)
  then have "tc_verify_configuration m' s' = Some []"
    unfolding tc_verify_configuration_def by (rule tc_verify_loop_ok) auto
  ultimately show ?thesis by blast
qed

theorem tc_enqueue_correct_witness:
  "\<exists>m' s'. tc_enqueue_task 0 ex_tcb_mem ex_tc 9 = Some (m', s', 0) \<and> tc_rep m' s' [[7], [], [8, 9], [], []]"
proof -
  have c: "tc_get_task_class ex_tcb_mem 9 = 2" by (simp add: tc_get_task_class_def ex_tcb_mem_def zero_tcb_def)
  have t: "snd (consume_tokens 0 (tq_shaper (tc_queue ex_tc 2)) 1)"
    by (simp add: consume_tokens_def update_shaper_def ex_tc_def zero_queue_def Let_def)
  have "(9::addr) \<notin> set (concat [[7], [], [8], [], []])" by simp
  from tc_enqueue_correct[OF ex_tc_rep _ this c, of 0] t show ?thesis by auto
qed

text \<open>C8: Repeated calls of \<open>tc_dequeue_task\<close> hand out the queued tasks strictly by class, and first
  come first served within a class, until no task is left.\<close>

theorem tc_dequeue_strict_priority:
  assumes "tc_rep m s xss"
  shows "drain tc_deq n (m, s) = take n (concat xss)"
  using tcq.drain_all[of "(m, s)" xss n] assms by simp

theorem tc_dequeue_strict_priority_witness: "drain tc_deq 3 (ex_tcb_mem, ex_tc) = [7, 8]"
  using tc_dequeue_strict_priority[OF ex_tc_rep, of 3] by simp

text \<open>C31: Whatever the requests, a bucket never grants more tokens than it held plus what its rate yields
  in the time that passed, in spite of the wrap-around of the 32-bit products and sums.\<close>

theorem tc_shaper_conformance:
  assumes "sorted (map unat (sh_last_update sh # map fst rs))" and "shaper_run sh rs = (granted, sh')"
  shows "granted + unat (sh_current_tokens sh') \<le> unat (sh_current_tokens sh) +
     (unat (last (sh_last_update sh # map fst rs)) - unat (sh_last_update sh)) * unat (sh_token_rate sh) div 1000"
  using assms by (rule shaper_run_bound)

theorem tc_shaper_conformance_witness:
  "\<exists>granted sh'. shaper_run \<lparr>sh_token_rate = 1000, sh_bucket_size = 8, sh_current_tokens = 2, sh_last_update = 10\<rparr>
      [(11, 3), (14, 7)] = (granted, sh') \<and> granted \<le> 6"
proof -
  let ?sh = "\<lparr>sh_token_rate = 1000, sh_bucket_size = 8, sh_current_tokens = 2, sh_last_update = 10\<rparr> :: tc_shaper_t"
  obtain granted sh' where r: "shaper_run ?sh [(11, 3), (14, 7)] = (granted, sh')" by fastforce
  from tc_shaper_conformance[OF _ this] show ?thesis using r by auto
qed

text \<open>Assigning a class to a task and reading it back gives the class, and the other 24 flag bits
  keep their values; a class out of range is refused and changes nothing.\<close>

theorem tc_class_roundtrip:
  assumes "task \<noteq> NULL"
  shows "if class < TC_MAX_CLASSES
     then \<exists>m'. tc_assign_task_class m task class = (m', 0) \<and> tc_get_task_class m' task = class \<and>
       tcb_flags (m' task) AND 0x00FFFFFF = tcb_flags (m task) AND 0x00FFFFFF
     else tc_assign_task_class m task class = (m, -1)"
proof (cases "class < TC_MAX_CLASSES")
  case True
  then have "\<not> TC_MAX_CLASSES \<le> class" by (simp only: not_le)
  with True assms class_bits[of "class" "tcb_flags (m task)"] class_low_bits[of "tcb_flags (m task)" "class"]
  show ?thesis by (simp add: tc_assign_task_class_def tc_get_task_class_def upd_tcb_def)
next
  case False
  then show ?thesis by (simp add: tc_assign_task_class_def not_less)
qed

theorem tc_class_roundtrip_witness:
  "\<exists>m'. tc_assign_task_class ex_tcb_mem 9 4 = (m', 0) \<and> tc_get_task_class m' 9 = 4"
  using tc_class_roundtrip[of 9 4 ex_tcb_mem] by auto

text \<open>A bucket whose rate is below 1000 tokens per second and that is polled every millisecond is never
  refilled: each update rounds the fraction of a token to zero and moves the timestamp on.\<close>

theorem tc_slow_bucket_starves:
  assumes "unat (sh_token_rate sh) < 1000"
  shows "sh_current_tokens (foldl (\<lambda>sh now. update_shaper now sh) sh
     (map (\<lambda>i. sh_last_update sh + of_nat (Suc i)) [0..<n])) \<le> sh_current_tokens sh"
  using update_shaper_slow_run[OF assms, of n] by blast

theorem tc_slow_bucket_starves_witness:
  "sh_current_tokens (foldl (\<lambda>sh now. update_shaper now sh)
     \<lparr>sh_token_rate = 999, sh_bucket_size = 100, sh_current_tokens = 0, sh_last_update = 0\<rparr>
     (map (\<lambda>i. of_nat (Suc i)) [0..<60000])) = 0"
proof -
  define n :: nat where "n = 60000"
  have "sh_current_tokens (foldl (\<lambda>sh now. update_shaper now sh)
     \<lparr>sh_token_rate = 999, sh_bucket_size = 100, sh_current_tokens = 0, sh_last_update = 0\<rparr>
     (map (\<lambda>i. of_nat (Suc i)) [0..<n])) = 0"
    using tc_slow_bucket_starves[of "\<lparr>sh_token_rate = 999, sh_bucket_size = 100, sh_current_tokens = 0, sh_last_update = 0\<rparr>" n]
    by simp
  then show ?thesis unfolding n_def .
qed

end
