(* ===== verification/Scheduler.thy ===== *)
theory Scheduler
  imports Rbtree Hashtable Traffic_Control
begin

text \<open>
  Model of \<open>mini_rtos/src/scheduler.c\<close>, on top of the red-black trees, the hash tables and the
  traffic control. The globals of the file are the record \<open>sched_t\<close>; every operation maps it to its
  successor, and \<open>None\<close> is undefined behaviour (a write through \<open>NULL\<close>) or a loop that does not end.

  What the file only calls is an argument, the record \<open>env\<close>: the results of \<open>malloc\<close>, of
  \<open>create_idle_task\<close> and the effect of \<open>scheduler_switch_task\<close> (both declared, but not defined in the
  repository), and the clocks. \<open>e_cstr k\<close> is what reading the heap copy \<open>k\<close> of a name as a string
  gives: the copies the name table makes have no terminating zero, so such a read runs on.
\<close>

section \<open>State\<close>

record scheduler_stats_t =
  st_total_tasks :: u32
  st_running_tasks :: u32
  st_blocked_tasks :: u32
  st_deadline_misses :: u32
  st_priority_inversions :: u32
  st_preemptions :: u32
  st_context_switches :: u32
  st_cpu_usage :: u32

definition zero_sched_stats :: scheduler_stats_t where
  "zero_sched_stats = \<lparr>st_total_tasks = 0, st_running_tasks = 0, st_blocked_tasks = 0, st_deadline_misses = 0,
     st_priority_inversions = 0, st_preemptions = 0, st_context_switches = 0, st_cpu_usage = 0\<rparr>"

type_synonym task_tree = "tcb_mem rb_tree_t"

record sched_t =
  sc_tcb :: tcb_mem
  sc_tc :: tc_state
  sc_current_task :: addr
  sc_next_task :: addr
  sc_task_count :: u32
  sc_stats :: scheduler_stats_t
  sc_task_id_map :: "hashtable_t option"
  sc_task_name_map :: "hashtable_t option"
  sc_priority_tree :: task_tree
  sc_deadline_tree :: task_tree
  sc_rr_tree :: task_tree
  sc_blocked_list :: addr
  sc_task_pool :: "addr list"
  sc_stack_pool :: u32
  sc_idle_task :: addr
  sc_current_policy :: sched_policy_t
  sc_preemption_mode :: u8
  sc_irq :: bool
  sc_pendsv :: bool
  sc_stack :: "u32 \<Rightarrow> u32"
  sc_psp :: u32
  sc_regs :: "u32 list"
  sc_mallocs :: nat

text \<open>\<open>sc_irq\<close> says whether interrupts are enabled, \<open>sc_pendsv\<close> that the PendSV exception is pending;
  \<open>sc_stack\<close> is the memory of the stacks by byte address, \<open>sc_regs\<close> are R4 to R11.\<close>

record env =
  e_now :: "nat \<Rightarrow> u32"
  e_ok_id :: "nat \<Rightarrow> bool"
  e_ok_name :: "nat \<Rightarrow> bool"
  e_cstr :: "u8 list \<Rightarrow> u8 list"
  e_nil :: "nat \<Rightarrow> addr"
  e_junk :: "addr \<Rightarrow> rb_node_t"
  e_node :: "nat \<Rightarrow> addr"
  e_idle :: "tcb_mem \<Rightarrow> tcb_mem \<times> addr"
  e_switch :: "sched_t \<Rightarrow> sched_t"

section \<open>Keys\<close>

definition priority_key :: "tcb_mem \<Rightarrow> addr \<Rightarrow> u32" where
  "priority_key m task = UINT32_MAX - (push_bit 24 (ucast (tcb_priority (m task))) OR tcb_id (m task))"

definition deadline_key :: "tcb_mem \<Rightarrow> addr \<Rightarrow> u32" where
  "deadline_key m task = tcb_deadline (m task)"

definition rr_key :: "tcb_mem \<Rightarrow> addr \<Rightarrow> u32" where
  "rr_key m task = tcb_arrival_time (m task)"

text \<open>The bytes of a word in memory (little endian), and a word read from them.\<close>

definition word_bytes :: "u32 \<Rightarrow> u8 list" where
  "word_bytes w = [ucast w, ucast (drop_bit 8 w), ucast (drop_bit 16 w), ucast (drop_bit 24 w)]"

fun bytes_word :: "u8 list \<Rightarrow> u32" where
  "bytes_word (a # b # c # d # _) = ucast a OR push_bit 8 (ucast b) OR push_bit 16 (ucast c) OR push_bit 24 (ucast d)"
| "bytes_word _ = 0"

text \<open>The functions of the two tables: the integer ones read the first four bytes of a key.\<close>

definition id_hash :: "u8 list \<Rightarrow> u32" where
  "id_hash k = ht_hash_int (bytes_word k)"

definition id_compare :: "u8 list \<Rightarrow> u8 list \<Rightarrow> bool" where
  "id_compare a b \<longleftrightarrow> ht_compare_int (bytes_word a) (bytes_word b)"

definition name_hash :: "env \<Rightarrow> u8 list \<Rightarrow> u32" where
  "name_hash e k = (case ht_hash_string (e_cstr e k) of Some h \<Rightarrow> h | None \<Rightarrow> 0)"

definition name_compare :: "env \<Rightarrow> u8 list \<Rightarrow> u8 list \<Rightarrow> bool" where
  "name_compare e a b \<longleftrightarrow> ht_compare_string (e_cstr e a) (e_cstr e b) = Some True"

definition strlen_bytes :: "u8 list \<Rightarrow> u8 list" where
  "strlen_bytes bs = takeWhile (\<lambda>b. b \<noteq> 0) bs"

section \<open>Critical sections and stacks\<close>

definition enter_critical :: "sched_t \<Rightarrow> sched_t" where
  "enter_critical s = s\<lparr>sc_irq := False\<rparr>"

definition exit_critical :: "sched_t \<Rightarrow> sched_t" where
  "exit_critical s = s\<lparr>sc_irq := True\<rparr>"

text \<open>\<open>*(--stk) = v\<close>\<close>

definition stack_push :: "u32 \<Rightarrow> (u32 \<Rightarrow> u32) \<times> u32 \<Rightarrow> (u32 \<Rightarrow> u32) \<times> u32" where
  "stack_push v ms = (let (mem, stk) = ms; stk = stk - 4 in (mem(stk := v), stk))"

definition init_task_stack :: "(u32 \<Rightarrow> u32) \<Rightarrow> u32 \<Rightarrow> addr \<Rightarrow> addr \<Rightarrow> (u32 \<Rightarrow> u32) \<times> u32" where
  "init_task_stack mem stack_top entry arg =
     fold stack_push
       [0x01000000, of_nat entry, 0, 0, 0, 0, 0, of_nat arg,
        0, 0, 0, 0, 0, 0, 0, 0] (mem, stack_top)"

section \<open>Trees\<close>

text \<open>\<open>rb_insert(&tree, task)\<close> for one of the three trees.\<close>

definition tree_insert :: "env \<Rightarrow> (sched_t \<Rightarrow> task_tree) \<Rightarrow> ((task_tree \<Rightarrow> task_tree) \<Rightarrow> sched_t \<Rightarrow> sched_t) \<Rightarrow>
    addr \<Rightarrow> sched_t \<Rightarrow> sched_t option" where
  "tree_insert e tree upd task s =
     map_option (\<lambda>t. (upd (\<lambda>_. t) s)\<lparr>sc_mallocs := sc_mallocs s + 1\<rparr>)
       (rb_insert (sc_tcb s) (tree s) task (e_node e (sc_mallocs s)))"

text \<open>\<open>node = rb_find_task(&tree, task); if (node) rb_delete(&tree, node);\<close>\<close>

definition tree_remove :: "(sched_t \<Rightarrow> task_tree) \<Rightarrow> ((task_tree \<Rightarrow> task_tree) \<Rightarrow> sched_t \<Rightarrow> sched_t) \<Rightarrow>
    addr \<Rightarrow> sched_t \<Rightarrow> sched_t option" where
  "tree_remove tree upd task s =
     Option.bind (rb_find_task (sc_tcb s) (tree s) task) (\<lambda>node.
       if node \<noteq> NULL then map_option (\<lambda>t. upd (\<lambda>_. t) s) (rb_delete (tree s) node) else Some s)"

abbreviation "priority_insert e \<equiv> tree_insert e sc_priority_tree sc_priority_tree_update"
abbreviation "deadline_insert e \<equiv> tree_insert e sc_deadline_tree sc_deadline_tree_update"
abbreviation "rr_insert e \<equiv> tree_insert e sc_rr_tree sc_rr_tree_update"
abbreviation "priority_remove \<equiv> tree_remove sc_priority_tree sc_priority_tree_update"
abbreviation "deadline_remove \<equiv> tree_remove sc_deadline_tree sc_deadline_tree_update"
abbreviation "rr_remove \<equiv> tree_remove sc_rr_tree sc_rr_tree_update"

abbreviation has_deadline :: "sched_t \<Rightarrow> addr \<Rightarrow> bool" where
  "has_deadline s task \<equiv> tcb_flags (sc_tcb s task) AND TASK_FLAG_DEADLINE \<noteq> 0"

definition scheduler_add_task :: "env \<Rightarrow> addr \<Rightarrow> sched_t \<Rightarrow> sched_t option" where
  "scheduler_add_task e task s =
     (if task = NULL then Some s
      else
        Option.bind (priority_insert e task (enter_critical s)) (\<lambda>s.
        Option.bind
          (case sc_current_policy s of
             SCHED_EDF \<Rightarrow> if has_deadline s task then deadline_insert e task s else Some s
           | SCHED_RR \<Rightarrow> rr_insert e task s
           | SCHED_HYBRID \<Rightarrow>
               Option.bind (rr_insert e task s) (\<lambda>s. if has_deadline s task then deadline_insert e task s else Some s)
           | SCHED_PRIORITY \<Rightarrow> Some s) (\<lambda>s.
        Some (exit_critical s))))"

text \<open>\<open>ht_remove\<close> on a table that may be \<open>NULL\<close>; the return code is not used.\<close>

definition table_remove :: "(nat \<Rightarrow> bool) \<Rightarrow> hashtable_t option \<Rightarrow> u8 list \<Rightarrow> hashtable_t option option" where
  "table_remove ok table key =
     (case table of None \<Rightarrow> Some None | Some t \<Rightarrow> map_option (\<lambda>(t, _). Some t) (ht_remove ok t key))"

definition table_insert :: "(nat \<Rightarrow> bool) \<Rightarrow> hashtable_t option \<Rightarrow> u8 list \<Rightarrow> u8 list \<Rightarrow> hashtable_t option option" where
  "table_insert ok table key val =
     (case table of None \<Rightarrow> Some None | Some t \<Rightarrow> map_option (\<lambda>(t, _). Some t) (ht_insert ok t key (Some val)))"

definition scheduler_remove_task :: "env \<Rightarrow> addr \<Rightarrow> sched_t \<Rightarrow> sched_t option" where
  "scheduler_remove_task e task s =
     (if task = NULL then Some s
      else
        let s = enter_critical s in
        Option.bind (table_remove (e_ok_id e) (sc_task_id_map s) (word_bytes (tcb_id (sc_tcb s task)))) (\<lambda>ids.
        Option.bind (table_remove (e_ok_name e) (sc_task_name_map s) (strlen_bytes (tcb_name (sc_tcb s task)))) (\<lambda>names.
        Option.bind (priority_remove task (s\<lparr>sc_task_id_map := ids, sc_task_name_map := names\<rparr>)) (\<lambda>s.
        Option.bind
          (case sc_current_policy s of
             SCHED_EDF \<Rightarrow> deadline_remove task s
           | SCHED_RR \<Rightarrow> rr_remove task s
           | SCHED_HYBRID \<Rightarrow> Option.bind (rr_remove task s) (deadline_remove task)
           | SCHED_PRIORITY \<Rightarrow> Some s) (\<lambda>s.
        Some (exit_critical s))))))"

section \<open>Initialisation and lookup\<close>

definition scheduler_init :: "env \<Rightarrow> sched_t \<Rightarrow> sched_t option" where
  "scheduler_init e s =
     Option.bind (rb_init (e_junk e) (e_nil e 0) priority_key) (\<lambda>pt.
     Option.bind (rb_init (e_junk e) (e_nil e 1) deadline_key) (\<lambda>dt.
     Option.bind (rb_init (e_junk e) (e_nil e 2) rr_key) (\<lambda>rt.
       let (m, idle) = e_idle e (sc_tcb s);
           s = s\<lparr>sc_tc := tc_init (e_now e) (sc_tc s),
                 sc_task_id_map := ht_create (e_ok_id e) MAX_TASKS (Some id_hash) (Some id_compare),
                 sc_task_name_map := ht_create (e_ok_name e) MAX_TASKS (Some (name_hash e)) (Some (name_compare e)),
                 sc_priority_tree := pt, sc_deadline_tree := dt, sc_rr_tree := rt,
                 sc_current_task := NULL, sc_next_task := NULL, sc_task_count := 0,
                 sc_current_policy := SCHED_PRIORITY, sc_preemption_mode := PREEMPT_ENABLE,
                 sc_stats := zero_sched_stats, sc_tcb := m, sc_idle_task := idle\<rparr>
       in if idle \<noteq> NULL then
            map_option (\<lambda>s. s\<lparr>sc_task_count := sc_task_count s + 1\<rparr>)
              (priority_insert e idle (s\<lparr>sc_tcb := upd_tcb (tcb_priority_update (\<lambda>_. TASK_PRIORITY_IDLE)) idle m\<rparr>))
          else Some s)))"

text \<open>The result is the buffer the returned pointer refers to, \<open>None\<close> for \<open>NULL\<close>.\<close>

definition find_task_by_id :: "sched_t \<Rightarrow> u32 \<Rightarrow> u8 list option option" where
  "find_task_by_id s task_id =
     (case sc_task_id_map s of None \<Rightarrow> Some None | Some t \<Rightarrow> ht_get t (word_bytes task_id))"

definition find_task_by_name :: "sched_t \<Rightarrow> u8 list option \<Rightarrow> u8 list option option" where
  "find_task_by_name s name =
     (case name of None \<Rightarrow> Some None
      | Some n \<Rightarrow> (case sc_task_name_map s of None \<Rightarrow> Some None | Some t \<Rightarrow> ht_get t (strlen_bytes n)))"

section \<open>Task creation\<close>

definition find_free_tcb :: "sched_t \<Rightarrow> addr" where
  "find_free_tcb s =
     (case filter (\<lambda>p. tcb_state (sc_tcb s p) = TASK_TERMINATED) (sc_task_pool s) of [] \<Rightarrow> NULL | p # _ \<Rightarrow> p)"

definition strncpy_name :: "u8 list \<Rightarrow> u8 list" where
  "strncpy_name name = take 31 (strlen_bytes name @ replicate 31 0) @ [0]"

definition class_of_priority :: "u8 \<Rightarrow> traffic_class_t" where
  "class_of_priority prio =
     (if prio \<ge> TASK_PRIORITY_REALTIME then TC_REALTIME
      else if prio \<ge> TASK_PRIORITY_HIGH then TC_INTERACTIVE
      else if prio \<ge> TASK_PRIORITY_NORMAL then TC_BULK
      else if prio \<ge> TASK_PRIORITY_LOW then TC_BACKGROUND
      else TC_IDLE)"

abbreviation (input) TASK_SWITCH_TICKS :: u32 where "TASK_SWITCH_TICKS \<equiv> 10"

text \<open>\<open>sizeof(tcb_t *)\<close> is 4 on the target: the value the tables store are the first four bytes of the
  task, its \<open>id\<close>. \<open>task_stack_pool[i]\<close> is 1024 bytes after \<open>task_stack_pool[i - 1]\<close>.\<close>

definition task_create :: "env \<Rightarrow> u8 list \<Rightarrow> addr \<Rightarrow> addr \<Rightarrow> u8 \<Rightarrow> u32 \<Rightarrow> sched_t \<Rightarrow> (sched_t \<times> addr) option" where
  "task_create e name entry arg prio stack_size s =
     (if sc_task_count s \<ge> 32 \<or> entry = NULL \<or> prio \<ge> MAX_PRIORITY_LEVELS then Some (s, NULL)
      else let task = find_free_tcb s in
        if task = NULL then Some (s, NULL)
        else
          (let id = sc_task_count s;
               base = sc_stack_pool s + id * 1024;
               (mem, sp) = init_task_stack (sc_stack s) (base + stack_size) entry arg;
               tcb = zero_tcb\<lparr>tcb_name := strncpy_name name, tcb_id := id, tcb_state := TASK_READY,
                 tcb_priority := prio, tcb_time_slice := TASK_SWITCH_TICKS, tcb_ticks_remaining := TASK_SWITCH_TICKS,
                 tcb_entry_point := entry, tcb_arg := arg, tcb_stack_size := stack_size, tcb_stack_base := base,
                 tcb_stack_ptr := sp\<rparr>;
               m = fst (tc_assign_task_class ((sc_tcb s)(task := tcb)) task (class_of_priority prio));
               s = s\<lparr>sc_tcb := m, sc_task_count := id + 1, sc_stack := mem\<rparr>
           in
             Option.bind (scheduler_add_task e task s) (\<lambda>s.
             let s = s\<lparr>sc_stats := st_total_tasks_update (\<lambda>n. n + 1) (sc_stats s)\<rparr> in
             Option.bind (table_insert (e_ok_id e) (sc_task_id_map s) (word_bytes id) (word_bytes id)) (\<lambda>ids.
             Option.bind (table_insert (e_ok_name e) (sc_task_name_map s)
                 (strlen_bytes (tcb_name (sc_tcb s task))) (word_bytes id)) (\<lambda>names.
             Some (s\<lparr>sc_task_id_map := ids, sc_task_name_map := names\<rparr>, task))))))"

section \<open>Suspension and delays\<close>

definition set_state :: "task_state_t \<Rightarrow> addr \<Rightarrow> sched_t \<Rightarrow> sched_t" where
  "set_state st task s = s\<lparr>sc_tcb := upd_tcb (tcb_state_update (\<lambda>_. st)) task (sc_tcb s)\<rparr>"

definition task_suspend :: "env \<Rightarrow> addr \<Rightarrow> sched_t \<Rightarrow> sched_t" where
  "task_suspend e task s =
     (if task = NULL then s
      else
        let s = set_state TASK_SUSPENDED task (enter_critical s);
            s = s\<lparr>sc_tc := tc_flush_queue (sc_tc s) (tc_get_task_class (sc_tcb s) task)\<rparr>;
            s = exit_critical s
        in if task = sc_current_task s then e_switch e s else s)"

definition task_resume :: "u32 \<Rightarrow> addr \<Rightarrow> sched_t \<Rightarrow> sched_t option" where
  "task_resume now task s =
     (if task = NULL then Some s
      else
        let s = set_state TASK_READY task (enter_critical s) in
        map_option (\<lambda>(m, tc, _). exit_critical (s\<lparr>sc_tcb := m, sc_tc := tc\<rparr>))
          (tc_enqueue_task now (sc_tcb s) (sc_tc s) task))"

definition task_delay :: "env \<Rightarrow> u32 \<Rightarrow> u32 \<Rightarrow> sched_t \<Rightarrow> sched_t option" where
  "task_delay e now ticks s =
     (if ticks = 0 then Some s
      else if sc_current_task s = NULL then None
      else
        let cur = sc_current_task s;
            s = enter_critical s;
            m = upd_tcb (\<lambda>t. t\<lparr>tcb_state := TASK_BLOCKED, tcb_deadline := now + ticks,
                               tcb_next := sc_blocked_list s, tcb_prev := NULL\<rparr>) cur (sc_tcb s);
            m = (if sc_blocked_list s \<noteq> NULL
                 then upd_tcb (tcb_prev_update (\<lambda>_. cur)) (sc_blocked_list s) m else m)
        in map_option (\<lambda>s. e_switch e (exit_critical s))
             (scheduler_remove_task e cur (s\<lparr>sc_tcb := m, sc_blocked_list := cur\<rparr>)))"

text \<open>Unlinking a task from the blocked list.\<close>

definition unlink_blocked :: "addr \<Rightarrow> sched_t \<Rightarrow> sched_t" where
  "unlink_blocked task s =
     (let m = sc_tcb s;
          m = (if tcb_prev (m task) \<noteq> NULL
               then upd_tcb (tcb_next_update (\<lambda>_. tcb_next (m task))) (tcb_prev (m task)) m else m);
          m = (if tcb_next (m task) \<noteq> NULL
               then upd_tcb (tcb_prev_update (\<lambda>_. tcb_prev (m task))) (tcb_next (m task)) m else m)
      in s\<lparr>sc_tcb := m,
           sc_blocked_list := (if sc_blocked_list s = task then tcb_next (m task) else sc_blocked_list s)\<rparr>)"

partial_function (option) process_blocked_loop :: "env \<Rightarrow> u32 \<Rightarrow> addr \<Rightarrow> sched_t \<Rightarrow> sched_t option" where
  "process_blocked_loop e now task s =
     (if task = NULL then Some s
      else
        let nxt = tcb_next (sc_tcb s task) in
        if now \<ge> tcb_deadline (sc_tcb s task)
        then Option.bind (scheduler_add_task e task (set_state TASK_READY task (unlink_blocked task s)))
               (process_blocked_loop e now nxt)
        else process_blocked_loop e now nxt s)"

definition process_blocked_tasks :: "env \<Rightarrow> u32 \<Rightarrow> sched_t \<Rightarrow> sched_t option" where
  "process_blocked_tasks e now s = process_blocked_loop e now (sc_blocked_list s) s"

definition get_current_task :: "sched_t \<Rightarrow> addr" where
  "get_current_task s = sc_current_task s"

text \<open>The copy of the statistics, and the state after the critical section around it.\<close>

definition get_scheduler_stats :: "sched_t \<Rightarrow> sched_t \<times> scheduler_stats_t" where
  "get_scheduler_stats s = (exit_critical (enter_critical s), sc_stats s)"

section \<open>Choosing the next task\<close>

text \<open>A node is given with the tree it belongs to.\<close>

definition get_next_node :: "sched_t \<Rightarrow> (task_tree \<times> addr) option" where
  "get_next_node s =
     (case sc_current_policy s of
        SCHED_EDF \<Rightarrow>
          Option.bind (rb_minimum (sc_deadline_tree s) (rbt_root (sc_deadline_tree s))) (\<lambda>node.
          if node = NULL \<or> node = rbt_nil (sc_deadline_tree s)
          then map_option (Pair (sc_priority_tree s)) (rb_minimum (sc_priority_tree s) (rbt_root (sc_priority_tree s)))
          else Some (sc_deadline_tree s, node))
      | SCHED_RR \<Rightarrow>
          Option.bind (rb_minimum (sc_rr_tree s) (rbt_root (sc_rr_tree s))) (\<lambda>node.
          if node = NULL \<or> node = rbt_nil (sc_rr_tree s)
          then map_option (Pair (sc_priority_tree s)) (rb_minimum (sc_priority_tree s) (rbt_root (sc_priority_tree s)))
          else Some (sc_rr_tree s, node))
      | _ \<Rightarrow> map_option (Pair (sc_priority_tree s)) (rb_minimum (sc_priority_tree s) (rbt_root (sc_priority_tree s))))"

definition node_task :: "sched_t \<Rightarrow> task_tree \<times> addr \<Rightarrow> addr" where
  "node_task s tn = (if snd tn \<noteq> NULL \<and> snd tn \<noteq> rbt_nil (sc_priority_tree s) then rtask (fst tn) (snd tn) else sc_idle_task s)"

definition get_next_task :: "sched_t \<Rightarrow> addr option" where
  "get_next_task s =
     (let cur = sc_current_task s; pt = sc_priority_tree s in
      case sc_current_policy s of
        SCHED_RR \<Rightarrow>
          if cur \<noteq> NULL \<and> tcb_ticks_remaining (sc_tcb s cur) > 0 then Some cur
          else map_option (node_task s) (get_next_node s)
      | SCHED_HYBRID \<Rightarrow>
          Option.bind (get_next_node s) (\<lambda>(t, node).
          if node \<noteq> NULL \<and> node \<noteq> rbt_nil pt then
            Option.bind (rb_successor pt node) (\<lambda>nxt.
            if nxt \<noteq> NULL \<and> rkey pt nxt = rkey pt node then
              if cur \<noteq> NULL \<and> tcb_priority (sc_tcb s cur) = tcb_priority (sc_tcb s (rtask pt node)) \<and>
                 tcb_ticks_remaining (sc_tcb s cur) > 0
              then Some cur
              else map_option (\<lambda>n. node_task s (sc_rr_tree s, n)) (rb_minimum (sc_rr_tree s) (rbt_root (sc_rr_tree s)))
            else Some (node_task s (t, node)))
          else Some (node_task s (t, node)))
      | _ \<Rightarrow> map_option (node_task s) (get_next_node s))"

section \<open>Priority inheritance\<close>

definition inherit_priority :: "env \<Rightarrow> addr \<Rightarrow> addr \<Rightarrow> sched_t \<Rightarrow> sched_t option" where
  "inherit_priority e blocker blocked s =
     (if blocker = NULL \<or> blocked = NULL \<or>
         tcb_priority (sc_tcb s blocker) \<ge> tcb_priority (sc_tcb s blocked) then Some s
      else
        Option.bind (scheduler_remove_task e blocker (enter_critical s)) (\<lambda>s.
        let m = sc_tcb s;
            m = (if tcb_flags (m blocker) AND TASK_FLAG_INHERITED = 0
                 then upd_tcb (\<lambda>t. t\<lparr>tcb_original_priority := tcb_priority t,
                                     tcb_flags := tcb_flags t OR TASK_FLAG_INHERITED\<rparr>) blocker m
                 else m);
            m = upd_tcb (\<lambda>t. t\<lparr>tcb_priority := tcb_priority (m blocked),
                               tcb_inheritance_depth := tcb_inheritance_depth t + 1\<rparr>) blocker m;
            m = upd_tcb (tcb_blocked_by_update (\<lambda>_. blocker)) blocked m;
            m = upd_tcb (tcb_blocking_update (\<lambda>_. blocked)) blocker m
        in Option.bind (scheduler_add_task e blocker (s\<lparr>sc_tcb := m\<rparr>)) (\<lambda>s.
           Some (exit_critical (s\<lparr>sc_stats := st_priority_inversions_update (\<lambda>n. n + 1) (sc_stats s)\<rparr>)))))"

definition release_inherited_priority :: "env \<Rightarrow> addr \<Rightarrow> sched_t \<Rightarrow> sched_t option" where
  "release_inherited_priority e task s =
     (if task = NULL \<or> tcb_flags (sc_tcb s task) AND TASK_FLAG_INHERITED = 0 then Some s
      else
        Option.bind (scheduler_remove_task e task (enter_critical s)) (\<lambda>s.
        let m = upd_tcb (\<lambda>t. t\<lparr>tcb_priority := tcb_original_priority t,
                               tcb_flags := tcb_flags t AND NOT TASK_FLAG_INHERITED,
                               tcb_inheritance_depth := 0\<rparr>) task (sc_tcb s);
            m = (if tcb_blocking (m task) \<noteq> NULL
                 then upd_tcb (tcb_blocking_update (\<lambda>_. NULL)) task
                        (upd_tcb (tcb_blocked_by_update (\<lambda>_. NULL)) (tcb_blocking (m task)) m)
                 else m)
        in map_option exit_critical (scheduler_add_task e task (s\<lparr>sc_tcb := m\<rparr>))))"

section \<open>Preemption control\<close>

definition set_preemption_mode :: "u8 \<Rightarrow> sched_t \<Rightarrow> sched_t" where
  "set_preemption_mode mode s = exit_critical ((enter_critical s)\<lparr>sc_preemption_mode := mode\<rparr>)"

definition disable_preemption :: "sched_t \<Rightarrow> sched_t" where
  "disable_preemption s = exit_critical ((enter_critical s)\<lparr>sc_preemption_mode := PREEMPT_DISABLE\<rparr>)"

definition enable_preemption :: "sched_t \<Rightarrow> sched_t" where
  "enable_preemption s = exit_critical ((enter_critical s)\<lparr>sc_preemption_mode := PREEMPT_ENABLE\<rparr>)"

section \<open>Switching\<close>

definition schedule_next_task :: "sched_t \<Rightarrow> sched_t" where
  "schedule_next_task s =
     (if \<not> tc_initialized (sc_tc s) then s
      else
        let (m, tc, nxt) = tc_dequeue_task (sc_tcb s) (sc_tc s); s = s\<lparr>sc_tcb := m, sc_tc := tc\<rparr> in
        if nxt \<noteq> NULL then
          s\<lparr>sc_current_task := nxt,
            sc_tcb := upd_tcb (\<lambda>t. t\<lparr>tcb_state := TASK_RUNNING, tcb_num_activations := tcb_num_activations t + 1\<rparr>) nxt m,
            sc_stats := st_context_switches_update (\<lambda>n. n + 1) (sc_stats s),
            sc_pendsv := True\<rparr>
        else s)"

text \<open>The registers R4 to R11 are loaded from the stack pointer's address, which PSP then follows.\<close>

definition load_regs :: "(u32 \<Rightarrow> u32) \<Rightarrow> u32 \<Rightarrow> u32 list" where
  "load_regs mem r0 = map (\<lambda>i. mem (r0 + 4 * of_nat i)) [0..<8]"

definition store_regs :: "(u32 \<Rightarrow> u32) \<Rightarrow> u32 \<Rightarrow> u32 list \<Rightarrow> (u32 \<Rightarrow> u32)" where
  "store_regs mem r0 regs = fold (\<lambda>i mem. mem(r0 + 4 * of_nat i := regs ! i)) [0..<8] mem"

definition scheduler_start :: "sched_t \<Rightarrow> sched_t option" where
  "scheduler_start s =
     (if sc_task_count s = 0 then Some s
      else Option.bind (get_next_task s) (\<lambda>nxt.
        if nxt = NULL then None
        else let r0 = tcb_stack_ptr (sc_tcb s nxt) in
          Some (s\<lparr>sc_next_task := nxt, sc_current_task := nxt,
                  sc_regs := load_regs (sc_stack s) r0, sc_psp := r0 + 32\<rparr>)))"

definition task_yield :: "env \<Rightarrow> sched_t \<Rightarrow> sched_t option" where
  "task_yield e s =
     (let s = enter_critical s; cur = sc_current_task s in
      Option.bind
        (if cur \<noteq> NULL
         then scheduler_add_task e cur
                (s\<lparr>sc_tcb := upd_tcb (\<lambda>t. t\<lparr>tcb_ticks_remaining := tcb_time_slice t, tcb_state := TASK_READY\<rparr>) cur (sc_tcb s)\<rparr>)
         else Some s) (\<lambda>s.
      Some (schedule_next_task (exit_critical s))))"

text \<open>
  \<open>PendSV_Handler\<close>: the assembly stores the stack pointer into the first word of \<open>*current_task\<close>
  and loads it from the first word of \<open>*next_task\<close>; the first member of \<open>tcb_t\<close> is \<open>id\<close>.
\<close>

definition PendSV_Handler :: "sched_t \<Rightarrow> sched_t option" where
  "PendSV_Handler s =
     (if sc_current_task s = NULL \<or> sc_next_task s = NULL then None
      else
        let r0 = sc_psp s - 32;
            mem = store_regs (sc_stack s) r0 (sc_regs s);
            m = upd_tcb (tcb_id_update (\<lambda>_. r0)) (sc_current_task s) (sc_tcb s);
            r0 = tcb_id (m (sc_next_task s))
        in Some (s\<lparr>sc_tcb := m, sc_stack := mem, sc_regs := load_regs mem r0, sc_psp := r0 + 32\<rparr>))"

definition scheduler_shutdown :: "sched_t \<Rightarrow> sched_t" where
  "scheduler_shutdown s =
     s\<lparr>sc_tc := tc_shutdown (sc_tc s), sc_current_task := NULL, sc_next_task := NULL, sc_task_count := 0\<rparr>"

end
