(* ===== verification/Ready_Queue.thy ===== *)
theory Ready_Queue
  imports Rbtree_Spec Hashtable_Spec Scheduler
begin

text \<open>
  The red-black tree as the scheduler uses it: a set of tasks under keys that are read from the
  tasks' blocks (\<open>tree_rep\<close>). The interface is the locale \<open>ready_set\<close>; its lemma \<open>rekey\<close> is what
  changing the priority of a task that is queued amounts to.
\<close>

section \<open>Trees as sets of tasks\<close>

definition tree_rep :: "('m \<Rightarrow> addr \<Rightarrow> u32) \<Rightarrow> 'm rb_tree_t \<Rightarrow> 'm \<Rightarrow> addr set \<Rightarrow> bool" where
  "tree_rep gk t m A \<longleftrightarrow> (\<exists>xs. set xs = A \<and> distinct xs \<and> inj_on (gk m) A \<and> rb_rep gk t (map (\<lambda>v. (gk m v, v)) xs))"

definition tree_del :: "'m \<Rightarrow> addr \<Rightarrow> 'm rb_tree_t \<Rightarrow> 'm rb_tree_t option" where
  "tree_del m task t = Option.bind (rb_find_task m t task) (\<lambda>n. if n \<noteq> NULL then rb_delete t n else Some t)"

lemma tree_rep_cong:
  assumes "tree_rep gk t m A" "\<forall>v \<in> A. gk m' v = gk m v"
  shows "tree_rep gk t m' A"
proof -
  obtain xs where xs: "set xs = A" "distinct xs" "inj_on (gk m) A" "rb_rep gk t (map (\<lambda>v. (gk m v, v)) xs)"
    using assms(1) by (auto simp: tree_rep_def)
  have "map (\<lambda>v. (gk m' v, v)) xs = map (\<lambda>v. (gk m v, v)) xs" using xs(1) assms(2) by auto
  moreover have "inj_on (gk m') A" using xs(3) inj_on_cong[of A "gk m'" "gk m"] assms(2) by simp
  ultimately have "set xs = A \<and> distinct xs \<and> inj_on (gk m') A \<and> rb_rep gk t (map (\<lambda>v. (gk m' v, v)) xs)"
    using xs(1,2,4) by (simp only:) 
  then show ?thesis unfolding tree_rep_def by blast
qed

lemma tree_rep_insert:
  assumes rep: "tree_rep gk t m A" and v: "v \<notin> A" "\<forall>u \<in> A. gk m u \<noteq> gk m v" and z: "rb_fresh z t"
  shows "\<exists>t'. rb_insert m t v z = Some t' \<and> tree_rep gk t' m (insert v A) \<and> (\<forall>b. rb_fresh b t' \<longleftrightarrow> rb_fresh b t \<and> b \<noteq> z)"
proof -
  obtain xs where xs: "set xs = A" "distinct xs" "inj_on (gk m) A" "rb_rep gk t (map (\<lambda>v. (gk m v, v)) xs)"
    using rep by (auto simp: tree_rep_def)
  let ?k = "gk m v"
  let ?ys = "takeWhile (\<lambda>a. gk m a \<le> ?k) xs @ v # dropWhile (\<lambda>a. gk m a \<le> ?k) xs"
  obtain t' where t': "rb_insert m t v z = Some t'" "\<forall>b. rb_fresh b t' \<longleftrightarrow> rb_fresh b t \<and> b \<noteq> z"
    "rb_rep gk t' (map (\<lambda>v. (gk m v, v)) ?ys)"
    using rbq.push[OF xs(4) z, of m v] by (auto simp: takeWhile_map dropWhile_map o_def)
  have "set ?ys = insert v A" using xs(1) set_append[of "takeWhile (\<lambda>a. gk m a \<le> ?k) xs" "dropWhile (\<lambda>a. gk m a \<le> ?k) xs"] by auto
  moreover have "distinct ?ys"
  proof -
    have "distinct (v # xs)" using xs v by simp
    moreover have "mset ?ys = mset (v # xs)" by (metis mset_append mset.simps(2) takeWhile_dropWhile_id union_mset_add_mset_right)
    ultimately show ?thesis by (metis mset_eq_imp_distinct_iff)
  qed
  moreover have "inj_on (gk m) (insert v A)" using xs(3) v by auto
  ultimately show ?thesis using t' unfolding tree_rep_def by blast
qed

lemma tree_rep_nodes:
  assumes "tree_rep gk t m A"
  obtains T where "rb_ok t T" "rbt_get_key t = gk" "\<forall>n \<in> set_tree T. rtask t n \<in> A \<and> rkey t n = gk m (rtask t n)"
    "\<forall>v \<in> A. \<exists>n \<in> set_tree T. rtask t n = v" "distinct (map (rtask t) (inorder T))" "inj_on (gk m) A"
proof -
  obtain xs T where xs: "set xs = A" "distinct xs" "inj_on (gk m) A" "rb_ok t T" "rbt_get_key t = gk"
    "map (\<lambda>v. (gk m v, v)) xs = map (\<lambda>a. (rkey t a, rtask t a)) (inorder T)"
    using assms by (auto simp: tree_rep_def rb_rep_def)
  have e: "map (rtask t) (inorder T) = xs" using arg_cong[OF xs(6), of "map snd"] by (simp add: o_def)
  have k: "map (rkey t) (inorder T) = map (gk m) xs" using arg_cong[OF xs(6), of "map fst"] by (simp add: o_def)
  have "map (\<lambda>n. gk m (rtask t n)) (inorder T) = map (rkey t) (inorder T)" using k e[symmetric] by (simp add: o_def)
  then have k': "\<forall>n \<in> set_tree T. rkey t n = gk m (rtask t n)" by (simp add: map_eq_conv)
  have s: "rtask t ` set_tree T = A" using arg_cong[OF e, of set] xs(1) by simp
  show thesis by (rule that[OF xs(4,5) _ _ _ xs(3)]) (use k' s e xs(2) in auto)
qed

lemma tree_rep_delete:
  assumes rep: "tree_rep gk t m A" and v: "v \<in> A"
  shows "\<exists>t'. tree_del m v t = Some t' \<and> tree_rep gk t' m (A - {v}) \<and> (\<forall>b. rb_fresh b t \<longrightarrow> rb_fresh b t')"
proof -
  obtain T where T: "rb_ok t T" "rbt_get_key t = gk" "\<forall>n \<in> set_tree T. rtask t n \<in> A \<and> rkey t n = gk m (rtask t n)"
    "\<forall>v \<in> A. \<exists>n \<in> set_tree T. rtask t n = v" "distinct (map (rtask t) (inorder T))" "inj_on (gk m) A"
    using tree_rep_nodes[OF rep] by blast
  obtain n where n: "n \<in> set_tree T" "rtask t n = v" using T(4) v by blast
  have u: "\<forall>b \<in> set_tree T. b \<noteq> n \<longrightarrow> rkey t b \<noteq> gk m v \<and> rtask t b \<noteq> v"
  proof (intro ballI impI)
    fix b assume b: "b \<in> set_tree T" "b \<noteq> n"
    then have "rtask t b \<noteq> v" using T(5) n by (metis distinct_map inj_on_def set_inorder)
    moreover have "rtask t b \<in> A" "rkey t b = gk m (rtask t b)" using T(3) b by auto
    ultimately show "rkey t b \<noteq> gk m v \<and> rtask t b \<noteq> v" using T(6) v by (auto simp: inj_on_def)
  qed
  have D: "tree_at (rbt_mem t) (rbt_nil t) (rbt_nil t) (rbt_root t) T" "sorted (map (rkey t) (inorder T))" "NULL \<notin> set_tree T"
    using rb_ok_D[OF T(1)] by auto
  have f: "rb_find_task m t v = Some n"
    unfolding rb_find_task_def T(2) using D(1,2) n(1,2) _ u by (rule rb_find_task_loop_complete) (use T(3) n in auto)
  obtain t' T' where t': "rb_delete t n = Some t'" "rb_ok t' T'" "inorder T' = remove1 n (inorder T)"
    "rkey t' = rkey t" "rtask t' = rtask t" "rbt_live t' = rbt_live t - {n}" "rbt_get_key t' = rbt_get_key t"
    using rb_delete_ok[OF T(1) n(1)] by blast
  let ?ys = "map (rtask t) (inorder T')"
  have dT: "distinct (inorder T)" using rb_ok_D[OF T(1)] by simp
  have sT': "set_tree T' = set_tree T - {n}" using t'(3) dT by (metis set_inorder set_remove1_eq)
  have "rb_rep gk t' (map (\<lambda>v. (gk m v, v)) ?ys)"
  proof -
    have "map (\<lambda>v. (gk m v, v)) ?ys = map (\<lambda>a. (rkey t' a, rtask t' a)) (inorder T')"
      unfolding map_map o_def
    proof (rule map_cong[OF refl])
      fix a assume "a \<in> set (inorder T')"
      then have "rkey t a = gk m (rtask t a)" using sT' T(3) by simp
      then show "(gk m (rtask t a), rtask t a) = (rkey t' a, rtask t' a)"
        using fun_cong[OF t'(4), of a] fun_cong[OF t'(5), of a] by simp
    qed
    then show ?thesis unfolding rb_rep_def using t'(2,7) T(2) by (intro conjI exI[of _ T']) auto
  qed
  moreover have "set ?ys = A - {v}" using sT' T(3,4) n u by force
  moreover have "distinct ?ys" using T(5) dT n(1) by (simp add: t'(3) distinct_map inj_on_def)
  moreover have "inj_on (gk m) (A - {v})" using T(6) by (rule inj_on_subset) auto
  ultimately have "tree_rep gk t' m (A - {v})" unfolding tree_rep_def by blast
  moreover have "\<forall>b. rb_fresh b t \<longrightarrow> rb_fresh b t'" using t'(6) by (auto simp: rb_fresh_def)
  moreover have "n \<noteq> NULL" using D(3) n(1) by metis
  ultimately show ?thesis using f t'(1) by (auto simp: tree_del_def)
qed

lemma tree_rep_absent:
  assumes rep: "tree_rep gk t m A" and v: "v \<notin> A"
  shows "tree_del m v t = Some t"
proof -
  obtain T where T: "rb_ok t T" "\<forall>n \<in> set_tree T. rtask t n \<in> A" using tree_rep_nodes[OF rep] by metis
  from rb_find_task_loop_at[OF rb_ok_D(1)[OF T(1)], of v "rbt_get_key t m v"] T(2) v
  show ?thesis by (auto simp: tree_del_def rb_find_task_def)
qed

lemma tree_rep_minimum:
  assumes rep: "tree_rep gk t m A" and A: "A \<noteq> {}"
  shows "\<exists>n. rb_minimum t (rbt_root t) = Some n \<and> n \<noteq> NULL \<and> n \<noteq> rbt_nil t \<and> rtask t n \<in> A \<and>
     (\<forall>u \<in> A. gk m (rtask t n) \<le> gk m u)"
proof -
  obtain T where T: "rb_ok t T" "\<forall>n \<in> set_tree T. rtask t n \<in> A \<and> rkey t n = gk m (rtask t n)"
    "\<forall>v \<in> A. \<exists>n \<in> set_tree T. rtask t n = v"
    using tree_rep_nodes[OF rep] by metis
  then have ne: "T \<noteq> Leaf" using A by auto
  note D = rb_ok_D[OF T(1)]
  let ?n = "hd (inorder T)"
  have n: "?n \<in> set_tree T" using ne hd_in_set[of "inorder T"] by (cases T) simp_all
  have "\<forall>b \<in> set_tree T. rkey t ?n \<le> rkey t b"
    using D(3) ne by (cases "inorder T") (auto simp flip: set_inorder)
  then have "\<forall>u \<in> A. gk m (rtask t ?n) \<le> gk m u" using T(2,3) n by metis
  with rb_minimum_at[OF D(1) ne] D(5,6) n T(2) show ?thesis by metis
qed

section \<open>The interface of a ready queue\<close>

text \<open>
  A set of tasks kept under keys that are read from the tasks' memory. A task's key may only change
  while the task is not in the set, which is what \<open>rekey\<close> is about.
\<close>

locale ready_set =
  fixes rep :: "'s \<Rightarrow> 'm \<Rightarrow> 'v set \<Rightarrow> bool"
    and fresh :: "'a \<Rightarrow> 's \<Rightarrow> bool"
    and key :: "'m \<Rightarrow> 'v \<Rightarrow> 'k::linorder"
    and ins :: "'m \<Rightarrow> 'v \<Rightarrow> 'a \<Rightarrow> 's \<Rightarrow> 's option"
    and del :: "'m \<Rightarrow> 'v \<Rightarrow> 's \<Rightarrow> 's option"
    and front :: "'s \<Rightarrow> 'v option"
  assumes cong: "rep s m A \<Longrightarrow> \<forall>v \<in> A. key m' v = key m v \<Longrightarrow> rep s m' A"
    and ins: "rep s m A \<Longrightarrow> v \<notin> A \<Longrightarrow> \<forall>u \<in> A. key m u \<noteq> key m v \<Longrightarrow> fresh a s \<Longrightarrow>
      \<exists>s'. ins m v a s = Some s' \<and> rep s' m (insert v A) \<and> (\<forall>b. fresh b s' \<longleftrightarrow> fresh b s \<and> b \<noteq> a)"
    and del: "rep s m A \<Longrightarrow> v \<in> A \<Longrightarrow>
      \<exists>s'. del m v s = Some s' \<and> rep s' m (A - {v}) \<and> (\<forall>b. fresh b s \<longrightarrow> fresh b s')"
    and front: "rep s m A \<Longrightarrow> A \<noteq> {} \<Longrightarrow> \<exists>v \<in> A. front s = Some v \<and> (\<forall>u \<in> A. key m v \<le> key m u)"
begin

lemma rekey:
  assumes "rep s m A" "v \<in> A" "fresh a s" and "\<forall>u \<in> A - {v}. key m' u = key m u \<and> key m' u \<noteq> key m' v"
  shows "\<exists>s1 s2. del m v s = Some s1 \<and> ins m' v a s1 = Some s2 \<and> rep s2 m' A \<and> (\<forall>b. fresh b s \<and> b \<noteq> a \<longrightarrow> fresh b s2)"
proof -
  obtain s1 where s1: "del m v s = Some s1" "rep s1 m (A - {v})" "\<forall>b. fresh b s \<longrightarrow> fresh b s1"
    using del[OF assms(1,2)] by blast
  have "rep s1 m' (A - {v})" by (rule cong[OF s1(2)]) (use assms(4) in auto)
  moreover have "v \<notin> A - {v}" "\<forall>u \<in> A - {v}. key m' u \<noteq> key m' v" "fresh a s1" using assms(3,4) s1(3) by blast+
  ultimately obtain s2 where
    "ins m' v a s1 = Some s2" "rep s2 m' (insert v (A - {v}))" "\<forall>b. fresh b s2 \<longleftrightarrow> fresh b s1 \<and> b \<noteq> a"
    using ins by blast
  with s1 assms(2) show ?thesis by (auto simp: insert_absorb)
qed

end

interpretation rbs: ready_set "tree_rep gk" rb_fresh gk "\<lambda>m v z t. rb_insert m t v z" tree_del rb_front
  for gk :: "'m \<Rightarrow> addr \<Rightarrow> u32"
proof unfold_locales
  fix t :: "'m rb_tree_t" and m m' :: 'm and A v z
  assume rep: "tree_rep gk t m A"
  show "\<forall>v \<in> A. gk m' v = gk m v \<Longrightarrow> tree_rep gk t m' A" by (rule tree_rep_cong[OF rep])
  show "v \<notin> A \<Longrightarrow> \<forall>u \<in> A. gk m u \<noteq> gk m v \<Longrightarrow> rb_fresh z t \<Longrightarrow>
      \<exists>s'. rb_insert m t v z = Some s' \<and> tree_rep gk s' m (insert v A) \<and> (\<forall>b. rb_fresh b s' \<longleftrightarrow> rb_fresh b t \<and> b \<noteq> z)"
    by (rule tree_rep_insert[OF rep])
  show "v \<in> A \<Longrightarrow> \<exists>s'. tree_del m v t = Some s' \<and> tree_rep gk s' m (A - {v}) \<and> (\<forall>b. rb_fresh b t \<longrightarrow> rb_fresh b s')"
    by (rule tree_rep_delete[OF rep])
  show "A \<noteq> {} \<Longrightarrow> \<exists>v \<in> A. rb_front t = Some v \<and> (\<forall>u \<in> A. gk m v \<le> gk m u)"
    using tree_rep_minimum[OF rep] by (auto simp: rb_front_def)
qed

section \<open>Keys\<close>

lemma priority_key_value:
  assumes "tcb_id (m v) < 2 ^ 24"
  shows "unat (priority_key m v) = 2 ^ 32 - 1 - (unat (tcb_priority (m v)) * 2 ^ 24 + unat (tcb_id (m v)))"
proof -
  let ?p = "tcb_priority (m v)" and ?i = "tcb_id (m v)"
  let ?w = "push_bit 24 (ucast ?p) OR ?i :: u32"
  have i: "unat ?i < 2 ^ 24" using assms by (simp add: word_less_nat_alt)
  have "unat ?p < 2 ^ 8" using unsigned_less[of ?p] by simp
  then have p: "unat ?p * 2 ^ 24 + unat ?i < 2 ^ 32" using i by simp
  have "push_bit 24 (ucast ?p) AND ?i = 0"
  proof (rule bit_word_eqI)
    fix n assume "n < LENGTH(32)"
    have "\<not> bit ?i n" if "24 \<le> n"
    proof -
      have "take_bit 24 (unat ?i) = unat ?i" using i by (simp add: take_bit_nat_eq_self)
      then have "\<not> bit (unat ?i) n" using that by (metis bit_take_bit_iff not_le)
      then show ?thesis by (simp add: bit_unsigned_iff)
    qed
    then show "bit (push_bit 24 (ucast ?p) AND ?i) n = bit (0 :: u32) n" by (auto simp: bit_simps)
  qed
  then have w: "?w = push_bit 24 (ucast ?p) + ?i" by (simp only: disjunctive_add_eq_or)
  have "unat (push_bit 24 (ucast ?p) :: u32) = unat ?p * 2 ^ 24"
  proof -
    have "unat (ucast ?p :: u32) = unat ?p" using \<open>unat ?p < 2 ^ 8\<close> by (simp add: unsigned_ucast_eq take_bit_nat_eq_self)
    then have "unat (push_bit 24 (ucast ?p) :: u32) = take_bit 32 (push_bit 24 (unat ?p))"
      by (simp only: unsigned_push_bit_eq) simp
    then show ?thesis using \<open>unat ?p < 2 ^ 8\<close> by (simp add: push_bit_eq_mult take_bit_nat_eq_self)
  qed
  with w p have uw: "unat ?w = unat ?p * 2 ^ 24 + unat ?i" by (simp add: unat_word_ariths)
  moreover have "?w \<le> UINT32_MAX" using uw p by (simp add: word_le_nat_alt)
  ultimately show ?thesis unfolding priority_key_def by (simp add: unat_sub)
qed

end
