(* ===== verification/Scheduler_Spec.thy ===== *)
theory Scheduler_Spec
  imports Ready_Queue Traffic_Control_Spec
begin

text \<open>
  What \<open>scheduler.c\<close> promises, under the default policy where nothing else is said: \<open>ready s A\<close> says
  that the priority tree holds exactly the tasks \<open>A\<close> under their current keys. The choice of the next
  task, task creation, priority inheritance and its release, the wake-up of delayed tasks and the
  dispatch through the traffic control are specified against it; the last section states defects of
  the source.
\<close>

lemma priority_key_order:
  assumes "tcb_id (m u) < 2 ^ 24" "tcb_id (m v) < 2 ^ 24"
  shows "priority_key m v \<le> priority_key m u \<longleftrightarrow>
     tcb_priority (m u) < tcb_priority (m v) \<or> tcb_priority (m u) = tcb_priority (m v) \<and> tcb_id (m u) \<le> tcb_id (m v)"
proof -
  define p q i j where "p = unat (tcb_priority (m u))" "q = unat (tcb_priority (m v))" "i = unat (tcb_id (m u))" "j = unat (tcb_id (m v))"
  note d = this
  have b: "i < 2 ^ 24" "j < 2 ^ 24" "p < 2 ^ 8" "q < 2 ^ 8"
    using assms unsigned_less[of "tcb_priority (m u)"] unsigned_less[of "tcb_priority (m v)"]
    by (simp_all add: d word_less_nat_alt)
  have "priority_key m v \<le> priority_key m u \<longleftrightarrow> p * 2 ^ 24 + i \<le> q * 2 ^ 24 + j"
    using b by (simp add: word_le_nat_alt priority_key_value[of m u, OF assms(1)] priority_key_value[of m v, OF assms(2)] d[symmetric]) linarith
  also have "\<dots> \<longleftrightarrow> p < q \<or> p = q \<and> i \<le> j" using b by auto
  finally show ?thesis by (simp add: d word_less_nat_alt word_le_nat_alt word_unat_eq_iff)
qed

section \<open>The state of the scheduler\<close>

definition table_ok :: "hashtable_t option \<Rightarrow> bool" where
  "table_ok table = (case table of None \<Rightarrow> True | Some t \<Rightarrow> 0 < ht_size t \<and> ht_size t \<le> DEFAULT_HASH_SIZE)"

text \<open>The ready tasks under the default policy.\<close>

definition ready :: "sched_t \<Rightarrow> addr set \<Rightarrow> bool" where
  "ready s A \<longleftrightarrow> sc_current_policy s = SCHED_PRIORITY \<and> NULL \<notin> A \<and>
     tree_rep priority_key (sc_priority_tree s) (sc_tcb s) A \<and>
     table_ok (sc_task_id_map s) \<and> table_ok (sc_task_name_map s)"

lemma table_remove_ok: "table_ok table \<Longrightarrow> \<exists>table'. table_remove ok table k = Some table' \<and> table_ok table'"
proof (cases table)
  case (Some t)
  assume "table_ok table"
  then have t: "0 < ht_size t" "\<not> DEFAULT_HASH_SIZE < ht_size t" using Some by (auto simp: table_ok_def)
  from t Some show ?thesis
    by (auto simp: table_remove_def table_ok_def ht_remove_def find_slot_probe Let_def split: prod.splits)
qed (simp add: table_remove_def table_ok_def)

lemma priority_remove_tree_del:
  "priority_remove task s = map_option (\<lambda>t. s\<lparr>sc_priority_tree := t\<rparr>) (tree_del (sc_tcb s) task (sc_priority_tree s))"
  by (auto simp: tree_remove_def tree_del_def split: bind_splits)

lemma remove_task_ok:
  assumes "ready s A" "task \<in> A"
  shows "\<exists>t ids names. scheduler_remove_task e task s =
       Some (s\<lparr>sc_task_id_map := ids, sc_task_name_map := names, sc_priority_tree := t, sc_irq := True\<rparr>) \<and>
     tree_del (sc_tcb s) task (sc_priority_tree s) = Some t \<and> table_ok ids \<and> table_ok names \<and>
     tree_rep priority_key t (sc_tcb s) (A - {task}) \<and> (\<forall>b. rb_fresh b (sc_priority_tree s) \<longrightarrow> rb_fresh b t)"
proof -
  have n: "task \<noteq> NULL" using assms by (metis ready_def)
  obtain ids where ids: "table_remove (e_ok_id e) (sc_task_id_map s) (word_bytes (tcb_id (sc_tcb s task))) = Some ids" "table_ok ids"
    using assms(1) table_remove_ok unfolding ready_def by blast
  obtain names where names: "table_remove (e_ok_name e) (sc_task_name_map s) (strlen_bytes (tcb_name (sc_tcb s task))) = Some names" "table_ok names"
    using assms(1) table_remove_ok unfolding ready_def by blast
  obtain t where t: "tree_del (sc_tcb s) task (sc_priority_tree s) = Some t" "tree_rep priority_key t (sc_tcb s) (A - {task})"
    "\<forall>b. rb_fresh b (sc_priority_tree s) \<longrightarrow> rb_fresh b t"
    using rbs.del[of priority_key "sc_priority_tree s" "sc_tcb s" A task] assms unfolding ready_def by blast
  have p: "sc_current_policy s = SCHED_PRIORITY" using assms(1) by (simp add: ready_def)
  have "scheduler_remove_task e task s =
       Some (s\<lparr>sc_task_id_map := ids, sc_task_name_map := names, sc_priority_tree := t, sc_irq := True\<rparr>)"
    using n ids names t p
    by (simp add: scheduler_remove_task_def enter_critical_def exit_critical_def Let_def priority_remove_tree_del)
  with ids names t show ?thesis by blast
qed

lemma add_task_ok:
  assumes "sc_current_policy s = SCHED_PRIORITY" "task \<noteq> NULL"
    and "rb_insert (sc_tcb s) (sc_priority_tree s) task (e_node e (sc_mallocs s)) = Some t"
  shows "scheduler_add_task e task s = Some (s\<lparr>sc_priority_tree := t, sc_mallocs := sc_mallocs s + 1, sc_irq := True\<rparr>)"
  using assms by (simp add: scheduler_add_task_def enter_critical_def exit_critical_def tree_insert_def)

text \<open>Taking a task out, changing its block, and putting it back, as priority inheritance does.\<close>

lemma requeue_ok:
  assumes r: "ready s A" and v: "task \<in> A" and f: "rb_fresh (e_node e (sc_mallocs s)) (sc_priority_tree s)"
    and k: "\<forall>u \<in> A - {task}. priority_key m' u = priority_key (sc_tcb s) u \<and> priority_key m' u \<noteq> priority_key m' task"
  obtains s1 s2 where "scheduler_remove_task e task s = Some s1" "sc_tcb s1 = sc_tcb s" "sc_stats s1 = sc_stats s"
    "sc_mallocs s1 = sc_mallocs s" "scheduler_add_task e task (s1\<lparr>sc_tcb := m'\<rparr>) = Some s2" "ready s2 A" "sc_tcb s2 = m'"
    "sc_stats s2 = sc_stats s" "sc_mallocs s2 = sc_mallocs s + 1"
    "\<forall>b. rb_fresh b (sc_priority_tree s) \<and> b \<noteq> e_node e (sc_mallocs s) \<longrightarrow> rb_fresh b (sc_priority_tree s2)"
proof -
  obtain t ids names where s1: "scheduler_remove_task e task s =
       Some (s\<lparr>sc_task_id_map := ids, sc_task_name_map := names, sc_priority_tree := t, sc_irq := True\<rparr>)"
     "tree_del (sc_tcb s) task (sc_priority_tree s) = Some t" "table_ok ids" "table_ok names"
    using remove_task_ok[OF r v, of e] by blast
  let ?s1 = "s\<lparr>sc_task_id_map := ids, sc_task_name_map := names, sc_priority_tree := t, sc_irq := True\<rparr>"
  have rep: "tree_rep priority_key (sc_priority_tree s) (sc_tcb s) A" and p: "sc_current_policy s = SCHED_PRIORITY"
    and n: "NULL \<notin> A" using r by (auto simp: ready_def)
  have tn: "task \<noteq> NULL" using n v by metis
  from rbs.rekey[of priority_key "sc_priority_tree s" "sc_tcb s" A task "e_node e (sc_mallocs s)" m', OF rep v f k] s1(2) obtain t2 where t2: "rb_insert m' t task (e_node e (sc_mallocs s)) = Some t2"
    "tree_rep priority_key t2 m' A"
    "\<forall>b. rb_fresh b (sc_priority_tree s) \<and> b \<noteq> e_node e (sc_mallocs s) \<longrightarrow> rb_fresh b t2" by auto
  let ?s2 = "?s1\<lparr>sc_tcb := m', sc_priority_tree := t2, sc_mallocs := sc_mallocs s + 1, sc_irq := True\<rparr>"
  have "scheduler_add_task e task (?s1\<lparr>sc_tcb := m'\<rparr>) = Some ?s2"
    using add_task_ok[of "?s1\<lparr>sc_tcb := m'\<rparr>" task e t2] p tn t2(1) by simp
  moreover have "ready ?s2 A" using p n s1(3,4) t2(2) by (simp add: ready_def)
  ultimately show thesis using s1(1) t2(3) by (intro that[of ?s1 ?s2]) simp_all
qed

section \<open>Choosing the next task\<close>

lemma get_next_task_priority:
  assumes "ready s A" "A \<noteq> {}" "\<forall>u \<in> A. tcb_id (sc_tcb s u) < 2 ^ 24"
  shows "\<exists>v \<in> A. get_next_task s = Some v \<and> (\<forall>u \<in> A. tcb_priority (sc_tcb s u) < tcb_priority (sc_tcb s v) \<or>
     tcb_priority (sc_tcb s u) = tcb_priority (sc_tcb s v) \<and> tcb_id (sc_tcb s u) \<le> tcb_id (sc_tcb s v))"
proof -
  let ?t = "sc_priority_tree s"
  obtain n where n: "rb_minimum ?t (rbt_root ?t) = Some n" "n \<noteq> NULL" "n \<noteq> rbt_nil ?t" "rtask ?t n \<in> A"
    "\<forall>u \<in> A. priority_key (sc_tcb s) (rtask ?t n) \<le> priority_key (sc_tcb s) u"
    using tree_rep_minimum[of priority_key ?t "sc_tcb s" A] assms(1,2) by (auto simp: ready_def)
  have "get_next_task s = Some (rtask ?t n)"
    using n(1-3) assms(1) by (simp add: get_next_task_def get_next_node_def node_task_def ready_def)
  moreover have "\<forall>u \<in> A. tcb_priority (sc_tcb s u) < tcb_priority (sc_tcb s (rtask ?t n)) \<or>
     tcb_priority (sc_tcb s u) = tcb_priority (sc_tcb s (rtask ?t n)) \<and> tcb_id (sc_tcb s u) \<le> tcb_id (sc_tcb s (rtask ?t n))"
    using n(4,5) assms(3) priority_key_order[of "sc_tcb s" _ "rtask ?t n"] by blast
  ultimately show ?thesis using n(4) by blast
qed

lemma get_next_task_edf:
  assumes "sc_current_policy s = SCHED_EDF" "tree_rep deadline_key (sc_deadline_tree s) (sc_tcb s) D" "D \<noteq> {}"
    and "rbt_nil (sc_priority_tree s) \<notin> rbt_live (sc_deadline_tree s)"
  shows "\<exists>v \<in> D. get_next_task s = Some v \<and> (\<forall>u \<in> D. tcb_deadline (sc_tcb s v) \<le> tcb_deadline (sc_tcb s u))"
proof -
  let ?t = "sc_deadline_tree s"
  obtain n where n: "rb_minimum ?t (rbt_root ?t) = Some n" "n \<noteq> NULL" "n \<noteq> rbt_nil ?t" "rtask ?t n \<in> D"
    "\<forall>u \<in> D. deadline_key (sc_tcb s) (rtask ?t n) \<le> deadline_key (sc_tcb s) u"
    using tree_rep_minimum[OF assms(2,3)] by blast
  have "n \<in> rbt_live ?t"
  proof -
    obtain T where T: "rb_ok ?t T" "\<forall>v \<in> D. \<exists>n \<in> set_tree T. rtask ?t n = v" using tree_rep_nodes[OF assms(2)] by metis
    then have "T \<noteq> Leaf" using assms(3) by auto
    from rb_minimum_at[OF rb_ok_D(1)[OF T(1)] this] n(1) have "n = hd (inorder T)" by simp
    then have "n \<in> set_tree T" using \<open>T \<noteq> Leaf\<close> hd_in_set[of "inorder T"] by (cases T) simp_all
    then show ?thesis using T(1) by (auto simp: rb_ok_def)
  qed
  then have "n \<noteq> rbt_nil (sc_priority_tree s)" using assms(4) by metis
  then have "get_next_task s = Some (rtask ?t n)"
    using n(1-3) assms(1) by (simp add: get_next_task_def get_next_node_def node_task_def)
  with n(4,5) show ?thesis by (auto simp: deadline_key_def)
qed

section \<open>Priority inheritance\<close>

lemma priority_key_neq:
  assumes "tcb_id (m u) < 2 ^ 24" "tcb_id (m v) < 2 ^ 24" "tcb_id (m u) \<noteq> tcb_id (m v)"
  shows "priority_key m u \<noteq> priority_key m v"
  using priority_key_order[OF assms(1,2)] priority_key_order[OF assms(2,1)] assms(3) by auto

lemma priority_key_cong:
  "tcb_priority (m' u) = tcb_priority (m u) \<Longrightarrow> tcb_id (m' u) = tcb_id (m u) \<Longrightarrow> priority_key m' u = priority_key m u"
  by (simp add: priority_key_def)

definition ids_ok :: "tcb_mem \<Rightarrow> addr set \<Rightarrow> bool" where
  "ids_ok m A \<longleftrightarrow> (\<forall>u \<in> A. tcb_id (m u) < 2 ^ 24) \<and> inj_on (\<lambda>u. tcb_id (m u)) A"

lemma ids_ok_cong: "(\<And>u. tcb_id (m' u) = tcb_id (m u)) \<Longrightarrow> ids_ok m' A = ids_ok m A"
  by (simp add: ids_ok_def)

lemma ids_ok_keys:
  assumes "ids_ok m (insert x A)" "x \<notin> A"
  shows "\<forall>u \<in> A. priority_key m u \<noteq> priority_key m x"
proof
  fix u assume u: "u \<in> A"
  then have "tcb_id (m u) \<noteq> tcb_id (m x)" using assms by (auto simp: ids_ok_def image_iff)
  then show "priority_key m u \<noteq> priority_key m x" using u assms by (intro priority_key_neq) (auto simp: ids_ok_def)
qed

lemma rekeyed:
  assumes "ids_ok m A" "task \<in> A" "\<And>u. tcb_id (m' u) = tcb_id (m u)" "\<And>u. u \<noteq> task \<Longrightarrow> tcb_priority (m' u) = tcb_priority (m u)"
  shows "\<forall>u \<in> A - {task}. priority_key m' u = priority_key m u \<and> priority_key m' u \<noteq> priority_key m' task"
proof
  fix u assume u: "u \<in> A - {task}"
  then have "tcb_id (m u) \<noteq> tcb_id (m task)" using assms(1,2) by (auto simp: ids_ok_def inj_on_def)
  then have "priority_key m' u \<noteq> priority_key m' task"
    using u assms by (intro priority_key_neq) (auto simp: ids_ok_def)
  moreover have "priority_key m' u = priority_key m u" using u assms(3,4) by (intro priority_key_cong) auto
  ultimately show "priority_key m' u = priority_key m u \<and> priority_key m' u \<noteq> priority_key m' task" by simp
qed

text \<open>The blocks after the assignments of \<open>inherit_priority\<close> and of \<open>release_inherited_priority\<close>.\<close>

definition inherited :: "addr \<Rightarrow> addr \<Rightarrow> tcb_mem \<Rightarrow> tcb_mem" where
  "inherited blocker blocked m = m(
     blocker := (m blocker)\<lparr>
       tcb_original_priority := (if tcb_flags (m blocker) AND TASK_FLAG_INHERITED = 0
                                 then tcb_priority (m blocker) else tcb_original_priority (m blocker)),
       tcb_flags := tcb_flags (m blocker) OR TASK_FLAG_INHERITED,
       tcb_priority := tcb_priority (m blocked),
       tcb_inheritance_depth := tcb_inheritance_depth (m blocker) + 1,
       tcb_blocking := blocked\<rparr>,
     blocked := (m blocked)\<lparr>tcb_blocked_by := blocker\<rparr>)"

lemma one_bit_flag:
  fixes fl c :: u32
  assumes c: "\<And>n. bit c n \<longleftrightarrow> n = k"
  shows "fl AND c \<noteq> 0 \<Longrightarrow> fl OR c = fl" "k < 32 \<Longrightarrow> (fl OR c) AND c \<noteq> 0" "fl AND c = 0 \<Longrightarrow> (fl OR c) AND NOT c = fl"
proof -
  have z: "x AND c = 0 \<longleftrightarrow> \<not> bit x k" for x :: u32
  proof
    have "bit (x AND c) k = bit x k" by (simp add: bit_and_iff c)
    then show "x AND c = 0 \<Longrightarrow> \<not> bit x k" by simp
    show "\<not> bit x k \<Longrightarrow> x AND c = 0" by (rule bit_word_eqI) (auto simp: bit_and_iff c)
  qed
  show "fl AND c \<noteq> 0 \<Longrightarrow> fl OR c = fl" unfolding z by (rule bit_word_eqI) (auto simp: bit_or_iff c)
  show "k < 32 \<Longrightarrow> (fl OR c) AND c \<noteq> 0" unfolding z by (simp add: bit_or_iff c)
  show "fl AND c = 0 \<Longrightarrow> (fl OR c) AND NOT c = fl"
    unfolding z by (rule bit_word_eqI) (auto simp: bit_and_iff bit_or_iff bit_not_iff c)
qed

lemma bit_flag: "bit (TASK_FLAG_INHERITED :: u32) n \<longleftrightarrow> n = 2"
  using bit_exp_iff[where ?'a = "32 word", of 2 n] by auto

lemmas inherited_flag = one_bit_flag[OF bit_flag]

lemma inherited_eq:
  assumes "blocker \<noteq> blocked"
  shows "upd_tcb (tcb_blocking_update (\<lambda>_. blocked)) blocker
      (upd_tcb (tcb_blocked_by_update (\<lambda>_. blocker)) blocked
       (upd_tcb (\<lambda>t. t\<lparr>tcb_priority := tcb_priority ((if tcb_flags (m blocker) AND TASK_FLAG_INHERITED = 0
     then upd_tcb (\<lambda>t. t\<lparr>tcb_original_priority := tcb_priority t, tcb_flags := tcb_flags t OR TASK_FLAG_INHERITED\<rparr>) blocker m
     else m) blocked), tcb_inheritance_depth := tcb_inheritance_depth t + 1\<rparr>) blocker
       (if tcb_flags (m blocker) AND TASK_FLAG_INHERITED = 0
        then upd_tcb (\<lambda>t. t\<lparr>tcb_original_priority := tcb_priority t, tcb_flags := tcb_flags t OR TASK_FLAG_INHERITED\<rparr>) blocker m
        else m))) = inherited blocker blocked m"
  using assms by (auto simp: upd_tcb_def inherited_def fun_eq_iff inherited_flag(1))

lemma inherit_unfold:
  assumes "blocker \<noteq> blocked"
  shows "inherit_priority e blocker blocked s =
     (if blocker = NULL \<or> blocked = NULL \<or> tcb_priority (sc_tcb s blocker) \<ge> tcb_priority (sc_tcb s blocked) then Some s
      else Option.bind (scheduler_remove_task e blocker (enter_critical s)) (\<lambda>s.
        Option.bind (scheduler_add_task e blocker (s\<lparr>sc_tcb := inherited blocker blocked (sc_tcb s)\<rparr>)) (\<lambda>s.
          Some (exit_critical (s\<lparr>sc_stats := st_priority_inversions_update (\<lambda>n. n + 1) (sc_stats s)\<rparr>)))))"
  unfolding inherit_priority_def Let_def inherited_eq[OF assms] ..

lemma inherit_ok:
  assumes r: "ready s A" and b: "blocker \<in> A" "blocked \<noteq> NULL"
    and p: "tcb_priority (sc_tcb s blocker) < tcb_priority (sc_tcb s blocked)"
    and i: "ids_ok (sc_tcb s) A" and f: "rb_fresh (e_node e (sc_mallocs s)) (sc_priority_tree s)"
  shows "\<exists>s'. inherit_priority e blocker blocked s = Some s' \<and> ready s' A \<and> sc_tcb s' = inherited blocker blocked (sc_tcb s) \<and>
     st_priority_inversions (sc_stats s') = st_priority_inversions (sc_stats s) + 1 \<and> sc_mallocs s' = sc_mallocs s + 1 \<and>
     (\<forall>b. rb_fresh b (sc_priority_tree s) \<and> b \<noteq> e_node e (sc_mallocs s) \<longrightarrow> rb_fresh b (sc_priority_tree s'))"
proof -
  have ne: "blocker \<noteq> blocked" and p': "\<not> tcb_priority (sc_tcb s blocked) \<le> tcb_priority (sc_tcb s blocker)"
    using p by (auto simp only: not_le)
  have bn: "blocker \<noteq> NULL" using r b(1) by (metis ready_def)
  let ?m = "inherited blocker blocked (sc_tcb s)"
  have k: "\<forall>u \<in> A - {blocker}. priority_key ?m u = priority_key (sc_tcb s) u \<and> priority_key ?m u \<noteq> priority_key ?m blocker"
    by (rule rekeyed[OF i b(1)]) (auto simp: inherited_def ne)
  have r': "ready (enter_critical s) A" using r by (simp add: ready_def enter_critical_def)
  have f': "rb_fresh (e_node e (sc_mallocs (enter_critical s))) (sc_priority_tree (enter_critical s))"
    and k': "\<forall>u \<in> A - {blocker}. priority_key ?m u = priority_key (sc_tcb (enter_critical s)) u \<and> priority_key ?m u \<noteq> priority_key ?m blocker"
    unfolding enter_critical_def using f k by simp_all (metis k)
  obtain s1 s2 where s: "scheduler_remove_task e blocker (enter_critical s) = Some s1" "sc_tcb s1 = sc_tcb (enter_critical s)"
    "scheduler_add_task e blocker (s1\<lparr>sc_tcb := ?m\<rparr>) = Some s2" "ready s2 A" "sc_tcb s2 = ?m" "sc_stats s2 = sc_stats (enter_critical s)"
    "sc_mallocs s2 = sc_mallocs (enter_critical s) + 1"
    "\<forall>b. rb_fresh b (sc_priority_tree (enter_critical s)) \<and> b \<noteq> e_node e (sc_mallocs (enter_critical s)) \<longrightarrow> rb_fresh b (sc_priority_tree s2)"
    using requeue_ok[OF r' b(1) f' k'] by metis
  have tc: "sc_tcb s1 = sc_tcb s" using s(2) by (simp add: enter_critical_def)
  have "inherit_priority e blocker blocked s =
      Some (exit_critical (s2\<lparr>sc_stats := st_priority_inversions_update (\<lambda>n. n + 1) (sc_stats s2)\<rparr>))"
    using bn b(2) p' s(1,3) by (simp add: inherit_unfold[OF ne] tc)
  moreover have "ready (exit_critical (s2\<lparr>sc_stats := st_priority_inversions_update (\<lambda>n. n + 1) (sc_stats s2)\<rparr>)) A"
    using s(4) by (simp add: ready_def exit_critical_def)
  ultimately show ?thesis using s(5-8) by (simp add: exit_critical_def enter_critical_def)
qed





section \<open>Critical sections\<close>

lemma bind_SomeE: "Option.bind x f = Some y \<Longrightarrow> (\<And>z. x = Some z \<Longrightarrow> f z = Some y \<Longrightarrow> thesis) \<Longrightarrow> thesis"
  by (cases x) auto

lemma add_task_irq: "task \<noteq> NULL \<Longrightarrow> scheduler_add_task e task s = Some s' \<Longrightarrow> sc_irq s'"
  by (auto simp: scheduler_add_task_def exit_critical_def elim!: bind_SomeE)

lemma remove_task_irq: "task \<noteq> NULL \<Longrightarrow> scheduler_remove_task e task s = Some s' \<Longrightarrow> sc_irq s'"
  by (auto simp: scheduler_remove_task_def exit_critical_def Let_def elim!: bind_SomeE)

section \<open>Running the next task\<close>

lemma tc_rep_frame: "tc_rep m s xss \<Longrightarrow> (\<And>p. next_of m' p = next_of m p) \<Longrightarrow> tc_rep m' s xss"
  using queue_ok_frame[of m _ _ m'] by (auto simp: tc_rep_def)

lemma schedule_next_ok:
  assumes "tc_initialized (sc_tc s)" "tc_rep (sc_tcb s) (sc_tc s) xss"
  shows "case concat xss of
     [] \<Rightarrow> schedule_next_task s = s
   | x # rest \<Rightarrow> \<exists>yss. tc_rep (sc_tcb (schedule_next_task s)) (sc_tc (schedule_next_task s)) yss \<and> concat yss = rest \<and>
       sc_current_task (schedule_next_task s) = x \<and> sc_pendsv (schedule_next_task s) \<and>
       tcb_state (sc_tcb (schedule_next_task s) x) = TASK_RUNNING \<and>
       st_context_switches (sc_stats (schedule_next_task s)) = st_context_switches (sc_stats s) + 1"
proof (cases "concat xss")
  case Nil
  then have "schedule_next_task s = s" using tc_dequeue_empty[OF assms(2)] assms(1) by (simp add: schedule_next_task_def)
  then show ?thesis unfolding Nil by simp
next
  case (Cons x rest)
  have "(\<lambda>(m, s). tc_rep m s) (sc_tcb s, sc_tc s) xss" using assms(2) by simp
  from tcq.deq_head[OF this Cons] obtain m' tc' yss where d: "tc_deq (sc_tcb s, sc_tc s) = ((m', tc'), Some x)"
    "tc_rep m' tc' yss" "concat yss = rest" by auto
  then have d': "tc_dequeue_task (sc_tcb s) (sc_tc s) = (m', tc', x)" "x \<noteq> NULL"
    by (auto simp: tc_deq_def Let_def split: prod.splits if_splits)
  let ?m = "upd_tcb (\<lambda>t. t\<lparr>tcb_state := TASK_RUNNING, tcb_num_activations := tcb_num_activations t + 1\<rparr>) x m'"
  have "tc_rep ?m tc' yss" by (rule tc_rep_frame[OF d(2)]) (simp add: upd_tcb_def)
  then show ?thesis unfolding Cons using d d' assms(1)
    by (auto simp: schedule_next_task_def upd_tcb_def intro!: exI[of _ yss])
qed

section \<open>The blocked list\<close>

abbreviation dlist :: "tcb_mem \<Rightarrow> addr \<Rightarrow> addr list \<Rightarrow> bool" where
  "dlist m p xs \<equiv> dseg (\<lambda>x. tcb_next (m x)) (\<lambda>x. tcb_prev (m x)) NULL p xs NULL"

lemma unlink_fields:
  assumes "tcb_prev (sc_tcb s x) \<noteq> x" "tcb_next (sc_tcb s x) \<noteq> x"
  shows "tcb_next (sc_tcb (unlink_blocked x s) u) =
      (if tcb_prev (sc_tcb s x) \<noteq> NULL \<and> u = tcb_prev (sc_tcb s x) then tcb_next (sc_tcb s x) else tcb_next (sc_tcb s u))"
    and "tcb_prev (sc_tcb (unlink_blocked x s) u) =
      (if tcb_next (sc_tcb s x) \<noteq> NULL \<and> u = tcb_next (sc_tcb s x) then tcb_prev (sc_tcb s x) else tcb_prev (sc_tcb s u))"
    and "sc_blocked_list (unlink_blocked x s) = (if sc_blocked_list s = x then tcb_next (sc_tcb s x) else sc_blocked_list s)"
  using assms by (simp_all add: unlink_blocked_def Let_def upd_tcb_def)

lemma unlink_dlist:
  assumes d: "dlist (sc_tcb s) (sc_blocked_list s) (ys @ x # zs)"
  shows "dlist (sc_tcb (unlink_blocked x s)) (sc_blocked_list (unlink_blocked x s)) (ys @ zs)"
proof -
  note mid = dseg_middle[OF d]
  have ne: "tcb_prev (sc_tcb s x) \<noteq> x" "tcb_next (sc_tcb s x) \<noteq> x"
    using mid(1-3,6) by (auto dest: hd_in_set last_in_set split: if_splits)
  note f = unlink_fields[OF ne]
  have "dlist (sc_tcb (unlink_blocked x s)) (if ys = [] then tcb_next (sc_tcb s x) else sc_blocked_list s) (ys @ zs)"
    using d by (rule dseg_remove) (use f mid in \<open>auto split: if_splits\<close>)
  with f(3) mid(7) show ?thesis by simp
qed

text \<open>What waking one task does to the blocks: links apart, only its state.\<close>

lemma woken_fields:
  assumes "dlist (sc_tcb s) (sc_blocked_list s) (ys @ x # zs)"
  defines "s1 \<equiv> set_state TASK_READY x (unlink_blocked x s)"
  shows "dlist (sc_tcb s1) (sc_blocked_list s1) (ys @ zs)" "tcb_id (sc_tcb s1 u) = tcb_id (sc_tcb s u)"
    "tcb_priority (sc_tcb s1 u) = tcb_priority (sc_tcb s u)" "tcb_deadline (sc_tcb s1 u) = tcb_deadline (sc_tcb s u)"
    "tcb_state (sc_tcb s1 u) = (if u = x then TASK_READY else tcb_state (sc_tcb s u))"
    "s1 = s\<lparr>sc_tcb := sc_tcb s1, sc_blocked_list := sc_blocked_list s1\<rparr>"
proof -
  have "dlist (sc_tcb s1) (sc_blocked_list (unlink_blocked x s)) (ys @ zs) =
      dlist (sc_tcb (unlink_blocked x s)) (sc_blocked_list (unlink_blocked x s)) (ys @ zs)"
    by (rule dseg_cong) (auto simp: s1_def set_state_def upd_tcb_def)
  then show "dlist (sc_tcb s1) (sc_blocked_list s1) (ys @ zs)" using unlink_dlist[OF assms(1)] by (simp add: s1_def set_state_def)
  show "tcb_id (sc_tcb s1 u) = tcb_id (sc_tcb s u)" "tcb_priority (sc_tcb s1 u) = tcb_priority (sc_tcb s u)"
    "tcb_deadline (sc_tcb s1 u) = tcb_deadline (sc_tcb s u)"
    "tcb_state (sc_tcb s1 u) = (if u = x then TASK_READY else tcb_state (sc_tcb s u))"
    by (simp_all add: s1_def set_state_def unlink_blocked_def Let_def upd_tcb_def)
  show "s1 = s\<lparr>sc_tcb := sc_tcb s1, sc_blocked_list := sc_blocked_list s1\<rparr>"
    by (simp add: s1_def set_state_def unlink_blocked_def Let_def)
qed

definition nodes_available :: "env \<Rightarrow> sched_t \<Rightarrow> nat \<Rightarrow> bool" where
  "nodes_available e s n \<longleftrightarrow> (\<forall>i < n. rb_fresh (e_node e (sc_mallocs s + i)) (sc_priority_tree s)) \<and>
     distinct (map (\<lambda>i. e_node e (sc_mallocs s + i)) [0..<n])"

lemma wake_one:
  assumes d: "dlist (sc_tcb s) (sc_blocked_list s) (ys @ x # zs)"
    and r: "ready s A" "x \<notin> A" and i: "ids_ok (sc_tcb s) (insert x A)" and n: "nodes_available e s (Suc k)"
  shows "\<exists>s'. scheduler_add_task e x (set_state TASK_READY x (unlink_blocked x s)) = Some s' \<and>
     ready s' (insert x A) \<and> nodes_available e s' k \<and>
     sc_tcb s' = sc_tcb (set_state TASK_READY x (unlink_blocked x s)) \<and>
     sc_blocked_list s' = sc_blocked_list (set_state TASK_READY x (unlink_blocked x s))"
proof -
  let ?s1 = "set_state TASK_READY x (unlink_blocked x s)"
  note w = woken_fields[OF d]
  have same: "sc_priority_tree ?s1 = sc_priority_tree s" "sc_mallocs ?s1 = sc_mallocs s" "sc_current_policy ?s1 = sc_current_policy s"
    "sc_task_id_map ?s1 = sc_task_id_map s" "sc_task_name_map ?s1 = sc_task_name_map s"
    by (simp_all add: set_state_def unlink_blocked_def Let_def)
  have xn: "x \<noteq> NULL" using dseg_middle(1)[OF d] .
  have ke: "priority_key (sc_tcb ?s1) u = priority_key (sc_tcb s) u" for u by (rule priority_key_cong) (simp_all add: w(2-5))
  have rep: "tree_rep priority_key (sc_priority_tree s) (sc_tcb ?s1) A"
    by (rule tree_rep_cong[of priority_key _ "sc_tcb s"]) (use r(1) ke in \<open>auto simp: ready_def\<close>)
  have kn: "\<forall>u \<in> A. priority_key (sc_tcb ?s1) u \<noteq> priority_key (sc_tcb ?s1) x"
    unfolding ke by (rule ids_ok_keys[OF i r(2)])
  let ?z = "e_node e (sc_mallocs s)"
  have z: "rb_fresh ?z (sc_priority_tree s)" using n by (auto simp: nodes_available_def)
  obtain t where t: "rb_insert (sc_tcb ?s1) (sc_priority_tree s) x ?z = Some t" "tree_rep priority_key t (sc_tcb ?s1) (insert x A)"
    "\<forall>b. rb_fresh b t \<longleftrightarrow> rb_fresh b (sc_priority_tree s) \<and> b \<noteq> ?z"
    using tree_rep_insert[OF rep r(2) kn z] by blast
  let ?s2 = "?s1\<lparr>sc_priority_tree := t, sc_mallocs := sc_mallocs s + 1, sc_irq := True\<rparr>"
  have "scheduler_add_task e x ?s1 = Some ?s2"
    using add_task_ok[of ?s1 x e t] r(1) xn t(1) by (simp add: same ready_def)
  moreover have "ready ?s2 (insert x A)" using r(1) t(2) xn by (simp add: ready_def same)
  moreover have "nodes_available e ?s2 k"
  proof -
    have up: "[0..<Suc k] = 0 # map Suc [0..<k]" by (simp add: upt_conv_Cons map_Suc_upt)
    have "distinct (?z # map (\<lambda>i. e_node e (sc_mallocs s + 1 + i)) [0..<k])"
      using n by (simp add: nodes_available_def up o_def del: upt_Suc)
    then have nz: "distinct (map (\<lambda>i. e_node e (sc_mallocs s + 1 + i)) [0..<k])" "\<forall>i < k. e_node e (sc_mallocs s + 1 + i) \<noteq> ?z"
      by (auto simp: image_iff) (metis atLeastLessThan_iff zero_le)
    moreover have "\<forall>i < k. rb_fresh (e_node e (sc_mallocs s + 1 + i)) (sc_priority_tree s)"
      using n unfolding nodes_available_def by (metis add.assoc add.commute Suc_less_eq plus_1_eq_Suc)
    ultimately show ?thesis using t(3) by (simp add: nodes_available_def)
  qed
  ultimately show ?thesis by (intro exI[of _ ?s2]) simp
qed

lemma process_blocked_loop_ok:
  assumes "dlist (sc_tcb s) (sc_blocked_list s) (ys @ zs)"
    and "ready s A" "set zs \<inter> A = {}" "ids_ok (sc_tcb s) (A \<union> set zs)" "nodes_available e s (length zs)"
  shows "\<exists>s'. process_blocked_loop e now (if zs = [] then NULL else hd zs) s = Some s' \<and>
     dlist (sc_tcb s') (sc_blocked_list s') (ys @ filter (\<lambda>x. now < tcb_deadline (sc_tcb s x)) zs) \<and>
     ready s' (A \<union> {x \<in> set zs. tcb_deadline (sc_tcb s x) \<le> now}) \<and>
     (\<forall>x. tcb_state (sc_tcb s' x) = (if x \<in> set zs \<and> tcb_deadline (sc_tcb s x) \<le> now then TASK_READY else tcb_state (sc_tcb s x)))"
  using assms
proof (induction zs arbitrary: s ys A)
  case Nil
  then show ?case by (simp add: process_blocked_loop.simps)
next
  case (Cons x zs)
  note xn = dseg_middle(1)[OF Cons.prems(1)] and nx = dseg_middle(3)[OF Cons.prems(1)]
  show ?case
  proof (cases "tcb_deadline (sc_tcb s x) \<le> now")
    case True
    let ?s1 = "set_state TASK_READY x (unlink_blocked x s)"
    note w = woken_fields[OF Cons.prems(1)]
    have "ids_ok (sc_tcb s) (insert x A)" using Cons.prems(4) by (auto simp: ids_ok_def inj_on_def)
    then obtain s2 where s2: "scheduler_add_task e x ?s1 = Some s2" "ready s2 (insert x A)" "nodes_available e s2 (length zs)"
      "sc_tcb s2 = sc_tcb ?s1" "sc_blocked_list s2 = sc_blocked_list ?s1"
      using wake_one[OF Cons.prems(1,2), of e "length zs"] Cons.prems(3,5) dseg_middle(6)[OF Cons.prems(1)] by auto
    have "\<exists>s'. process_blocked_loop e now (if zs = [] then NULL else hd zs) s2 = Some s' \<and>
     dlist (sc_tcb s') (sc_blocked_list s') (ys @ filter (\<lambda>x. now < tcb_deadline (sc_tcb s2 x)) zs) \<and>
     ready s' (insert x A \<union> {x \<in> set zs. tcb_deadline (sc_tcb s2 x) \<le> now}) \<and>
     (\<forall>x. tcb_state (sc_tcb s' x) = (if x \<in> set zs \<and> tcb_deadline (sc_tcb s2 x) \<le> now then TASK_READY else tcb_state (sc_tcb s2 x)))"
    proof (rule Cons.IH)
      show "dlist (sc_tcb s2) (sc_blocked_list s2) (ys @ zs)" using w(1) by (simp add: s2)
      show "ids_ok (sc_tcb s2) (insert x A \<union> set zs)"
        using Cons.prems(4) ids_ok_cong[of "sc_tcb s2" "sc_tcb s" "insert x A \<union> set zs"] by (simp add: s2 w(2-5))
    qed (use Cons.prems s2 dseg_middle(6)[OF Cons.prems(1)] in auto)
    then obtain s' where s': "process_blocked_loop e now (if zs = [] then NULL else hd zs) s2 = Some s'"
      "dlist (sc_tcb s') (sc_blocked_list s') (ys @ filter (\<lambda>x. now < tcb_deadline (sc_tcb s x)) zs)"
      "ready s' (insert x A \<union> {x \<in> set zs. tcb_deadline (sc_tcb s x) \<le> now})"
      "\<forall>u. tcb_state (sc_tcb s' u) = (if u \<in> set zs \<and> tcb_deadline (sc_tcb s u) \<le> now then TASK_READY else if u = x then TASK_READY else tcb_state (sc_tcb s u))"
      by (auto simp: s2 w(2-5))
    have st: "insert x A \<union> {x \<in> set zs. tcb_deadline (sc_tcb s x) \<le> now} = A \<union> {u \<in> set (x # zs). tcb_deadline (sc_tcb s u) \<le> now}"
      using True by auto
    have "process_blocked_loop e now (if x # zs = [] then NULL else hd (x # zs)) s = Some s'"
      using True xn nx s2(1) s'(1) by (subst process_blocked_loop.simps) (simp add: Let_def)
    moreover have "\<not> now < tcb_deadline (sc_tcb s x)" using True by simp
    ultimately show ?thesis using s'(2,4) s'(3)[unfolded st] True by (intro exI[of _ s']) (auto split: if_splits)
  next
    case False
    have "\<exists>s'. process_blocked_loop e now (if zs = [] then NULL else hd zs) s = Some s' \<and>
     dlist (sc_tcb s') (sc_blocked_list s') ((ys @ [x]) @ filter (\<lambda>x. now < tcb_deadline (sc_tcb s x)) zs) \<and>
     ready s' (A \<union> {x \<in> set zs. tcb_deadline (sc_tcb s x) \<le> now}) \<and>
     (\<forall>x. tcb_state (sc_tcb s' x) = (if x \<in> set zs \<and> tcb_deadline (sc_tcb s x) \<le> now then TASK_READY else tcb_state (sc_tcb s x)))"
    proof (rule Cons.IH)
      show "ids_ok (sc_tcb s) (A \<union> set zs)" using Cons.prems(4) by (auto simp: ids_ok_def intro: inj_on_subset)
      show "nodes_available e s (length zs)" using Cons.prems(5) by (simp add: nodes_available_def)
    qed (use Cons.prems in auto)
    then obtain s' where s': "process_blocked_loop e now (if zs = [] then NULL else hd zs) s = Some s'"
      "dlist (sc_tcb s') (sc_blocked_list s') (ys @ x # filter (\<lambda>x. now < tcb_deadline (sc_tcb s x)) zs)"
      "ready s' (A \<union> {x \<in> set zs. tcb_deadline (sc_tcb s x) \<le> now})"
      "\<forall>u. tcb_state (sc_tcb s' u) = (if u \<in> set zs \<and> tcb_deadline (sc_tcb s u) \<le> now then TASK_READY else tcb_state (sc_tcb s u))"
      by auto
    have st: "{x \<in> set zs. tcb_deadline (sc_tcb s x) \<le> now} = {u \<in> set (x # zs). tcb_deadline (sc_tcb s u) \<le> now}"
      using False by auto
    have "process_blocked_loop e now (if x # zs = [] then NULL else hd (x # zs)) s = Some s'"
      using False xn nx s'(1) by (subst process_blocked_loop.simps) (simp add: Let_def)
    moreover have "now < tcb_deadline (sc_tcb s x)" using False by simp
    ultimately show ?thesis using s'(2,4) s'(3)[unfolded st] False by (intro exI[of _ s']) auto
  qed
qed

section \<open>Task creation\<close>



definition table_room :: "hashtable_t option \<Rightarrow> bool" where
  "table_room table = (case table of None \<Rightarrow> True
     | Some t \<Rightarrow> 0 < ht_size t \<and> ht_size t \<le> DEFAULT_HASH_SIZE \<and> 4 * (ht_cnt t + 1) \<le> 3 * ht_size t)"


lemma table_room_ok: "table_room table \<Longrightarrow> table_ok table"
  by (auto simp: table_room_def table_ok_def split: option.splits)



section \<open>Defects\<close>

lemma create_on_fresh_pool:
  assumes "\<forall>q \<in> set (sc_task_pool s). sc_tcb s q = zero_tcb"
  shows "task_create e name entry arg prio stack_size s = Some (s, NULL)"
proof -
  have "filter (\<lambda>q. tcb_state (sc_tcb s q) = TASK_TERMINATED) (sc_task_pool s) = []"
    using assms by (auto simp: filter_empty_conv zero_tcb_def)
  then show ?thesis by (simp add: task_create_def find_free_tcb_def)
qed

lemma suspend_flushes_class:
  assumes "tc_rep (sc_tcb s) (sc_tc s) xss" "task \<noteq> NULL" "task \<noteq> sc_current_task s"
    and "tc_get_task_class (sc_tcb s) task = class" "class < TC_MAX_CLASSES"
  shows "tc_rep (sc_tcb (task_suspend e task s)) (sc_tc (task_suspend e task s)) (xss[unat class := []])"
proof -
  let ?m = "upd_tcb (tcb_state_update (\<lambda>_. TASK_SUSPENDED)) task (sc_tcb s)"
  have rep: "tc_rep ?m (sc_tc s) xss" by (rule tc_rep_frame[OF assms(1)]) (simp add: upd_tcb_def)
  have i: "unat class < 5" using assms(5) by (rule less_TC_MAX)
  let ?q = "(tc_queue (sc_tc s) class)\<lparr>tq_head := NULL, tq_tail := NULL, tq_count := 0\<rparr>"
  have q: "queue_ok ?m ?q []" by (simp add: queue_ok_def)
  have "distinct (concat (xss[unat class := []]))"
  proof -
    obtain X Y where "concat xss = X @ xss ! unat class @ Y" "\<forall>ys. concat (xss[unat class := ys]) = X @ ys @ Y"
      using concat_update_split[of "unat class" xss] i rep by (auto simp: tc_rep_def)
    with rep show ?thesis by (auto simp: tc_rep_def)
  qed
  from tc_rep_update[OF rep i q _ this]
  have "tc_rep ?m ((sc_tc s)\<lparr>tc_queues := (tc_queues (sc_tc s))[unat class := ?q]\<rparr>) (xss[unat class := []])" by simp
  moreover have "tc_get_task_class ?m task = class" using assms(2,4) by (simp add: tc_get_task_class_def upd_tcb_def)
  moreover have "\<not> TC_MAX_CLASSES \<le> class" using assms(5) by (simp only: not_le)
  ultimately show ?thesis using assms(2,3)
    by (simp add: task_suspend_def Let_def set_state_def enter_critical_def exit_critical_def tc_flush_queue_def upd_queue_def)
qed

section \<open>A concrete scheduler\<close>

text \<open>Tasks 10 and 20 are ready, 30 and 40 are blocked until the ticks 5 and 50, and the block 50 is free.\<close>

definition ex_task :: "u32 \<Rightarrow> u8 \<Rightarrow> tcb_t" where
  "ex_task i prio = zero_tcb\<lparr>tcb_id := i, tcb_priority := prio\<rparr>"

definition ex_mem :: tcb_mem where
  "ex_mem = (\<lambda>_. zero_tcb)(10 := ex_task 1 1, 20 := ex_task 2 3,
     30 := (ex_task 3 2)\<lparr>tcb_state := TASK_BLOCKED, tcb_deadline := 5, tcb_next := 40\<rparr>,
     40 := (ex_task 4 0)\<lparr>tcb_state := TASK_BLOCKED, tcb_deadline := 50, tcb_prev := 30\<rparr>,
     50 := zero_tcb\<lparr>tcb_state := TASK_TERMINATED\<rparr>)"

definition ex_env :: env where
  "ex_env = \<lparr>e_now = (\<lambda>_. 0), e_ok_id = (\<lambda>_. True), e_ok_name = (\<lambda>_. True), e_cstr = (\<lambda>k. k @ [0]),
     e_nil = (\<lambda>i. 90 + i), e_junk = (\<lambda>_. ex_node 0 0 0 RB_BLACK 0 0), e_node = (\<lambda>n. 100 + n),
     e_idle = (\<lambda>m. (m, NULL)), e_switch = (\<lambda>s. s)\<rparr>"

definition ex_sched :: "task_tree \<Rightarrow> sched_t" where
  "ex_sched t = \<lparr>sc_tcb = ex_mem, sc_tc = tc_init (\<lambda>_. 0) tc_boot, sc_current_task = NULL, sc_next_task = NULL,
     sc_task_count = 5, sc_stats = zero_sched_stats, sc_task_id_map = None, sc_task_name_map = None,
     sc_priority_tree = t, sc_deadline_tree = t, sc_rr_tree = t, sc_blocked_list = 30, sc_task_pool = [50],
     sc_stack_pool = 0x20000000, sc_idle_task = NULL, sc_current_policy = SCHED_PRIORITY,
     sc_preemption_mode = PREEMPT_ENABLE, sc_irq = True, sc_pendsv = False, sc_stack = (\<lambda>_. 0), sc_psp = 0,
     sc_regs = replicate 8 0, sc_mallocs = 0\<rparr>"

lemma ex_tree_two:
  fixes gk :: "tcb_mem \<Rightarrow> addr \<Rightarrow> u32"
  assumes "gk m 10 \<noteq> gk m 20"
  shows "\<exists>t. tree_rep gk t m {10, 20} \<and> (\<forall>b. rb_fresh b t \<longleftrightarrow> b \<notin> {0, 1, 2, 3})"
proof -
  define t0 :: task_tree where "t0 = \<lparr>rbt_root = 1, rbt_nil = 1, rbt_size = 0, rbt_get_key = gk,
     rbt_mem = (\<lambda>_. ex_node 0 0 0 RB_BLACK 0 0)(1 := ex_node 0 0 0 RB_BLACK 0 0), rbt_live = {1}\<rparr>"
  have i: "rb_init (\<lambda>_. ex_node 0 0 0 RB_BLACK 0 0) 1 gk = Some t0" by (simp add: rb_init_def t0_def ex_node_def)
  then have ok: "rb_ok t0 Leaf" using rb_init_ok[of 1 "\<lambda>_. ex_node 0 0 0 RB_BLACK 0 0" gk] by auto
  have r0: "tree_rep gk t0 m {}"
    unfolding tree_rep_def rb_rep_def using ok by (intro exI[of _ "[]"]) (auto simp: t0_def intro!: exI[of _ Leaf])
  have f0: "rb_fresh b t0 \<longleftrightarrow> b \<noteq> 0 \<and> b \<noteq> 1" for b by (simp add: rb_fresh_def t0_def)
  have "rb_fresh 2 t0" by (simp add: rb_fresh_def t0_def)
  then obtain t1 where t1: "tree_rep gk t1 m (insert 10 {})" "\<forall>b. rb_fresh b t1 \<longleftrightarrow> rb_fresh b t0 \<and> b \<noteq> 2"
    using tree_rep_insert[OF r0, of 10 2] by auto
  have "rb_fresh 3 t0" by (simp add: rb_fresh_def t0_def)
  then have "rb_fresh 3 t1" using t1(2) by simp
  then obtain t2 where t2: "tree_rep gk t2 m (insert 20 (insert 10 {}))" "\<forall>b. rb_fresh b t2 \<longleftrightarrow> rb_fresh b t1 \<and> b \<noteq> 3"
    using tree_rep_insert[OF t1(1), of 20 3] assms by auto
  moreover have "\<forall>b. rb_fresh b t2 \<longleftrightarrow> b \<notin> {0, 1, 2, 3}" using t1(2) t2(2) f0 by auto
  ultimately show ?thesis by (auto simp: insert_commute)
qed

lemma ex_priority_keys: "priority_key ex_mem 10 \<noteq> priority_key ex_mem 20"
  by (rule priority_key_neq) (simp_all add: ex_mem_def ex_task_def zero_tcb_def)

lemma ex_ready: "\<exists>t. ready (ex_sched t) {10, 20} \<and> (\<forall>n. rb_fresh (100 + n) t)"
proof -
  obtain t where "tree_rep priority_key t ex_mem {10, 20}" "\<forall>b. rb_fresh b t \<longleftrightarrow> b \<notin> {0, 1, 2, 3}"
    using ex_tree_two[of priority_key, OF ex_priority_keys] by blast
  then have "ready (ex_sched t) {10, 20} \<and> (\<forall>n. rb_fresh (100 + n) t)"
    by (simp add: ready_def ex_sched_def table_ok_def)
  then show ?thesis by blast
qed

lemma ex_ids: "ids_ok ex_mem {10, 20, 30, 40}"
  by (simp add: ids_ok_def ex_mem_def ex_task_def zero_tcb_def)

lemma ex_ids_ready: "ids_ok ex_mem {10, 20}"
  by (simp add: ids_ok_def ex_mem_def ex_task_def zero_tcb_def)

section \<open>Properties\<close>

text \<open>C21: Under the priority policy the next task is a ready task of the highest priority, and among
  those the one with the greatest identifier.\<close>

theorem get_next_task_highest_priority:
  assumes "ready s A" and "A \<noteq> {}" and "\<forall>u \<in> A. tcb_id (sc_tcb s u) < 2 ^ 24"
  shows "\<exists>v \<in> A. get_next_task s = Some v \<and> (\<forall>u \<in> A. tcb_priority (sc_tcb s u) < tcb_priority (sc_tcb s v) \<or>
     tcb_priority (sc_tcb s u) = tcb_priority (sc_tcb s v) \<and> tcb_id (sc_tcb s u) \<le> tcb_id (sc_tcb s v))"
  using assms by (rule get_next_task_priority)

theorem get_next_task_highest_priority_witness: "\<exists>t. ready (ex_sched t) {10, 20} \<and> get_next_task (ex_sched t) = Some 20"
proof -
  obtain t where t: "ready (ex_sched t) {10, 20}" using ex_ready by blast
  have m: "sc_tcb (ex_sched t) = ex_mem" by (simp add: ex_sched_def)
  have "\<forall>u \<in> {10, 20}. tcb_id (sc_tcb (ex_sched t) u) < 2 ^ 24" unfolding m using ex_ids_ready unfolding ids_ok_def by blast
  from get_next_task_highest_priority[OF t _ this]
  obtain v where v: "v \<in> {10, 20}" "get_next_task (ex_sched t) = Some v"
    "\<forall>u \<in> {10, 20}. tcb_priority (ex_mem u) < tcb_priority (ex_mem v) \<or>
       tcb_priority (ex_mem u) = tcb_priority (ex_mem v) \<and> tcb_id (ex_mem u) \<le> tcb_id (ex_mem v)"
    unfolding m by blast
  have "v = 20" using v(1,3) by (auto simp: ex_mem_def ex_task_def zero_tcb_def)
  with t v(2) show ?thesis by blast
qed

text \<open>Under the EDF policy the next task is one with the earliest deadline among the tasks of the
  deadline tree.\<close>

theorem get_next_task_earliest_deadline:
  assumes "sc_current_policy s = SCHED_EDF" and "tree_rep deadline_key (sc_deadline_tree s) (sc_tcb s) D" and "D \<noteq> {}"
    and "rbt_nil (sc_priority_tree s) \<notin> rbt_live (sc_deadline_tree s)"
  shows "\<exists>v \<in> D. get_next_task s = Some v \<and> (\<forall>u \<in> D. tcb_deadline (sc_tcb s v) \<le> tcb_deadline (sc_tcb s u))"
  using assms by (rule get_next_task_edf)

theorem get_next_task_earliest_deadline_witness:
  "\<exists>s. sc_current_policy s = SCHED_EDF \<and> get_next_task s = Some 20 \<and> tcb_deadline (sc_tcb s 20) = 3"
proof -
  let ?m = "(\<lambda>_. zero_tcb)(10 := zero_tcb\<lparr>tcb_deadline := 7\<rparr>, 20 := zero_tcb\<lparr>tcb_deadline := 3\<rparr>) :: tcb_mem"
  have "deadline_key ?m 10 \<noteq> deadline_key ?m 20" by (simp add: deadline_key_def)
  from ex_tree_two[of deadline_key, OF this] obtain t where rep: "tree_rep deadline_key t ?m {10, 20}"
    "\<forall>b. rb_fresh b t \<longleftrightarrow> b \<notin> {0, 1, 2, 3}" by blast
  define s where "s = (ex_sched t)\<lparr>sc_tcb := ?m, sc_current_policy := SCHED_EDF, sc_priority_tree := t\<lparr>rbt_nil := 90\<rparr>\<rparr>"
  have "rb_fresh 90 t" using rep(2) by simp
  then have "90 \<notin> rbt_live t" by (simp add: rb_fresh_def)
  then have "\<exists>v \<in> {10, 20}. get_next_task s = Some v \<and> (\<forall>u \<in> {10, 20}. tcb_deadline (sc_tcb s v) \<le> tcb_deadline (sc_tcb s u))"
    by (intro get_next_task_earliest_deadline) (use rep(1) in \<open>simp_all add: s_def ex_sched_def\<close>)
  then have "get_next_task s = Some 20" by (auto simp: s_def zero_tcb_def)
  then show ?thesis by (intro exI[of _ s]) (simp add: s_def)
qed

text \<open>C14: When a task of higher priority is blocked by a ready task, the blocker takes over that priority
  and is queued under it; the ready tasks stay the same, the blocker's own priority is saved once, the
  blocking relation is recorded, and no other task's priority changes.\<close>

theorem inherit_priority_correct:
  assumes "ready s A" and "blocker \<in> A" and "blocked \<noteq> NULL"
    and "tcb_priority (sc_tcb s blocker) < tcb_priority (sc_tcb s blocked)"
    and "ids_ok (sc_tcb s) A" and "rb_fresh (e_node e (sc_mallocs s)) (sc_priority_tree s)"
  shows "\<exists>s'. inherit_priority e blocker blocked s = Some s' \<and> ready s' A \<and>
     tcb_priority (sc_tcb s' blocker) = tcb_priority (sc_tcb s blocked) \<and>
     (\<forall>u. u \<noteq> blocker \<longrightarrow> tcb_priority (sc_tcb s' u) = tcb_priority (sc_tcb s u)) \<and>
     tcb_original_priority (sc_tcb s' blocker) =
       (if tcb_flags (sc_tcb s blocker) AND TASK_FLAG_INHERITED = 0 then tcb_priority (sc_tcb s blocker)
        else tcb_original_priority (sc_tcb s blocker)) \<and>
     tcb_blocked_by (sc_tcb s' blocked) = blocker \<and> tcb_blocking (sc_tcb s' blocker) = blocked"
proof -
  have "blocker \<noteq> blocked" using assms(4) by auto
  with inherit_ok[OF assms] show ?thesis by (auto simp: inherited_def)
qed

theorem inherit_priority_correct_witness:
  "\<exists>t s'. inherit_priority ex_env 10 30 (ex_sched t) = Some s' \<and> ready s' {10, 20} \<and> tcb_priority (sc_tcb s' 10) = 2"
proof -
  obtain t where t: "ready (ex_sched t) {10, 20}" "\<forall>n. rb_fresh (100 + n) t" using ex_ready by blast
  have s: "sc_mallocs (ex_sched t) = 0" "sc_priority_tree (ex_sched t) = t" "e_node ex_env = (\<lambda>n. 100 + n)"
    by (simp_all add: ex_sched_def ex_env_def)
  have f: "rb_fresh (e_node ex_env (sc_mallocs (ex_sched t))) (sc_priority_tree (ex_sched t))" using t(2) by (simp only: s)
  have i: "ids_ok (sc_tcb (ex_sched t)) {10, 20}" using ex_ids_ready by (simp add: ex_sched_def)
  have p: "tcb_priority (sc_tcb (ex_sched t) 10) < tcb_priority (sc_tcb (ex_sched t) 30)"
    "tcb_priority (sc_tcb (ex_sched t) 30) = 2"
    by (simp_all add: ex_sched_def ex_mem_def ex_task_def zero_tcb_def)
  from inherit_priority_correct[OF t(1) _ _ p(1) i f] p(2) show ?thesis by auto
qed





text \<open>C12: \<open>process_blocked_tasks\<close> wakes exactly the delayed tasks whose tick has come, wherever they are in
  the blocked list: it ends, they become ready, the others stay linked in their order, and only the
  woken tasks change state.\<close>

theorem process_blocked_wakes:
  assumes "dlist (sc_tcb s) (sc_blocked_list s) zs" and "ready s A" and "set zs \<inter> A = {}"
    and "ids_ok (sc_tcb s) (A \<union> set zs)" and "nodes_available e s (length zs)"
  shows "\<exists>s'. process_blocked_tasks e now s = Some s' \<and>
     dlist (sc_tcb s') (sc_blocked_list s') (filter (\<lambda>x. now < tcb_deadline (sc_tcb s x)) zs) \<and>
     ready s' (A \<union> {x \<in> set zs. tcb_deadline (sc_tcb s x) \<le> now}) \<and>
     (\<forall>x. tcb_state (sc_tcb s' x) = (if x \<in> set zs \<and> tcb_deadline (sc_tcb s x) \<le> now then TASK_READY else tcb_state (sc_tcb s x)))"
proof -
  have "sc_blocked_list s = (if zs = [] then NULL else hd zs)" using assms(1) by (rule dseg_head)
  then show ?thesis using process_blocked_loop_ok[of s "[]" zs A e now] assms
    by (simp add: process_blocked_tasks_def)
qed

theorem process_blocked_wakes_witness:
  "\<exists>t s'. process_blocked_tasks ex_env 7 (ex_sched t) = Some s' \<and> ready s' {10, 20, 30} \<and>
     dlist (sc_tcb s') (sc_blocked_list s') [40] \<and> tcb_state (sc_tcb s' 30) = TASK_READY"
proof -
  obtain t where t: "ready (ex_sched t) {10, 20}" "\<forall>n. rb_fresh (100 + n) t" using ex_ready by blast
  let ?s = "ex_sched t"
  have s: "sc_mallocs ?s = 0" "sc_priority_tree ?s = t" "e_node ex_env = (\<lambda>n. 100 + n)" "sc_tcb ?s = ex_mem" "sc_blocked_list ?s = 30"
    by (simp_all add: ex_sched_def ex_env_def)
  have d: "dlist (sc_tcb ?s) (sc_blocked_list ?s) [30, 40]" by (simp add: s ex_mem_def ex_task_def zero_tcb_def)
  have n: "nodes_available ex_env ?s (length [30, 40])" using t(2) by (simp add: nodes_available_def s upt_rec)
  have i: "ids_ok (sc_tcb ?s) ({10, 20} \<union> set [30, 40])" using ex_ids by (simp add: s insert_commute)
  have j: "set [30, 40] \<inter> {10, 20} = ({} :: addr set)" by simp
  have dl: "tcb_deadline (ex_mem 30) = 5" "tcb_deadline (ex_mem 40) = 50" by (simp_all add: ex_mem_def)
  have e: "{10, 20} \<union> {x \<in> set [30, 40]. tcb_deadline (sc_tcb ?s x) \<le> 7} = {10, 20, 30}"
    "filter (\<lambda>x. 7 < tcb_deadline (sc_tcb ?s x)) [30, 40] = [40]"
    "30 \<in> set [30, 40 :: addr] \<and> tcb_deadline (sc_tcb ?s 30) \<le> 7" by (auto simp: s dl)
  obtain s' where s': "process_blocked_tasks ex_env 7 ?s = Some s'" "dlist (sc_tcb s') (sc_blocked_list s') [40]" "ready s' {10, 20, 30}"
    "tcb_state (sc_tcb s' 30) = (if 30 \<in> set [30, 40 :: addr] \<and> tcb_deadline (sc_tcb ?s 30) \<le> 7 then TASK_READY else tcb_state (sc_tcb ?s 30))"
    using process_blocked_wakes[OF d t(1) j i n, of 7] unfolding e(1,2) by blast
  then show ?thesis using e(3) by (intro exI[of _ t] exI[of _ s']) simp
qed

text \<open>C13: Dispatching takes the first task of the first non-empty traffic class, makes it the running
  current task, counts the switch, raises PendSV and leaves the rest of the queues; with empty queues
  nothing happens.\<close>

theorem schedule_next_task_dispatches:
  assumes "tc_initialized (sc_tc s)" and "tc_rep (sc_tcb s) (sc_tc s) xss"
  shows "case concat xss of
     [] \<Rightarrow> schedule_next_task s = s
   | x # rest \<Rightarrow> \<exists>yss. tc_rep (sc_tcb (schedule_next_task s)) (sc_tc (schedule_next_task s)) yss \<and> concat yss = rest \<and>
       sc_current_task (schedule_next_task s) = x \<and> sc_pendsv (schedule_next_task s) \<and>
       tcb_state (sc_tcb (schedule_next_task s) x) = TASK_RUNNING \<and>
       st_context_switches (sc_stats (schedule_next_task s)) = st_context_switches (sc_stats s) + 1"
  using assms by (rule schedule_next_ok)

theorem schedule_next_task_dispatches_witness:
  "\<forall>t. sc_current_task (schedule_next_task ((ex_sched t)\<lparr>sc_tcb := ex_tcb_mem, sc_tc := ex_tc\<rparr>)) = 7"
proof
  fix t
  let ?s = "(ex_sched t)\<lparr>sc_tcb := ex_tcb_mem, sc_tc := ex_tc\<rparr>"
  have "tc_initialized (sc_tc ?s)" by (simp add: ex_tc_def)
  moreover have "tc_rep (sc_tcb ?s) (sc_tc ?s) [[7], [], [8], [], []]" using ex_tc_rep by simp
  ultimately show "sc_current_task (schedule_next_task ?s) = 7"
    using schedule_next_task_dispatches[of ?s "[[7], [], [8], [], []]"] by auto
qed

text \<open>Critical sections do not nest: \<open>scheduler_add_task\<close> and \<open>scheduler_remove_task\<close>, called with
  interrupts disabled as inside \<open>inherit_priority\<close>, return with interrupts enabled, so that the rest of
  the caller's critical section can be interrupted.\<close>

theorem critical_sections_do_not_nest:
  assumes "task \<noteq> NULL"
  shows "\<not> sc_irq (enter_critical s) \<and>
     (\<forall>s'. scheduler_add_task e task (enter_critical s) = Some s' \<longrightarrow> sc_irq s') \<and>
     (\<forall>s'. scheduler_remove_task e task (enter_critical s) = Some s' \<longrightarrow> sc_irq s')"
  using add_task_irq[OF assms] remove_task_irq[OF assms] by (auto simp: enter_critical_def)

theorem critical_sections_do_not_nest_witness:
  "\<exists>t s'. scheduler_remove_task ex_env 10 (enter_critical (ex_sched t)) = Some s' \<and> sc_irq s'"
proof -
  obtain t where t: "ready (ex_sched t) {10, 20}" using ex_ready by blast
  then have "ready (enter_critical (ex_sched t)) {10, 20}" by (simp add: ready_def enter_critical_def)
  from remove_task_ok[OF this, of 10 ex_env] obtain s' where
    "scheduler_remove_task ex_env 10 (enter_critical (ex_sched t)) = Some s'" by auto
  with critical_sections_do_not_nest[of 10 "ex_sched t" ex_env] show ?thesis by auto
qed

text \<open>No task can be created after start-up: \<open>task_create\<close> looks for a block in state
  \<open>TASK_TERMINATED\<close>, but the static pool is zero, that is \<open>TASK_READY\<close>, so every call returns \<open>NULL\<close>.\<close>

theorem task_create_fails_after_boot:
  assumes "\<forall>q \<in> set (sc_task_pool s). sc_tcb s q = zero_tcb"
  shows "task_create e name entry arg prio stack_size s = Some (s, NULL)"
  using assms by (rule create_on_fresh_pool)

theorem task_create_fails_after_boot_witness:
  "\<forall>t. task_create ex_env [97] 4096 0 2 512 ((ex_sched t)\<lparr>sc_tcb := (\<lambda>_. zero_tcb)\<rparr>) =
     Some ((ex_sched t)\<lparr>sc_tcb := (\<lambda>_. zero_tcb)\<rparr>, NULL)"
proof
  fix t
  show "task_create ex_env [97] 4096 0 2 512 ((ex_sched t)\<lparr>sc_tcb := (\<lambda>_. zero_tcb)\<rparr>) =
     Some ((ex_sched t)\<lparr>sc_tcb := (\<lambda>_. zero_tcb)\<rparr>, NULL)"
    by (rule task_create_fails_after_boot) simp
qed

section \<open>Further defects\<close>

text \<open>The context switch stores the stack pointer into the first word of the task, its identifier.\<close>

theorem PendSV_overwrites_id:
  assumes "sc_current_task s \<noteq> NULL" and "sc_next_task s \<noteq> NULL"
  shows "\<exists>s'. PendSV_Handler s = Some s' \<and> tcb_id (sc_tcb s' (sc_current_task s)) = sc_psp s - 32 \<and>
     tcb_stack_ptr (sc_tcb s' (sc_current_task s)) = tcb_stack_ptr (sc_tcb s (sc_current_task s))"
  using assms by (simp add: PendSV_Handler_def Let_def upd_tcb_def)

text \<open>Suspending one task removes every task of its class from the traffic control.\<close>

theorem task_suspend_flushes_class:
  assumes "tc_rep (sc_tcb s) (sc_tc s) xss" and "task \<noteq> NULL" and "task \<noteq> sc_current_task s"
    and "tc_get_task_class (sc_tcb s) task = class" and "class < TC_MAX_CLASSES"
  shows "tc_rep (sc_tcb (task_suspend e task s)) (sc_tc (task_suspend e task s)) (xss[unat class := []])"
  using assms by (rule suspend_flushes_class)

end
