(* ===== verification/Simulation.thy ===== *)
theory Simulation
  imports Prelude
begin

text \<open>
  Interleavings of operations as labelled step relations: the executions of a step relation with
  their traces, the invariant of a state machine and the simulation of one machine by another. The
  components interpret both locales on their own step relations.
\<close>

type_synonym tid = nat

inductive steps :: "('s \<Rightarrow> 'e \<Rightarrow> 's \<Rightarrow> bool) \<Rightarrow> 's \<Rightarrow> 'e list \<Rightarrow> 's \<Rightarrow> bool" for step where
  steps_Nil: "steps step s [] s"
| steps_Cons: "step s e t \<Longrightarrow> steps step t es u \<Longrightarrow> steps step s (e # es) u"

inductive_simps steps_Nil_iff [simp]: "steps step s [] u"
inductive_simps steps_Cons_iff [simp]: "steps step s (e # es) u"

lemma steps_append: "steps step s (es @ fs) u \<longleftrightarrow> (\<exists>t. steps step s es t \<and> steps step t fs u)"
  by (induction es arbitrary: s) auto

text \<open>An invariant that every step keeps holds in every reachable state.\<close>

locale state_machine =
  fixes step :: "'s \<Rightarrow> 'e \<Rightarrow> 's \<Rightarrow> bool"
    and invar :: "'s \<Rightarrow> bool"
  assumes invar_step: "invar s \<Longrightarrow> step s e t \<Longrightarrow> invar t"
begin

lemma invar_steps: "steps step s es t \<Longrightarrow> invar s \<Longrightarrow> invar t"
  by (induction rule: steps.induct) (auto intro: invar_step)

end

text \<open>A simulation carries traces of the detailed machine over to the abstract one.\<close>

locale simulation =
  fixes cstep :: "'c \<Rightarrow> 'e \<Rightarrow> 'c \<Rightarrow> bool"
    and astep :: "'a \<Rightarrow> 'e \<Rightarrow> 'a \<Rightarrow> bool"
    and sim :: "'c \<Rightarrow> 'a \<Rightarrow> bool"
  assumes sim_step: "sim c a \<Longrightarrow> cstep c e c' \<Longrightarrow> \<exists>a'. astep a e a' \<and> sim c' a'"
begin

lemma sim_steps: "steps cstep c es c' \<Longrightarrow> sim c a \<Longrightarrow> \<exists>a'. steps astep a es a' \<and> sim c' a'"
proof (induction arbitrary: a rule: steps.induct)
  case (steps_Cons c e c1 es c2)
  then obtain a1 where "astep a e a1" "sim c1 a1" using sim_step by blast
  with steps_Cons.IH[of a1] show ?case by auto
qed auto

end

end
