(* ===== verification/Multiqueue.thy ===== *)
theory Multiqueue
  imports Linked_List Simulation
begin

text \<open>
  Model of \<open>mini_rtos/src/multiqueue.c\<close>: bounded queues of copied messages, ordered by arrival,
  priority or deadline, that are kept on doubly linked items, and the manager that names them.

  The semaphores \<open>not_empty\<close> and \<open>not_full\<close>, the mutexes and the table of names are used through an
  interface that no file of the repository defines (\<open>semaphore_wait\<close>, \<open>semaphore_post\<close>,
  \<open>semaphore_reset\<close>, \<open>ht_get\<close> and \<open>ht_insert\<close> with two and three arguments): they are the parameters
  \<open>sem_ops\<close> and \<open>reg_ops\<close>. A mutex that brackets an operation makes it atomic and has no other
  effect here. Items live in a memory of records; \<open>mq_live\<close> is the set of the item blocks that are
  allocated. The bytes behind \<open>item->data\<close> belong to the item and are kept in it. The value \<open>None\<close>
  of an operation is undefined behaviour: a null pointer read, a copy beyond the caller's buffer.
\<close>

section \<open>Data\<close>

datatype queue_type_t = QUEUE_TYPE_FIFO | QUEUE_TYPE_PRIORITY | QUEUE_TYPE_DEADLINE
  | QUEUE_TYPE_ROUND_ROBIN | QUEUE_TYPE_WEIGHTED

datatype queue_policy_t = QUEUE_POLICY_BLOCK | QUEUE_POLICY_OVERWRITE | QUEUE_POLICY_DISCARD

record queue_stats_t =
  qs_enqueued :: u32
  qs_dequeued :: u32
  qs_dropped :: u32
  qs_timeouts :: u32
  qs_peak_usage :: u32
  qs_current_usage :: u32

record queue_item_t =
  qi_data :: "u8 list"
  qi_size :: u32
  qi_priority :: u32
  qi_deadline :: u64
  qi_weight :: u32
  qi_next :: addr
  qi_prev :: addr

record 's queue_t =
  q_type :: queue_type_t
  q_policy :: queue_policy_t
  q_max_items :: u32
  q_current_items :: u32
  q_item_size :: u32
  q_head :: addr
  q_tail :: addr
  q_stats :: queue_stats_t
  q_mutex :: addr
  q_not_empty :: 's
  q_not_full :: 's

record 'r mqueue_manager_t =
  mm_queues :: 'r
  mm_active_queues :: u32
  mm_initialized :: bool
  mm_mutex :: addr

record 's mq_state =
  mq_queue :: "addr \<Rightarrow> 's queue_t"
  mq_item :: "addr \<Rightarrow> queue_item_t"
  mq_live :: "addr set"

text \<open>The semaphores: a wait returns whether it succeeded before the timeout.\<close>

record 's sem_ops =
  sem_create :: "u32 \<Rightarrow> 's"
  sem_wait :: "'s \<Rightarrow> u32 \<Rightarrow> bool \<times> 's"
  sem_post :: "'s \<Rightarrow> 's"
  sem_reset :: "'s \<Rightarrow> u32 \<Rightarrow> 's"

text \<open>The table of names: \<open>reg_get\<close> returns \<open>NULL\<close> for an unknown name, \<open>reg_insert\<close> an \<open>int\<close>.\<close>

record 'r reg_ops =
  reg_create :: "u32 \<Rightarrow> 'r"
  reg_none :: 'r
  reg_get :: "'r \<Rightarrow> u8 list \<Rightarrow> addr"
  reg_insert :: "'r \<Rightarrow> u8 list \<Rightarrow> addr \<Rightarrow> 'r \<times> int"
  reg_remove :: "'r \<Rightarrow> u8 list \<Rightarrow> 'r"

definition zero_queue_stats :: queue_stats_t where
  "zero_queue_stats = \<lparr>qs_enqueued = 0, qs_dequeued = 0, qs_dropped = 0, qs_timeouts = 0,
     qs_peak_usage = 0, qs_current_usage = 0\<rparr>"

abbreviation upd_item :: "addr \<Rightarrow> (queue_item_t \<Rightarrow> queue_item_t) \<Rightarrow> 's mq_state \<Rightarrow> 's mq_state" where
  "upd_item p f s \<equiv> s\<lparr>mq_item := (mq_item s)(p := f (mq_item s p))\<rparr>"

abbreviation upd_queue :: "addr \<Rightarrow> ('s queue_t \<Rightarrow> 's queue_t) \<Rightarrow> 's mq_state \<Rightarrow> 's mq_state" where
  "upd_queue q f s \<equiv> s\<lparr>mq_queue := (mq_queue s)(q := f (mq_queue s q))\<rparr>"

abbreviation upd_stats :: "(queue_stats_t \<Rightarrow> queue_stats_t) \<Rightarrow> 's queue_t \<Rightarrow> 's queue_t" where
  "upd_stats f Q \<equiv> Q\<lparr>q_stats := f (q_stats Q)\<rparr>"

abbreviation free_item :: "addr \<Rightarrow> 's mq_state \<Rightarrow> 's mq_state" where
  "free_item p s \<equiv> s\<lparr>mq_live := mq_live s - {p}\<rparr>"

section \<open>The manager\<close>

definition mqueue_init :: "'r reg_ops \<Rightarrow> addr \<Rightarrow> 'r mqueue_manager_t \<Rightarrow> 'r mqueue_manager_t" where
  "mqueue_init ro mutex mm =
     (if mm_initialized mm then mm
      else mm\<lparr>mm_queues := reg_create ro 32, mm_active_queues := 0, mm_mutex := mutex, mm_initialized := True\<rparr>)"

definition mqueue_shutdown :: "'r reg_ops \<Rightarrow> 'r mqueue_manager_t \<Rightarrow> 'r mqueue_manager_t" where
  "mqueue_shutdown ro mm =
     (if \<not> mm_initialized mm then mm
      else mm\<lparr>mm_queues := reg_none ro, mm_active_queues := 0, mm_mutex := NULL, mm_initialized := False\<rparr>)"

text \<open>The fields of a new queue.\<close>

definition new_queue :: "'s sem_ops \<Rightarrow> addr \<Rightarrow> queue_type_t \<Rightarrow> queue_policy_t \<Rightarrow> u32 \<Rightarrow> u32 \<Rightarrow> 's queue_t" where
  "new_queue so mutex ty policy max_items item_size =
     \<lparr>q_type = ty, q_policy = policy, q_max_items = max_items, q_current_items = 0, q_item_size = item_size,
      q_head = NULL, q_tail = NULL, q_stats = zero_queue_stats, q_mutex = mutex,
      q_not_empty = sem_create so 0, q_not_full = sem_create so max_items\<rparr>"

text \<open>\<open>queue\<close> is the address \<open>malloc\<close> returned, \<open>name\<close> is \<open>None\<close> for a null pointer.\<close>

definition mqueue_create :: "'r reg_ops \<Rightarrow> 's sem_ops \<Rightarrow> addr \<Rightarrow> addr \<Rightarrow> u8 list option \<Rightarrow> queue_type_t \<Rightarrow>
    queue_policy_t \<Rightarrow> u32 \<Rightarrow> u32 \<Rightarrow> 'r mqueue_manager_t \<Rightarrow> 's mq_state \<Rightarrow> addr \<times> 'r mqueue_manager_t \<times> 's mq_state" where
  "mqueue_create ro so queue mutex name ty policy max_items item_size mm s =
     (case name of None \<Rightarrow> (NULL, mm, s)
      | Some nm \<Rightarrow>
         if \<not> mm_initialized mm \<or> max_items = 0 \<or> item_size = 0 then (NULL, mm, s)
         else if reg_get ro (mm_queues mm) nm \<noteq> NULL then (NULL, mm, s)
         else if queue = NULL then (NULL, mm, s)
         else
           let s = upd_queue queue (\<lambda>_. new_queue so mutex ty policy max_items item_size) s;
               (r, code) = reg_insert ro (mm_queues mm) nm queue;
               mm = mm\<lparr>mm_queues := r\<rparr> in
           if code = 0 then (NULL, mm, s)
           else (queue, mm\<lparr>mm_active_queues := mm_active_queues mm + 1\<rparr>, s))"

text \<open>Freeing every item of a chain; \<open>mqueue_flush\<close> counts them as dropped.\<close>

partial_function (option) free_items :: "addr \<Rightarrow> addr \<Rightarrow> bool \<Rightarrow> 's mq_state \<Rightarrow> 's mq_state option" where
  "free_items q current counted s =
     (if current = NULL then Some s
      else
        let nxt = qi_next (mq_item s current);
            s = free_item current s;
            s = (if counted then upd_queue q (upd_stats (\<lambda>st. st\<lparr>qs_dropped := qs_dropped st + 1\<rparr>)) s else s)
        in free_items q nxt counted s)"

definition mqueue_destroy :: "'r reg_ops \<Rightarrow> u8 list option \<Rightarrow> 'r mqueue_manager_t \<Rightarrow> 's mq_state \<Rightarrow>
    (bool \<times> 'r mqueue_manager_t \<times> 's mq_state) option" where
  "mqueue_destroy ro name mm s =
     (case name of None \<Rightarrow> Some (False, mm, s)
      | Some nm \<Rightarrow>
         if \<not> mm_initialized mm then Some (False, mm, s)
         else
           let queue = reg_get ro (mm_queues mm) nm in
           if queue = NULL then Some (False, mm, s)
           else
             let mm = mm\<lparr>mm_queues := reg_remove ro (mm_queues mm) nm\<rparr> in
             Option.bind (free_items queue (q_head (mq_queue s queue)) False s) (\<lambda>s.
               Some (True, mm\<lparr>mm_active_queues := mm_active_queues mm - 1\<rparr>, s)))"

definition mqueue_get :: "'r reg_ops \<Rightarrow> u8 list option \<Rightarrow> 'r mqueue_manager_t \<Rightarrow> addr" where
  "mqueue_get ro name mm =
     (case name of None \<Rightarrow> NULL
      | Some nm \<Rightarrow> if \<not> mm_initialized mm then NULL else reg_get ro (mm_queues mm) nm)"

section \<open>Inserting an item\<close>

text \<open>In front of the head (both ordered types).\<close>

definition link_first :: "addr \<Rightarrow> addr \<Rightarrow> 's mq_state \<Rightarrow> 's mq_state" where
  "link_first q item s =
     (let h = q_head (mq_queue s q);
          s = upd_item item (qi_next_update (\<lambda>_. h)) s;
          s = (if h \<noteq> NULL then upd_item h (qi_prev_update (\<lambda>_. item)) s else s);
          s = upd_queue q (q_head_update (\<lambda>_. item)) s
      in if q_tail (mq_queue s q) = NULL then upd_queue q (q_tail_update (\<lambda>_. item)) s else s)"

text \<open>Behind the item \<open>current\<close>.\<close>

definition link_after :: "addr \<Rightarrow> addr \<Rightarrow> addr \<Rightarrow> 's mq_state \<Rightarrow> 's mq_state" where
  "link_after q current item s =
     (let n = qi_next (mq_item s current);
          s = upd_item item (\<lambda>i. i\<lparr>qi_next := n, qi_prev := current\<rparr>) s;
          s = (if n \<noteq> NULL then upd_item n (qi_prev_update (\<lambda>_. item)) s else s);
          s = upd_item current (qi_next_update (\<lambda>_. item)) s
      in if qi_next (mq_item s item) = NULL then upd_queue q (q_tail_update (\<lambda>_. item)) s else s)"

text \<open>The loop \<open>while (current->next && stay(current->next)) current = current->next\<close>.\<close>

partial_function (option) skip_items :: "(queue_item_t \<Rightarrow> bool) \<Rightarrow> (addr \<Rightarrow> queue_item_t) \<Rightarrow> addr \<Rightarrow> addr option" where
  "skip_items stay m current =
     (let n = qi_next (m current) in
      if n \<noteq> NULL \<and> stay (m n) then skip_items stay m n else Some current)"

definition insert_priority :: "addr \<Rightarrow> addr \<Rightarrow> u32 \<Rightarrow> 's mq_state \<Rightarrow> 's mq_state option" where
  "insert_priority q item priority s =
     (let h = q_head (mq_queue s q) in
      if h = NULL \<or> priority > qi_priority (mq_item s h) then Some (link_first q item s)
      else Option.bind (skip_items (\<lambda>i. qi_priority i \<ge> priority) (mq_item s) h) (\<lambda>current.
             Some (link_after q current item s)))"

definition insert_deadline :: "addr \<Rightarrow> addr \<Rightarrow> u64 \<Rightarrow> 's mq_state \<Rightarrow> 's mq_state option" where
  "insert_deadline q item deadline s =
     (let h = q_head (mq_queue s q) in
      if h = NULL \<or> deadline < qi_deadline (mq_item s h) then Some (link_first q item s)
      else Option.bind (skip_items (\<lambda>i. qi_deadline i \<le> deadline) (mq_item s) h) (\<lambda>current.
             Some (link_after q current item s)))"

definition insert_tail :: "addr \<Rightarrow> addr \<Rightarrow> 's mq_state \<Rightarrow> 's mq_state" where
  "insert_tail q item s =
     (let t = q_tail (mq_queue s q) in
      if t = NULL then upd_queue q (\<lambda>Q. Q\<lparr>q_head := item, q_tail := item\<rparr>) s
      else
        let s = upd_item item (qi_prev_update (\<lambda>_. t)) s;
            s = upd_item t (qi_next_update (\<lambda>_. item)) s
        in upd_queue q (q_tail_update (\<lambda>_. item)) s)"

definition insert_item :: "addr \<Rightarrow> addr \<Rightarrow> u32 \<Rightarrow> u64 \<Rightarrow> 's mq_state \<Rightarrow> 's mq_state option" where
  "insert_item q item priority deadline s =
     (case q_type (mq_queue s q) of
        QUEUE_TYPE_PRIORITY \<Rightarrow> insert_priority q item priority s
      | QUEUE_TYPE_DEADLINE \<Rightarrow> insert_deadline q item deadline s
      | _ \<Rightarrow> Some (insert_tail q item s))"

text \<open>The counters after an insertion.\<close>

definition count_enqueued :: "'s queue_t \<Rightarrow> 's queue_t" where
  "count_enqueued Q =
     (let Q = Q\<lparr>q_current_items := q_current_items Q + 1\<rparr>;
          n = q_current_items Q;
          Q = upd_stats (\<lambda>st. st\<lparr>qs_enqueued := qs_enqueued st + 1\<rparr>) Q;
          Q = (if n > qs_peak_usage (q_stats Q) then upd_stats (qs_peak_usage_update (\<lambda>_. n)) Q else Q)
      in upd_stats (qs_current_usage_update (\<lambda>_. n)) Q)"

text \<open>
  \<open>item\<close> is what \<open>malloc(sizeof(queue_item_t))\<close> returned, \<open>data_ok\<close> whether \<open>malloc(size)\<close>
  succeeded; \<open>data\<close> is the caller's buffer, \<open>None\<close> for a null pointer.
\<close>

definition mqueue_enqueue :: "'s sem_ops \<Rightarrow> addr \<Rightarrow> bool \<Rightarrow> addr \<Rightarrow> u8 list option \<Rightarrow> u32 \<Rightarrow> u32 \<Rightarrow> u64 \<Rightarrow> u32 \<Rightarrow> u32 \<Rightarrow>
    's mq_state \<Rightarrow> (bool \<times> 's mq_state) option" where
  "mqueue_enqueue so item data_ok q data sz priority deadline weight timeout_ms s =
     (if q = NULL \<or> data = None \<or> sz > q_item_size (mq_queue s q) then Some (False, s)
      else
        let (ok, sem) = sem_wait so (q_not_full (mq_queue s q)) timeout_ms;
            s = upd_queue q (q_not_full_update (\<lambda>_. sem)) s in
        if \<not> ok then Some (False, upd_queue q (upd_stats (\<lambda>st. st\<lparr>qs_timeouts := qs_timeouts st + 1\<rparr>)) s)
        else if item = NULL \<or> \<not> data_ok
        then Some (False, upd_queue q (\<lambda>Q. Q\<lparr>q_not_full := sem_post so (q_not_full Q)\<rparr>) s)
        else if length (the data) < unat sz then None
        else
          let s = s\<lparr>mq_item := (mq_item s)(item := \<lparr>qi_data = take (unat sz) (the data), qi_size = sz,
                      qi_priority = priority, qi_deadline = deadline, qi_weight = weight,
                      qi_next = NULL, qi_prev = NULL\<rparr>),
                    mq_live := insert item (mq_live s)\<rparr>
          in Option.bind (insert_item q item priority deadline s) (\<lambda>s.
               let s = upd_queue q count_enqueued s
               in Some (True, upd_queue q (\<lambda>Q. Q\<lparr>q_not_empty := sem_post so (q_not_empty Q)\<rparr>) s)))"

section \<open>Removing an item\<close>

text \<open>Round robin: the head goes behind the tail first.\<close>

definition rotate_head :: "addr \<Rightarrow> 's mq_state \<Rightarrow> 's mq_state option" where
  "rotate_head q s =
     (let item = q_head (mq_queue s q); t = q_tail (mq_queue s q) in
      if item = t then Some s
      else
        let h = qi_next (mq_item s item) in
        if h = NULL \<or> t = NULL then None
        else
          let s = upd_queue q (q_head_update (\<lambda>_. h)) s;
              s = upd_item h (qi_prev_update (\<lambda>_. NULL)) s;
              s = upd_item item (\<lambda>i. i\<lparr>qi_next := NULL, qi_prev := t\<rparr>) s;
              s = upd_item t (qi_next_update (\<lambda>_. item)) s
          in Some (upd_queue q (q_tail_update (\<lambda>_. item)) s))"

definition pop_head :: "addr \<Rightarrow> 's mq_state \<Rightarrow> addr \<times> 's mq_state" where
  "pop_head q s =
     (let item = q_head (mq_queue s q);
          h = qi_next (mq_item s item);
          s = upd_queue q (q_head_update (\<lambda>_. h)) s
      in (item, if h \<noteq> NULL then upd_item h (qi_prev_update (\<lambda>_. NULL)) s
                else upd_queue q (q_tail_update (\<lambda>_. NULL)) s))"

text \<open>
  The result carries what was written to \<open>*size\<close> and \<open>data\<close>; \<open>args_ok\<close> says that both pointers are
  not null. The caller's buffer is taken to be large enough for any item of the queue.
\<close>

definition mqueue_dequeue :: "'s sem_ops \<Rightarrow> addr \<Rightarrow> bool \<Rightarrow> u32 \<Rightarrow> 's mq_state \<Rightarrow>
    ((u32 \<times> u8 list) option \<times> 's mq_state) option" where
  "mqueue_dequeue so q args_ok timeout_ms s =
     (if q = NULL \<or> \<not> args_ok then Some (None, s)
      else
        let (ok, sem) = sem_wait so (q_not_empty (mq_queue s q)) timeout_ms;
            s = upd_queue q (q_not_empty_update (\<lambda>_. sem)) s in
        if \<not> ok then Some (None, upd_queue q (upd_stats (\<lambda>st. st\<lparr>qs_timeouts := qs_timeouts st + 1\<rparr>)) s)
        else if q_head (mq_queue s q) = NULL then Some (None, s)
        else
          Option.bind (if q_type (mq_queue s q) = QUEUE_TYPE_ROUND_ROBIN then rotate_head q s else Some s) (\<lambda>s.
            let (item, s) = pop_head q s;
                out = (qi_size (mq_item s item), qi_data (mq_item s item));
                s = free_item item s;
                s = upd_queue q (\<lambda>Q. Q\<lparr>q_current_items := q_current_items Q - 1\<rparr>) s;
                s = upd_queue q (\<lambda>Q. upd_stats (\<lambda>st. st\<lparr>qs_dequeued := qs_dequeued st + 1,
                                                        qs_current_usage := q_current_items Q\<rparr>) Q) s
            in Some (Some out, upd_queue q (\<lambda>Q. Q\<lparr>q_not_full := sem_post so (q_not_full Q)\<rparr>) s)))"

definition mqueue_peek :: "addr \<Rightarrow> bool \<Rightarrow> 's mq_state \<Rightarrow> (u32 \<times> u8 list) option" where
  "mqueue_peek q args_ok s =
     (if q = NULL \<or> \<not> args_ok then None
      else
        let h = q_head (mq_queue s q) in
        if h = NULL then None else Some (qi_size (mq_item s h), qi_data (mq_item s h)))"

definition mqueue_flush :: "'s sem_ops \<Rightarrow> addr \<Rightarrow> 's mq_state \<Rightarrow> (bool \<times> 's mq_state) option" where
  "mqueue_flush so q s =
     (if q = NULL then Some (False, s)
      else Option.bind (free_items q (q_head (mq_queue s q)) True s) (\<lambda>s.
        let s = upd_queue q (\<lambda>Q. upd_stats (qs_current_usage_update (\<lambda>_. 0))
                  (Q\<lparr>q_head := NULL, q_tail := NULL, q_current_items := 0\<rparr>)) s
        in Some (True, upd_queue q (\<lambda>Q. Q\<lparr>q_not_empty := sem_reset so (q_not_empty Q) 0,
                                         q_not_full := sem_reset so (q_not_full Q) (q_max_items Q)\<rparr>) s)))"

section \<open>Information and configuration\<close>

definition mqueue_get_count :: "addr \<Rightarrow> 's mq_state \<Rightarrow> u32" where
  "mqueue_get_count q s = (if q \<noteq> NULL then q_current_items (mq_queue s q) else 0)"

definition mqueue_is_full :: "addr \<Rightarrow> 's mq_state \<Rightarrow> bool" where
  "mqueue_is_full q s = (if q \<noteq> NULL then q_current_items (mq_queue s q) \<ge> q_max_items (mq_queue s q) else True)"

definition mqueue_is_empty :: "addr \<Rightarrow> 's mq_state \<Rightarrow> bool" where
  "mqueue_is_empty q s = (if q \<noteq> NULL then q_current_items (mq_queue s q) = 0 else True)"

definition mqueue_get_stats :: "addr \<Rightarrow> 's mq_state \<Rightarrow> queue_stats_t option" where
  "mqueue_get_stats q s = (if q = NULL then None else Some (q_stats (mq_queue s q)))"

definition mqueue_set_policy :: "addr \<Rightarrow> queue_policy_t \<Rightarrow> 's mq_state \<Rightarrow> bool \<times> 's mq_state" where
  "mqueue_set_policy q policy s =
     (if q = NULL then (False, s) else (True, upd_queue q (q_policy_update (\<lambda>_. policy)) s))"

definition mqueue_set_type :: "addr \<Rightarrow> queue_type_t \<Rightarrow> 's mq_state \<Rightarrow> bool \<times> 's mq_state" where
  "mqueue_set_type q ty s =
     (if q = NULL then (False, s) else (True, upd_queue q (q_type_update (\<lambda>_. ty)) s))"

definition mqueue_resize :: "'s sem_ops \<Rightarrow> addr \<Rightarrow> u32 \<Rightarrow> 's mq_state \<Rightarrow> bool \<times> 's mq_state" where
  "mqueue_resize so q max_items s =
     (if q = NULL \<or> max_items < q_current_items (mq_queue s q) then (False, s)
      else (True, upd_queue q (\<lambda>Q. Q\<lparr>q_max_items := max_items,
              q_not_full := sem_reset so (q_not_full Q) (max_items - q_current_items Q)\<rparr>) s))"

section \<open>Searching and expiry\<close>

text \<open>The loop \<open>while (current && !found(current)) current = current->next\<close> of both searches.\<close>

partial_function (option) find_item :: "(queue_item_t \<Rightarrow> bool) \<Rightarrow> (addr \<Rightarrow> queue_item_t) \<Rightarrow> addr \<Rightarrow> addr option" where
  "find_item found m current =
     (if current \<noteq> NULL \<and> \<not> found (m current) then find_item found m (qi_next (m current)) else Some current)"

definition mqueue_find_by_priority :: "addr \<Rightarrow> u32 \<Rightarrow> 's mq_state \<Rightarrow> addr option" where
  "mqueue_find_by_priority q priority s =
     (if q = NULL then Some NULL
      else find_item (\<lambda>i. qi_priority i = priority) (mq_item s) (q_head (mq_queue s q)))"

definition mqueue_find_by_deadline :: "addr \<Rightarrow> u64 \<Rightarrow> 's mq_state \<Rightarrow> addr option" where
  "mqueue_find_by_deadline q deadline s =
     (if q = NULL then Some NULL
      else find_item (\<lambda>i. qi_deadline i = deadline) (mq_item s) (q_head (mq_queue s q)))"

definition unlink_item :: "addr \<Rightarrow> addr \<Rightarrow> 's mq_state \<Rightarrow> 's mq_state" where
  "unlink_item q x s =
     (let p = qi_prev (mq_item s x); n = qi_next (mq_item s x);
          s = (if p \<noteq> NULL then upd_item p (qi_next_update (\<lambda>_. n)) s
               else upd_queue q (q_head_update (\<lambda>_. n)) s)
      in if n \<noteq> NULL then upd_item n (qi_prev_update (\<lambda>_. p)) s
         else upd_queue q (q_tail_update (\<lambda>_. p)) s)"

definition drop_item :: "addr \<Rightarrow> addr \<Rightarrow> 's mq_state \<Rightarrow> 's mq_state" where
  "drop_item q x s =
     (let s = free_item x (unlink_item q x s)
      in upd_queue q (\<lambda>Q. upd_stats (\<lambda>st. st\<lparr>qs_dropped := qs_dropped st + 1\<rparr>)
                            (Q\<lparr>q_current_items := q_current_items Q - 1\<rparr>)) s)"

partial_function (option) remove_expired_loop :: "addr \<Rightarrow> u64 \<Rightarrow> addr \<Rightarrow> u32 \<Rightarrow> 's mq_state \<Rightarrow> (u32 \<times> 's mq_state) option" where
  "remove_expired_loop q now current removed s =
     (if current = NULL then Some (removed, s)
      else
        let nxt = qi_next (mq_item s current) in
        if qi_deadline (mq_item s current) \<le> now
        then remove_expired_loop q now nxt (removed + 1) (drop_item q current s)
        else remove_expired_loop q now nxt removed s)"

definition mqueue_remove_expired :: "addr \<Rightarrow> u64 \<Rightarrow> 's mq_state \<Rightarrow> (u32 \<times> 's mq_state) option" where
  "mqueue_remove_expired q current_time s =
     (if q = NULL then Some (0, s)
      else Option.bind (remove_expired_loop q current_time (q_head (mq_queue s q)) 0 s) (\<lambda>(removed, s).
        Some (removed, upd_queue q (\<lambda>Q. upd_stats (qs_current_usage_update (\<lambda>_. q_current_items Q)) Q) s)))"

declare skip_items.simps [code] free_items.simps [code] find_item.simps [code] remove_expired_loop.simps [code]

end
