(* ===== verification/Multiqueue_Spec.thy ===== *)
theory Multiqueue_Spec
  imports Multiqueue
begin

text \<open>
  The message queues represent doubly linked lists that are ordered as the queue type says, with
  counters and semaphores in step. Every operation of a queue is shown to keep this invariant on every
  branch; together they simulate the bounded queue of messages \<open>bq_step\<close>.
\<close>

section \<open>Representation\<close>

abbreviation nxt :: "'s mq_state \<Rightarrow> addr \<Rightarrow> addr" where "nxt s \<equiv> \<lambda>p. qi_next (mq_item s p)"
abbreviation prv :: "'s mq_state \<Rightarrow> addr \<Rightarrow> addr" where "prv s \<equiv> \<lambda>p. qi_prev (mq_item s p)"

text \<open>The queue \<open>q\<close> links exactly the items \<open>xs\<close>, in both directions.\<close>

definition mq_list :: "'s mq_state \<Rightarrow> addr \<Rightarrow> addr list \<Rightarrow> bool" where
  "mq_list s q xs \<longleftrightarrow> dseg (nxt s) (prv s) NULL (q_head (mq_queue s q)) xs NULL \<and>
     q_tail (mq_queue s q) = last (NULL # xs)"

text \<open>What an item carries besides its links.\<close>

definition content :: "queue_item_t \<Rightarrow> u8 list \<times> u32 \<times> u32 \<times> u64 \<times> u32" where
  "content i = (qi_data i, qi_size i, qi_priority i, qi_deadline i, qi_weight i)"

text \<open>From \<open>s\<close> to \<open>s'\<close> only links changed: those of the items in \<open>A\<close>, and head and tail of \<open>q\<close>.\<close>

definition relinked :: "addr \<Rightarrow> addr set \<Rightarrow> 's mq_state \<Rightarrow> 's mq_state \<Rightarrow> bool" where
  "relinked q A s s' \<longleftrightarrow>
     (\<exists>h t. mq_queue s' = (mq_queue s)(q := (mq_queue s q)\<lparr>q_head := h, q_tail := t\<rparr>)) \<and>
     (\<forall>x. content (mq_item s' x) = content (mq_item s x)) \<and>
     (\<forall>x. x \<notin> A \<longrightarrow> mq_item s' x = mq_item s x) \<and> mq_live s' = mq_live s"

lemma relinkedI:
  assumes "mq_queue s' = (mq_queue s)(q := (mq_queue s q)\<lparr>q_head := h, q_tail := t\<rparr>)" "mq_live s' = mq_live s"
    and "\<And>x. content (mq_item s' x) = content (mq_item s x)" "\<And>x. x \<notin> A \<Longrightarrow> mq_item s' x = mq_item s x"
  shows "relinked q A s s'"
  using assms unfolding relinked_def by blast

lemma relinked_refl: "relinked q A s s"
  unfolding relinked_def by (intro conjI exI[of _ "q_head (mq_queue s q)"] exI[of _ "q_tail (mq_queue s q)"]) auto

lemma relinked_trans: "relinked q A s s' \<Longrightarrow> relinked q A s' s'' \<Longrightarrow> relinked q A s s''"
  unfolding relinked_def by (elim conjE exE, intro conjI) (simp_all, blast)

lemma relinked_content:
  assumes "relinked q A s s'"
  shows "qi_data (mq_item s' x) = qi_data (mq_item s x)" "qi_size (mq_item s' x) = qi_size (mq_item s x)"
    "qi_priority (mq_item s' x) = qi_priority (mq_item s x)" "qi_deadline (mq_item s' x) = qi_deadline (mq_item s x)"
    "mq_live s' = mq_live s" "r \<noteq> q \<Longrightarrow> mq_queue s' r = mq_queue s r"
  using assms by (auto simp: relinked_def content_def)

lemma relinked_queue:
  assumes "relinked q A s s'"
  shows "q_type (mq_queue s' q) = q_type (mq_queue s q)" "q_max_items (mq_queue s' q) = q_max_items (mq_queue s q)"
    "q_current_items (mq_queue s' q) = q_current_items (mq_queue s q)" "q_stats (mq_queue s' q) = q_stats (mq_queue s q)"
    "q_not_empty (mq_queue s' q) = q_not_empty (mq_queue s q)" "q_not_full (mq_queue s' q) = q_not_full (mq_queue s q)"
    "q_item_size (mq_queue s' q) = q_item_size (mq_queue s q)"
  using assms by (auto simp: relinked_def)

lemma mq_list_empty [simp]: "mq_list s q [] \<longleftrightarrow> q_head (mq_queue s q) = NULL \<and> q_tail (mq_queue s q) = NULL"
  by (simp add: mq_list_def)

lemma mq_list_head: "mq_list s q xs \<Longrightarrow> q_head (mq_queue s q) = (if xs = [] then NULL else hd xs)"
  unfolding mq_list_def by (blast intro: dseg_head)

lemma mq_list_nonnull: "mq_list s q xs \<Longrightarrow> x \<in> set xs \<Longrightarrow> x \<noteq> NULL"
  unfolding mq_list_def by (metis dseg_nonnull)

lemma mq_list_distinct: "mq_list s q xs \<Longrightarrow> distinct xs"
  unfolding mq_list_def by (blast intro: dseg_chain chain_distinct)

lemma mq_list_head_NULL: "mq_list s q xs \<Longrightarrow> q_head (mq_queue s q) = NULL \<longleftrightarrow> xs = []"
  using mq_list_head mq_list_nonnull by (metis hd_in_set)

lemma mq_list_tail_NULL: "mq_list s q xs \<Longrightarrow> q_tail (mq_queue s q) = NULL \<longleftrightarrow> xs = []"
  using mq_list_nonnull[of s q xs] by (auto simp: mq_list_def split: if_splits)

text \<open>The list depends only on head, tail and the links of its items.\<close>

lemma mq_list_cong:
  assumes "mq_list s q xs" "q_head (mq_queue s' q) = q_head (mq_queue s q)" "q_tail (mq_queue s' q) = q_tail (mq_queue s q)"
    and "\<And>x. x \<in> set xs \<Longrightarrow> nxt s' x = nxt s x \<and> prv s' x = prv s x"
  shows "mq_list s' q xs"
  using assms dseg_cong[of xs "nxt s'" "nxt s" "prv s'" "prv s"] by (simp add: mq_list_def)

section \<open>Linking an item\<close>

lemma link_first_ok:
  assumes l: "mq_list s q xs" and i: "item \<notin> set xs" "item \<noteq> NULL" "prv s item = NULL"
  shows "mq_list (link_first q item s) q (item # xs) \<and> relinked q (set (item # xs)) s (link_first q item s)"
proof -
  let ?s = "link_first q item s"
  note h = mq_list_head[OF l] and hn = mq_list_head_NULL[OF l] and tn = mq_list_tail_NULL[OF l]
  have q': "mq_queue ?s = (mq_queue s)(q := (mq_queue s q)\<lparr>q_head := item,
      q_tail := (if xs = [] then item else q_tail (mq_queue s q))\<rparr>)"
    using tn hn by (auto simp: link_first_def Let_def)
  have m': "mq_item ?s = (mq_item s)(item := (mq_item s item)\<lparr>qi_next := q_head (mq_queue s q)\<rparr>)" if "xs = []"
    using hn that by (simp add: link_first_def Let_def)
  have m'': "mq_item ?s = (mq_item s)(item := (mq_item s item)\<lparr>qi_next := hd xs\<rparr>,
      hd xs := (mq_item s (hd xs))\<lparr>qi_prev := item\<rparr>)" if "xs \<noteq> []"
    using hn h that i(1) hd_in_set[OF that] by (auto simp: link_first_def Let_def)
  have hd: "xs \<noteq> [] \<Longrightarrow> hd xs \<noteq> item" using i(1) hd_in_set by metis
  have "dseg (nxt ?s) (prv ?s) NULL (if ([] :: addr list) = [] then item else q_head (mq_queue s q)) ([] @ item # xs) NULL"
    by (rule dseg_insert[of "nxt s" "prv s" _ _ xs]) (use l i hd h m' m'' in \<open>cases "xs = []"; auto simp: mq_list_def\<close>)+
  moreover have "relinked q (set (item # xs)) s ?s"
  proof (rule relinkedI[OF q'])
    show "mq_live ?s = mq_live s" by (simp add: link_first_def Let_def)
    show "content (mq_item ?s x) = content (mq_item s x)" for x
      by (cases "xs = []") (simp_all add: m' m'' content_def hd)
    show "mq_item ?s x = mq_item s x" if "x \<notin> set (item # xs)" for x
      using that by (cases "xs = []") (auto simp: m' m'')
  qed
  ultimately show ?thesis using q' l by (auto simp: mq_list_def)
qed

lemma link_after_ok:
  assumes l: "mq_list s q (ys @ zs)" and i: "item \<notin> set (ys @ zs)" "item \<noteq> NULL" and c: "ys \<noteq> []" "cur = last ys"
  shows "mq_list (link_after q cur item s) q (ys @ item # zs) \<and>
    relinked q (set (ys @ item # zs)) s (link_after q cur item s)"
proof -
  let ?s = "link_after q cur item s"
  have yc: "ys = butlast ys @ [cur]" using c by simp
  have d: "dseg (nxt s) (prv s) NULL (q_head (mq_queue s q)) (butlast ys @ cur # zs) NULL"
    using l by (subst (asm) yc) (simp add: mq_list_def)
  note mid = dseg_middle[OF d]
  have ci: "cur \<noteq> item" using i(1) c by auto
  have hz: "zs \<noteq> [] \<Longrightarrow> hd zs \<noteq> item \<and> hd zs \<noteq> cur" using i(1) mid(6) hd_in_set[of zs] by auto
  have q': "mq_queue ?s = (mq_queue s)(q := (mq_queue s q)\<lparr>q_tail := (if zs = [] then item else q_tail (mq_queue s q))\<rparr>)"
    using mid(3,5) ci hz by (auto simp: link_after_def Let_def)
  have m': "mq_item ?s = (mq_item s)(item := (mq_item s item)\<lparr>qi_next := NULL, qi_prev := cur\<rparr>,
      cur := (mq_item s cur)\<lparr>qi_next := item\<rparr>)" if "zs = []"
    using mid(3,5) ci that by (auto simp: link_after_def Let_def)
  have m'': "mq_item ?s = (mq_item s)(item := (mq_item s item)\<lparr>qi_next := hd zs, qi_prev := cur\<rparr>,
      hd zs := (mq_item s (hd zs))\<lparr>qi_prev := item\<rparr>, cur := (mq_item s cur)\<lparr>qi_next := item\<rparr>)" if "zs \<noteq> []"
    using mid(3,5) ci hz that by (auto simp: link_after_def Let_def)
  have "dseg (nxt ?s) (prv ?s) NULL (if ys = [] then item else q_head (mq_queue s q)) (ys @ item # zs) NULL"
    by (rule dseg_insert) (use l i c ci hz m' m'' in \<open>cases "zs = []"; auto simp: mq_list_def\<close>)+
  moreover have "relinked q (set (ys @ item # zs)) s ?s"
  proof -
    have "\<exists>h t. mq_queue ?s = (mq_queue s)(q := (mq_queue s q)\<lparr>q_head := h, q_tail := t\<rparr>)"
      by (rule exI[of _ "q_head (mq_queue s q)"], rule exI, subst q') simp
    then show ?thesis
      using m' m'' ci hz c(2) last_in_set[OF c(1)] by (cases "zs = []") (auto simp: relinked_def content_def link_after_def Let_def)
  qed
  ultimately show ?thesis using q' l c by (auto simp: mq_list_def)
qed

lemma insert_tail_ok:
  assumes l: "mq_list s q xs" and i: "item \<notin> set xs" "item \<noteq> NULL" "prv s item = NULL" "nxt s item = NULL"
  shows "mq_list (insert_tail q item s) q (xs @ [item]) \<and> relinked q (set (xs @ [item])) s (insert_tail q item s)"
proof (cases "xs = []")
  case True
  then show ?thesis using l i mq_list_tail_NULL[OF l]
    by (auto simp: mq_list_def insert_tail_def relinked_def)
next
  case False
  let ?s = "insert_tail q item s"
  have t: "q_tail (mq_queue s q) = last xs" using l False by (simp add: mq_list_def)
  have li: "last xs \<noteq> item" using i(1) False by auto
  have q': "mq_queue ?s = (mq_queue s)(q := (mq_queue s q)\<lparr>q_tail := item\<rparr>)"
    and m': "mq_item ?s = (mq_item s)(item := (mq_item s item)\<lparr>qi_prev := last xs\<rparr>, last xs := (mq_item s (last xs))\<lparr>qi_next := item\<rparr>)"
    and "mq_live ?s = mq_live s"
    using mq_list_tail_NULL[OF l] False t li by (auto simp: insert_tail_def Let_def)
  moreover have "dseg (nxt ?s) (prv ?s) NULL (if xs = [] then item else q_head (mq_queue s q)) (xs @ item # []) NULL"
    by (rule dseg_insert) (use l i False li m' in \<open>auto simp: mq_list_def\<close>)
  moreover have "\<exists>h t. mq_queue ?s = (mq_queue s)(q := (mq_queue s q)\<lparr>q_head := h, q_tail := t\<rparr>)"
    by (rule exI[of _ "q_head (mq_queue s q)"]) (auto simp: q')
  ultimately show ?thesis using False li by (auto simp: mq_list_def relinked_def content_def)
qed

lemma skip_items_ok:
  "chain (\<lambda>p. qi_next (m p)) (qi_next (m c)) zs \<Longrightarrow>
   skip_items stay m c = Some (last (c # takeWhile (\<lambda>x. stay (m x)) zs))"
proof (induction zs arbitrary: c)
  case Nil
  then show ?case by (subst skip_items.simps) simp
next
  case (Cons z zs)
  then show ?case by (subst skip_items.simps) (auto simp: Let_def)
qed

text \<open>Both ordered insertions: behind the longest prefix that may stay in front.\<close>

lemma insert_ordered_ok:
  assumes l: "mq_list s q xs" and i: "item \<notin> set xs" "item \<noteq> NULL" "prv s item = NULL"
    and P: "\<And>x. stay' (mq_item s x) \<longleftrightarrow> P x"
    and f: "f = (let h = q_head (mq_queue s q) in
      if h = NULL \<or> \<not> stay' (mq_item s h) then Some (link_first q item s)
      else Option.bind (skip_items stay' (mq_item s) h) (\<lambda>current. Some (link_after q current item s)))"
  shows "\<exists>s'. f = Some s' \<and> mq_list s' q (takeWhile P xs @ item # dropWhile P xs) \<and> relinked q (set (item # xs)) s s'"
proof (cases xs)
  case Nil
  then show ?thesis using link_first_ok[OF l i] mq_list_head_NULL[OF l] f by auto
next
  case (Cons x zs)
  have h: "q_head (mq_queue s q) = x" "x \<noteq> NULL" using mq_list_head[OF l] mq_list_head_NULL[OF l] Cons by auto
  show ?thesis
  proof (cases "P x")
    case False
    then show ?thesis using link_first_ok[OF l i] P h f Cons by auto
  next
    case True
    define ts ds where "ts = takeWhile P xs" and "ds = dropWhile P xs"
    have "dseg (nxt s) (prv s) NULL x (x # zs) NULL" using l Cons h by (simp add: mq_list_def)
    then have "skip_items stay' (mq_item s) x = Some (last ts)"
      using skip_items_ok[of "mq_item s" x zs stay'] dseg_chain True Cons by (auto simp: P ts_def)
    then have f': "f = Some (link_after q (last ts) item s)" using f h True P by simp
    have e: "xs = ts @ ds" "ts \<noteq> []" using True Cons by (auto simp: ts_def ds_def)
    have "mq_list (link_after q (last ts) item s) q (ts @ item # ds) \<and>
        relinked q (set (ts @ item # ds)) s (link_after q (last ts) item s)"
      by (rule link_after_ok) (use l i e in auto)
    moreover have "set (ts @ item # ds) = set (item # xs)" unfolding e(1) by auto
    ultimately show ?thesis using f' unfolding ts_def ds_def by metis
  qed
qed

text \<open>The place of a new item for each queue type.\<close>

fun stays_before :: "queue_type_t \<Rightarrow> u32 \<Rightarrow> u64 \<Rightarrow> queue_item_t \<Rightarrow> bool" where
  "stays_before QUEUE_TYPE_PRIORITY p d i \<longleftrightarrow> p \<le> qi_priority i"
| "stays_before QUEUE_TYPE_DEADLINE p d i \<longleftrightarrow> qi_deadline i \<le> d"
| "stays_before _ p d i \<longleftrightarrow> True"

lemma insert_item_ok:
  fixes p :: u32 and d :: u64
  assumes l: "mq_list s q xs" and i: "item \<notin> set xs" "item \<noteq> NULL" "prv s item = NULL" "nxt s item = NULL"
  defines "P \<equiv> \<lambda>x. stays_before (q_type (mq_queue s q)) p d (mq_item s x)"
  shows "\<exists>s'. insert_item q item p d s = Some s' \<and> mq_list s' q (takeWhile P xs @ item # dropWhile P xs) \<and>
    relinked q (set (item # xs)) s s'"
proof -
  have tail: ?thesis if "\<And>x. P x" "insert_item q item p d s = Some (insert_tail q item s)"
  proof -
    have e: "takeWhile P xs = xs" "dropWhile P xs = []" using that(1) by (auto simp: takeWhile_eq_all_conv dropWhile_eq_Nil_conv)
    show ?thesis unfolding e using that(2) insert_tail_ok[OF l i] by simp
  qed
  show ?thesis
  proof (cases "q_type (mq_queue s q)")
    case QUEUE_TYPE_PRIORITY
    then show ?thesis
      by (intro insert_ordered_ok[OF l i(1-3), of "\<lambda>i. p \<le> qi_priority i" P])
        (simp_all add: P_def insert_item_def insert_priority_def not_le)
  next
    case QUEUE_TYPE_DEADLINE
    then show ?thesis
      by (intro insert_ordered_ok[OF l i(1-3), of "\<lambda>i. qi_deadline i \<le> d" P])
        (simp_all add: P_def insert_item_def insert_deadline_def not_le)
  qed (rule tail; simp add: P_def insert_item_def)+
qed

section \<open>The invariant of a queue\<close>

text \<open>What the queue code relies on: a counting semaphore. A wait on a positive count takes one unit, a
  wait on zero times out (no other task posts in between: the operations of a queue are considered
  one after the other), \<open>post\<close> adds a unit and \<open>reset\<close> sets the count.\<close>

definition counting_semaphore :: "'s sem_ops \<Rightarrow> ('s \<Rightarrow> nat) \<Rightarrow> bool" where
  "counting_semaphore so cnt \<longleftrightarrow>
     (\<forall>n. cnt (sem_create so n) = unat n) \<and>
     (\<forall>s t. cnt s = 0 \<longrightarrow> sem_wait so s t = (False, s)) \<and>
     (\<forall>s t. 0 < cnt s \<longrightarrow> fst (sem_wait so s t) \<and> Suc (cnt (snd (sem_wait so s t))) = cnt s) \<and>
     (\<forall>s. cnt (sem_post so s) = Suc (cnt s)) \<and>
     (\<forall>s n. cnt (sem_reset so s n) = unat n)"

lemma counting_wait:
  assumes "counting_semaphore so cnt"
  obtains "cnt x = 0" "sem_wait so x t = (False, x)"
  | y where "cnt x = Suc (cnt y)" "sem_wait so x t = (True, y)"
proof (cases "cnt x = 0")
  case True
  then show thesis using that(1) assms by (simp add: counting_semaphore_def)
next
  case False
  then have "fst (sem_wait so x t)" "cnt x = Suc (cnt (snd (sem_wait so x t)))"
    using assms by (simp_all add: counting_semaphore_def)
  then show thesis by (intro that(2)) (auto simp: prod_eq_iff)
qed

lemma counting_post: "counting_semaphore so cnt \<Longrightarrow> cnt (sem_post so x) = Suc (cnt x)"
  and counting_create: "counting_semaphore so cnt \<Longrightarrow> cnt (sem_create so n) = unat n"
  and counting_reset: "counting_semaphore so cnt \<Longrightarrow> cnt (sem_reset so x n) = unat n"
  by (simp_all add: counting_semaphore_def)

text \<open>The order each type promises.\<close>

fun goes_before :: "queue_type_t \<Rightarrow> queue_item_t \<Rightarrow> queue_item_t \<Rightarrow> bool" where
  "goes_before QUEUE_TYPE_PRIORITY i j \<longleftrightarrow> qi_priority j \<le> qi_priority i"
| "goes_before QUEUE_TYPE_DEADLINE i j \<longleftrightarrow> qi_deadline i \<le> qi_deadline j"
| "goes_before _ i j \<longleftrightarrow> True"

lemma stays_before_iff: "stays_before ty (qi_priority j) (qi_deadline j) i \<longleftrightarrow> goes_before ty i j"
  by (cases ty) auto

lemma goes_before_content:
  "content i' = content i \<Longrightarrow> content j' = content j \<Longrightarrow> goes_before ty i' j' = goes_before ty i j"
  by (cases ty) (auto simp: content_def)

lemma goes_before_trans: "goes_before ty i j \<Longrightarrow> goes_before ty j k \<Longrightarrow> goes_before ty i k"
  and goes_before_total: "goes_before ty i j \<or> goes_before ty j i"
  by (cases ty; auto)+

lemma sorted_content:
  "sorted_wrt (\<lambda>x y. goes_before ty (m x) (m y)) xs \<Longrightarrow> \<forall>x \<in> set xs. content (m' x) = content (m x) \<Longrightarrow>
   sorted_wrt (\<lambda>x y. goes_before ty (m' x) (m' y)) xs"
proof (induction xs)
  case (Cons x xs)
  then have "goes_before ty (m' x) (m' y)" if "y \<in> set xs" for y
    using that goes_before_content[of "m' x" "m x" "m' y" "m y" ty] by simp
  with Cons show ?case by simp
qed simp

definition mq_inv :: "('s \<Rightarrow> nat) \<Rightarrow> 's mq_state \<Rightarrow> addr \<Rightarrow> addr list \<Rightarrow> bool" where
  "mq_inv cnt s q xs \<longleftrightarrow> mq_list s q xs \<and> set xs \<subseteq> mq_live s \<and>
     q_current_items (mq_queue s q) = of_nat (length xs) \<and>
     cnt (q_not_empty (mq_queue s q)) = length xs \<and>
     cnt (q_not_full (mq_queue s q)) + length xs = unat (q_max_items (mq_queue s q)) \<and>
     sorted_wrt (\<lambda>x y. goes_before (q_type (mq_queue s q)) (mq_item s x) (mq_item s y)) xs"

lemma sorted_wrt_place:
  assumes "sorted_wrt R xs" "\<And>x y z. R x y \<Longrightarrow> R y z \<Longrightarrow> R x z" "\<And>x y. R x y \<or> R y x"
  shows "sorted_wrt R (takeWhile (\<lambda>x. R x a) xs @ a # dropWhile (\<lambda>x. R x a) xs)"
  using assms(1)
proof (induction xs)
  case (Cons x xs)
  have "\<forall>y \<in> set xs. R a y" if "\<not> R x a" using that Cons.prems assms(2,3) by (metis sorted_wrt.simps(2))
  moreover have "\<forall>y \<in> set (takeWhile (\<lambda>x. R x a) xs @ dropWhile (\<lambda>x. R x a) xs). R x y" using Cons.prems by simp
  then have "\<forall>y \<in> set (takeWhile (\<lambda>x. R x a) xs) \<union> set (dropWhile (\<lambda>x. R x a) xs). R x y" by (simp only: set_append)
  ultimately show ?case using Cons assms(3)[of a x] by auto
qed simp

lemma set_take_drop: "set (takeWhile P xs @ a # dropWhile P xs) = insert a (set xs)"
  by (metis insert_is_Un list.simps(15) set_append sup_left_commute takeWhile_dropWhile_id)

lemma length_take_drop: "length (takeWhile P xs @ a # dropWhile P xs) = Suc (length xs)"
  by (metis add_Suc_right length_Cons length_append takeWhile_dropWhile_id)

section \<open>Enqueueing\<close>

text \<open>A successful call: memory, order, counters and semaphores.\<close>

definition place :: "queue_type_t \<Rightarrow> (addr \<Rightarrow> queue_item_t) \<Rightarrow> addr \<Rightarrow> addr list \<Rightarrow> addr list" where
  "place ty m a xs = takeWhile (\<lambda>x. goes_before ty (m x) (m a)) xs @ a # dropWhile (\<lambda>x. goes_before ty (m x) (m a)) xs"

definition with_item :: "addr \<Rightarrow> 's \<Rightarrow> addr \<Rightarrow> queue_item_t \<Rightarrow> 's mq_state \<Rightarrow> 's mq_state" where
  "with_item q sem item new s = (upd_queue q (q_not_full_update (\<lambda>_. sem)) s)
     \<lparr>mq_item := (mq_item s)(item := new), mq_live := insert item (mq_live s)\<rparr>"

definition counted :: "'s sem_ops \<Rightarrow> addr \<Rightarrow> 's mq_state \<Rightarrow> 's mq_state" where
  "counted so q s = upd_queue q (\<lambda>Q. Q\<lparr>q_not_empty := sem_post so (q_not_empty Q)\<rparr>) (upd_queue q count_enqueued s)"

lemma counted_fields [simp]:
  "mq_item (counted so q s) = mq_item s" "mq_live (counted so q s) = mq_live s"
  "r \<noteq> q \<Longrightarrow> mq_queue (counted so q s) r = mq_queue s r"
  "q_head (mq_queue (counted so q s) q) = q_head (mq_queue s q)" "q_tail (mq_queue (counted so q s) q) = q_tail (mq_queue s q)"
  "q_type (mq_queue (counted so q s) q) = q_type (mq_queue s q)"
  "q_max_items (mq_queue (counted so q s) q) = q_max_items (mq_queue s q)"
  "q_item_size (mq_queue (counted so q s) q) = q_item_size (mq_queue s q)"
  "q_current_items (mq_queue (counted so q s) q) = q_current_items (mq_queue s q) + 1"
  "q_not_empty (mq_queue (counted so q s) q) = sem_post so (q_not_empty (mq_queue s q))"
  "q_not_full (mq_queue (counted so q s) q) = q_not_full (mq_queue s q)"
  by (auto simp: counted_def count_enqueued_def Let_def)

text \<open>The new item is put behind every item that goes before it.\<close>

lemma insert_new_item:
  assumes l: "mq_list s q xs" and i: "item \<notin> set xs" "item \<noteq> NULL" and new: "qi_next new = NULL" "qi_prev new = NULL"
  shows "\<exists>s'. insert_item q item (qi_priority new) (qi_deadline new) (with_item q sem item new s) = Some s' \<and>
    mq_list s' q (place (q_type (mq_queue s q)) (mq_item s') item xs) \<and>
    relinked q (insert item (set xs)) (with_item q sem item new s) s'"
proof -
  let ?s = "with_item q sem item new s" and ?ty = "q_type (mq_queue s q)"
  have l1: "mq_list ?s q xs" by (rule mq_list_cong[OF l]) (use i in \<open>auto simp: with_item_def\<close>)
  let ?P = "\<lambda>x. stays_before (q_type (mq_queue ?s q)) (qi_priority new) (qi_deadline new) (mq_item ?s x)"
  obtain s' where s': "insert_item q item (qi_priority new) (qi_deadline new) ?s = Some s'"
    "mq_list s' q (takeWhile ?P xs @ item # dropWhile ?P xs)" "relinked q (set (item # xs)) ?s s'"
    using insert_item_ok[OF l1 i, of "qi_priority new" "qi_deadline new"] new by (auto simp: with_item_def)
  have "?P x = goes_before ?ty (mq_item s' x) (mq_item s' item)" for x
  proof -
    have "goes_before ?ty (mq_item s' x) (mq_item s' item) = goes_before ?ty (mq_item ?s x) (mq_item ?s item)"
      by (rule goes_before_content) (use s'(3) in \<open>simp_all add: relinked_def\<close>)
    also have "\<dots> = ?P x" by (subst stays_before_iff[symmetric]) (simp add: with_item_def)
    finally show ?thesis by simp
  qed
  with s' show ?thesis unfolding place_def by simp
qed

lemma mq_enqueue_ok:
  assumes so: "counting_semaphore so cnt" and inv: "mq_inv cnt s q xs" and q: "q \<noteq> NULL"
    and arg: "sz \<le> q_item_size (mq_queue s q)" "unat sz \<le> length bs"
    and item: "item \<noteq> NULL" "item \<notin> mq_live s" and room: "length xs < unat (q_max_items (mq_queue s q))"
  shows "\<exists>s'. mqueue_enqueue so item True q (Some bs) sz p d w tmo s = Some (True, s') \<and>
    mq_inv cnt s' q (place (q_type (mq_queue s q)) (mq_item s') item xs) \<and>
    content (mq_item s' item) = (take (unat sz) bs, sz, p, d, w) \<and>
    (\<forall>x. x \<noteq> item \<longrightarrow> content (mq_item s' x) = content (mq_item s x)) \<and>
    (\<forall>x. x \<notin> insert item (set xs) \<longrightarrow> mq_item s' x = mq_item s x) \<and>
    (\<forall>r. r \<noteq> q \<longrightarrow> mq_queue s' r = mq_queue s r) \<and> mq_live s' = insert item (mq_live s) \<and>
    q_type (mq_queue s' q) = q_type (mq_queue s q) \<and> q_max_items (mq_queue s' q) = q_max_items (mq_queue s q) \<and>
    q_item_size (mq_queue s' q) = q_item_size (mq_queue s q)"
proof -
  let ?ty = "q_type (mq_queue s q)"
  have l: "mq_list s q xs" and live: "set xs \<subseteq> mq_live s" using inv by (auto simp: mq_inv_def)
  have ni: "item \<notin> set xs" using live item by auto
  have pos: "0 < cnt (q_not_full (mq_queue s q))" using inv room by (simp add: mq_inv_def)
  obtain y where y: "cnt (q_not_full (mq_queue s q)) = Suc (cnt y)" "sem_wait so (q_not_full (mq_queue s q)) tmo = (True, y)"
    by (rule counting_wait[OF so, of "q_not_full (mq_queue s q)" tmo]) (use pos in simp_all)
  let ?new = "\<lparr>qi_data = take (unat sz) bs, qi_size = sz, qi_priority = p, qi_deadline = d, qi_weight = w,
    qi_next = NULL, qi_prev = NULL\<rparr>"
  let ?s1 = "with_item q y item ?new s"
  obtain s2 where s2: "insert_item q item p d ?s1 = Some s2" "mq_list s2 q (place ?ty (mq_item s2) item xs)"
    "relinked q (insert item (set xs)) ?s1 s2"
    using insert_new_item[OF l ni item(1), of ?new y] by auto
  let ?s3 = "counted so q s2" and ?xs = "place ?ty (mq_item s2) item xs"
  have run: "mqueue_enqueue so item True q (Some bs) sz p d w tmo s = Some (True, ?s3)"
    using q arg item(1) y(2) s2(1) unfolding mqueue_enqueue_def counted_def with_item_def by (simp add: Let_def)
  have c: "content (mq_item s2 item) = (take (unat sz) bs, sz, p, d, w)"
    "x \<noteq> item \<Longrightarrow> content (mq_item s2 x) = content (mq_item s x)"
    "x \<notin> insert item (set xs) \<Longrightarrow> mq_item s2 x = mq_item s x" for x
    using s2(3) by (auto simp: relinked_def with_item_def content_def)
  have Q: "mq_live s2 = insert item (mq_live s)" "r \<noteq> q \<Longrightarrow> mq_queue s2 r = mq_queue s r"
    "q_type (mq_queue s2 q) = ?ty" "q_max_items (mq_queue s2 q) = q_max_items (mq_queue s q)"
    "q_item_size (mq_queue s2 q) = q_item_size (mq_queue s q)" "q_current_items (mq_queue s2 q) = q_current_items (mq_queue s q)"
    "q_not_empty (mq_queue s2 q) = q_not_empty (mq_queue s q)" "q_not_full (mq_queue s2 q) = y" for r
    using s2(3) by (auto simp: relinked_def with_item_def)
  have "sorted_wrt (\<lambda>x y. goes_before ?ty (mq_item s2 x) (mq_item s2 y)) xs"
    by (rule sorted_content[of _ "mq_item s"]) (use inv ni in \<open>auto simp: mq_inv_def intro!: c(2)\<close>)
  then have "sorted_wrt (\<lambda>x y. goes_before ?ty (mq_item s2 x) (mq_item s2 y)) ?xs"
    unfolding place_def by (rule sorted_wrt_place) (use goes_before_trans goes_before_total in blast)+
  moreover have "set ?xs \<subseteq> mq_live ?s3" unfolding place_def set_take_drop using live Q by auto
  moreover have "length ?xs = Suc (length xs)" unfolding place_def by (rule length_take_drop)
  moreover have "mq_list ?s3 q ?xs" by (rule mq_list_cong[OF s2(2)]) simp_all
  ultimately have "mq_inv cnt ?s3 q ?xs" using inv y counting_post[OF so] by (simp add: mq_inv_def Q)
  then show ?thesis using run c Q by simp
qed

text \<open>A call that fails changes at most the semaphore and the count of timeouts.\<close>

lemma mq_enqueue_fails:
  assumes so: "counting_semaphore so cnt" and inv: "mq_inv cnt s q xs"
    and fail: "q = NULL \<or> data = None \<or> q_item_size (mq_queue s q) < sz \<or>
      length xs = unat (q_max_items (mq_queue s q)) \<or> item = NULL \<or> \<not> data_ok"
  shows "\<exists>s'. mqueue_enqueue so item data_ok q data sz p d w tmo s = Some (False, s') \<and> mq_inv cnt s' q xs \<and>
    mq_item s' = mq_item s \<and> mq_live s' = mq_live s \<and> (\<forall>r. r \<noteq> q \<longrightarrow> mq_queue s' r = mq_queue s r) \<and>
    q_type (mq_queue s' q) = q_type (mq_queue s q) \<and> q_max_items (mq_queue s' q) = q_max_items (mq_queue s q) \<and>
    q_item_size (mq_queue s' q) = q_item_size (mq_queue s q)"
proof (cases "q = NULL \<or> data = None \<or> q_item_size (mq_queue s q) < sz")
  case True
  then show ?thesis using inv by (auto simp: mqueue_enqueue_def)
next
  case arg: False
  note inv' = inv[unfolded mq_inv_def]
  show ?thesis
  proof (rule counting_wait[OF so, of "q_not_full (mq_queue s q)" tmo])
    assume w: "cnt (q_not_full (mq_queue s q)) = 0" "sem_wait so (q_not_full (mq_queue s q)) tmo = (False, q_not_full (mq_queue s q))"
    with arg inv' show ?thesis by (auto simp: mqueue_enqueue_def mq_inv_def Let_def mq_list_def)
  next
    fix y assume y: "cnt (q_not_full (mq_queue s q)) = Suc (cnt y)" "sem_wait so (q_not_full (mq_queue s q)) tmo = (True, y)"
    then have "item = NULL \<or> \<not> data_ok" using fail arg inv' by auto
    with arg y inv' counting_post[OF so] show ?thesis by (auto simp: mqueue_enqueue_def mq_inv_def Let_def mq_list_def)
  qed
qed

section \<open>Dequeueing\<close>

lemma rotate_head_ok:
  assumes l: "mq_list s q (a # b # ys)"
  shows "\<exists>s'. rotate_head q s = Some s' \<and> mq_list s' q (b # ys @ [a]) \<and> relinked q (set (a # b # ys)) s s'"
proof -
  have d: "dseg (nxt s) (prv s) NULL a (a # b # ys) NULL" and h: "q_head (mq_queue s q) = a"
    and t: "q_tail (mq_queue s q) = last (b # ys)" using l by (auto simp: mq_list_def)
  have ab: "a \<notin> set (b # ys)" "b \<notin> set ys" "a \<noteq> NULL" "b \<noteq> NULL" "last (b # ys) \<noteq> NULL"
    using mq_list_distinct[OF l] mq_list_nonnull[OF l] by (auto split: if_splits)
  then have ta: "last (b # ys) \<noteq> a" "nxt s a = b" using d last_in_set[of "b # ys"] by auto
  define m where "m = (\<lambda>x. if x = a then (mq_item s a)\<lparr>qi_next := NULL, qi_prev := last (b # ys)\<rparr>
     else if x = b \<and> x = last (b # ys) then (mq_item s x)\<lparr>qi_prev := NULL, qi_next := a\<rparr>
     else if x = b then (mq_item s x)\<lparr>qi_prev := NULL\<rparr>
     else if x = last (b # ys) then (mq_item s x)\<lparr>qi_next := a\<rparr> else mq_item s x)"
  define s' where "s' = s\<lparr>mq_item := m, mq_queue := (mq_queue s)(q := (mq_queue s q)\<lparr>q_head := b, q_tail := a\<rparr>)\<rparr>"
  have run: "rotate_head q s = Some s'"
    using h t ta ab unfolding rotate_head_def s'_def m_def by (auto simp: Let_def fun_eq_iff)
  let ?nx = "nxt s" and ?pv = "(prv s)(b := NULL)"
  have d1: "dseg ?nx ?pv NULL b (b # ys) NULL"
    by (rule dseg_front[of "nxt s" "prv s" a]) (use d ab ta in auto)
  have "dseg (nxt s') (prv s') NULL (if b # ys = [] then a else b) ((b # ys) @ a # []) NULL"
    by (rule dseg_insert[of ?nx ?pv]) (use d1 ab ta in \<open>auto simp: s'_def m_def\<close>)
  then have "mq_list s' q (b # ys @ [a])" by (simp add: mq_list_def s'_def)
  moreover have "relinked q (set (a # b # ys)) s s'"
    by (rule relinkedI[where h = b and t = a]) (use last_in_set[of "b # ys"] in \<open>auto simp: s'_def m_def content_def\<close>)
  ultimately show ?thesis using run by blast
qed

lemma pop_head_ok:
  assumes l: "mq_list s q (a # ys)"
  shows "\<exists>s'. pop_head q s = (a, s') \<and> mq_list s' q ys \<and> relinked q (set (a # ys)) s s'"
proof -
  let ?s = "snd (pop_head q s)"
  have d: "dseg (nxt s) (prv s) NULL a ([] @ a # ys) NULL" and h: "q_head (mq_queue s q) = a"
    using l by (auto simp: mq_list_def)
  note mid = dseg_middle[OF d]
  have hy: "ys \<noteq> [] \<Longrightarrow> hd ys \<noteq> a" using mid(6) hd_in_set by auto
  have q': "mq_queue ?s = (mq_queue s)(q := (mq_queue s q)\<lparr>q_head := nxt s a, q_tail := last (NULL # ys)\<rparr>)"
    using h mid(5) l by (auto simp: pop_head_def Let_def mq_list_def)
  have live: "mq_live ?s = mq_live s" by (simp add: pop_head_def Let_def)
  have m': "mq_item ?s x = (if ys \<noteq> [] \<and> x = hd ys then (mq_item s x)\<lparr>qi_prev := NULL\<rparr> else mq_item s x)" for x
    using h mid(3,5) by (cases "ys = []") (simp_all add: pop_head_def Let_def)
  have "dseg (nxt ?s) (prv ?s) NULL (if ([] :: addr list) = [] then nxt s a else a) ([] @ ys) NULL"
    by (rule dseg_remove[OF d]) (use m' mid(2) in auto)
  then have "mq_list ?s q ys" by (simp add: mq_list_def q')
  moreover have "relinked q (set (a # ys)) s ?s"
    by (rule relinkedI[OF q' live]) (auto simp: m' content_def)
  moreover have "fst (pop_head q s) = a" using h by (simp add: pop_head_def Let_def)
  ultimately show ?thesis by (metis prod.collapse)
qed

text \<open>The item that leaves, and the rest: round robin takes the second item and moves the first to the end.\<close>

fun next_out :: "queue_type_t \<Rightarrow> 'v list \<Rightarrow> 'v" where
  "next_out QUEUE_TYPE_ROUND_ROBIN (a # b # ys) = b"
| "next_out _ xs = hd xs"

fun rest_out :: "queue_type_t \<Rightarrow> 'v list \<Rightarrow> 'v list" where
  "rest_out QUEUE_TYPE_ROUND_ROBIN (a # b # ys) = ys @ [a]"
| "rest_out _ xs = tl xs"

lemma next_rest_set:
  assumes "xs \<noteq> []"
  shows "set xs = insert (next_out ty xs) (set (rest_out ty xs))" "length xs = Suc (length (rest_out ty xs))"
    "distinct xs \<Longrightarrow> next_out ty xs \<notin> set (rest_out ty xs)"
  using assms by (cases xs; cases "tl xs"; cases ty; auto)+

lemma next_rest_map:
  "xs \<noteq> [] \<Longrightarrow> next_out ty (map f xs) = f (next_out ty xs)" "rest_out ty (map f xs) = map f (rest_out ty xs)"
  by (cases xs; cases "tl xs"; cases ty; auto)+

lemma rest_out_sorted:
  "sorted_wrt (\<lambda>x y. goes_before ty (m x) (m y)) xs \<Longrightarrow> sorted_wrt (\<lambda>x y. goes_before ty (m x) (m y)) (rest_out ty xs)"
proof (cases xs)
  case (Cons a ys)
  show "sorted_wrt (\<lambda>x y. goes_before ty (m x) (m y)) xs \<Longrightarrow> ?thesis"
    by (cases ty; cases ys) (auto simp: Cons sorted_wrt_append)
qed (cases ty; simp)

lemma take_out_ok:
  assumes l: "mq_list s q xs" and ne: "xs \<noteq> []" and ty: "q_type (mq_queue s q) = ty"
  shows "\<exists>s1 s2. (if ty = QUEUE_TYPE_ROUND_ROBIN then rotate_head q s else Some s) = Some s1 \<and>
    pop_head q s1 = (next_out ty xs, s2) \<and> mq_list s2 q (rest_out ty xs) \<and> relinked q (set xs) s s2"
proof (cases "ty = QUEUE_TYPE_ROUND_ROBIN \<and> length xs > 1")
  case True
  then obtain a b ys where xs: "xs = a # b # ys" by (cases xs rule: remdups_adj.cases) auto
  obtain s1 where s1: "rotate_head q s = Some s1" "mq_list s1 q (b # ys @ [a])" "relinked q (set xs) s s1"
    using rotate_head_ok[OF l[unfolded xs]] xs by auto
  moreover obtain s2 where "pop_head q s1 = (b, s2)" "mq_list s2 q (ys @ [a])" "relinked q (set (b # ys @ [a])) s1 s2"
    using pop_head_ok[OF s1(2)] by auto
  moreover have "set (b # ys @ [a]) = set xs" by (auto simp: xs)
  ultimately show ?thesis using True relinked_trans[of q "set xs" s s1 s2] xs by auto
next
  case False
  obtain a ys where xs: "xs = a # ys" using ne by (cases xs) auto
  have "next_out ty xs = a" "rest_out ty xs = ys" using False xs by (cases ty; cases ys; auto)+
  moreover have "(if ty = QUEUE_TYPE_ROUND_ROBIN then rotate_head q s else Some s) = Some s"
    using False l xs by (auto simp: rotate_head_def Let_def mq_list_def)
  ultimately show ?thesis using pop_head_ok[of s q a ys] l xs by auto
qed

definition dequeued :: "'s sem_ops \<Rightarrow> addr \<Rightarrow> addr \<Rightarrow> 's mq_state \<Rightarrow> 's mq_state" where
  "dequeued so q item s =
     upd_queue q (\<lambda>Q. Q\<lparr>q_not_full := sem_post so (q_not_full Q)\<rparr>)
       (upd_queue q (\<lambda>Q. upd_stats (\<lambda>st. st\<lparr>qs_dequeued := qs_dequeued st + 1, qs_current_usage := q_current_items Q\<rparr>) Q)
         (upd_queue q (\<lambda>Q. Q\<lparr>q_current_items := q_current_items Q - 1\<rparr>) (free_item item s)))"

lemma dequeued_fields [simp]:
  "mq_item (dequeued so q a s) = mq_item s" "mq_live (dequeued so q a s) = mq_live s - {a}"
  "r \<noteq> q \<Longrightarrow> mq_queue (dequeued so q a s) r = mq_queue s r"
  "q_head (mq_queue (dequeued so q a s) q) = q_head (mq_queue s q)" "q_tail (mq_queue (dequeued so q a s) q) = q_tail (mq_queue s q)"
  "q_type (mq_queue (dequeued so q a s) q) = q_type (mq_queue s q)"
  "q_max_items (mq_queue (dequeued so q a s) q) = q_max_items (mq_queue s q)"
  "q_item_size (mq_queue (dequeued so q a s) q) = q_item_size (mq_queue s q)"
  "q_current_items (mq_queue (dequeued so q a s) q) = q_current_items (mq_queue s q) - 1"
  "q_not_empty (mq_queue (dequeued so q a s) q) = q_not_empty (mq_queue s q)"
  "q_not_full (mq_queue (dequeued so q a s) q) = sem_post so (q_not_full (mq_queue s q))"
  by (auto simp: dequeued_def)

lemma mq_dequeue_ok:
  assumes so: "counting_semaphore so cnt" and inv: "mq_inv cnt s q xs" and q: "q \<noteq> NULL" and ne: "xs \<noteq> []"
  defines "ty \<equiv> q_type (mq_queue s q)"
  shows "\<exists>s'. mqueue_dequeue so q True tmo s =
      Some (Some (qi_size (mq_item s (next_out ty xs)), qi_data (mq_item s (next_out ty xs))), s') \<and>
    mq_inv cnt s' q (rest_out ty xs) \<and> (\<forall>x. content (mq_item s' x) = content (mq_item s x)) \<and>
    (\<forall>x. x \<notin> set xs \<longrightarrow> mq_item s' x = mq_item s x) \<and> (\<forall>r. r \<noteq> q \<longrightarrow> mq_queue s' r = mq_queue s r) \<and>
    mq_live s' = mq_live s - {next_out ty xs} \<and>
    q_type (mq_queue s' q) = ty \<and> q_max_items (mq_queue s' q) = q_max_items (mq_queue s q) \<and>
    q_item_size (mq_queue s' q) = q_item_size (mq_queue s q)"
proof -
  have l: "mq_list s q xs" using inv by (simp add: mq_inv_def)
  have pos: "0 < cnt (q_not_empty (mq_queue s q))" using inv ne by (simp add: mq_inv_def)
  obtain y where y: "cnt (q_not_empty (mq_queue s q)) = Suc (cnt y)" "sem_wait so (q_not_empty (mq_queue s q)) tmo = (True, y)"
    by (rule counting_wait[OF so, of "q_not_empty (mq_queue s q)" tmo]) (use pos in simp_all)
  let ?s0 = "upd_queue q (q_not_empty_update (\<lambda>_. y)) s"
  let ?a = "next_out ty xs"
  have l0: "mq_list ?s0 q xs" by (rule mq_list_cong[OF l]) auto
  obtain s1 s2 where s12: "(if ty = QUEUE_TYPE_ROUND_ROBIN then rotate_head q ?s0 else Some ?s0) = Some s1"
    "pop_head q s1 = (?a, s2)" "mq_list s2 q (rest_out ty xs)" "relinked q (set xs) ?s0 s2"
    using take_out_ok[OF l0 ne, of ty] by (auto simp: ty_def)
  let ?s3 = "dequeued so q ?a s2"
  have c: "content (mq_item s2 x) = content (mq_item s x)" "x \<notin> set xs \<Longrightarrow> mq_item s2 x = mq_item s x" for x
    using s12(4) by (auto simp: relinked_def)
  have Q: "mq_live s2 = mq_live s" "r \<noteq> q \<Longrightarrow> mq_queue s2 r = mq_queue s r"
    "q_type (mq_queue s2 q) = ty" "q_max_items (mq_queue s2 q) = q_max_items (mq_queue s q)"
    "q_item_size (mq_queue s2 q) = q_item_size (mq_queue s q)" "q_current_items (mq_queue s2 q) = q_current_items (mq_queue s q)"
    "q_not_empty (mq_queue s2 q) = y" "q_not_full (mq_queue s2 q) = q_not_full (mq_queue s q)" for r
    using s12(4) by (auto simp: relinked_def ty_def)
  have "mqueue_dequeue so q True tmo s = Some (Some (qi_size (mq_item s2 ?a), qi_data (mq_item s2 ?a)), ?s3)"
    using q y(2) s12(1,2) mq_list_head_NULL[OF l] ne unfolding mqueue_dequeue_def dequeued_def
    by (simp add: Let_def ty_def)
  then have run: "mqueue_dequeue so q True tmo s = Some (Some (qi_size (mq_item s ?a), qi_data (mq_item s ?a)), ?s3)"
    using c(1)[of ?a] by (simp add: content_def)
  note nr = next_rest_set[OF ne, of ty]
  have "set (rest_out ty xs) \<subseteq> mq_live ?s3" using nr(1,3) mq_list_distinct[OF l] inv Q(1) by (auto simp: mq_inv_def)
  moreover have "sorted_wrt (\<lambda>x y. goes_before ty (mq_item s2 x) (mq_item s2 y)) (rest_out ty xs)"
    by (rule sorted_content[OF rest_out_sorted]) (use inv c(1) in \<open>auto simp: mq_inv_def ty_def\<close>)
  moreover have "mq_list ?s3 q (rest_out ty xs)" by (rule mq_list_cong[OF s12(3)]) simp_all
  ultimately have "mq_inv cnt ?s3 q (rest_out ty xs)"
    using inv y counting_post[OF so] nr(2) by (simp add: mq_inv_def Q)
  then show ?thesis using run c Q by simp
qed

lemma mq_dequeue_empty:
  assumes so: "counting_semaphore so cnt" and inv: "mq_inv cnt s q []" and q: "q \<noteq> NULL"
  shows "mqueue_dequeue so q True tmo s =
    Some (None, upd_queue q (upd_stats (\<lambda>st. st\<lparr>qs_timeouts := qs_timeouts st + 1\<rparr>)) s)"
proof -
  have "cnt (q_not_empty (mq_queue s q)) = 0" using inv by (simp add: mq_inv_def)
  then have "sem_wait so (q_not_empty (mq_queue s q)) tmo = (False, q_not_empty (mq_queue s q))"
    using so by (simp add: counting_semaphore_def)
  then show ?thesis using q by (simp add: mqueue_dequeue_def)
qed

section \<open>Flushing, searching, expiry\<close>

lemma mq_inv_timeouts:
  "mq_inv cnt s q xs \<Longrightarrow> mq_inv cnt (upd_queue q (upd_stats f) s) q xs"
  by (auto simp: mq_inv_def mq_list_def)

definition dropping :: "addr \<Rightarrow> bool \<Rightarrow> addr list \<Rightarrow> 's mq_state \<Rightarrow> 's mq_state" where
  "dropping q c xs s = s\<lparr>mq_live := mq_live s - set xs, mq_queue := (mq_queue s)(q :=
     upd_stats (\<lambda>st. st\<lparr>qs_dropped := qs_dropped st + (if c then of_nat (length xs) else 0)\<rparr>) (mq_queue s q))\<rparr>"

lemma dropping_Cons:
  "dropping q c (x # xs) s = dropping q c xs
     (if c then upd_queue q (upd_stats (\<lambda>st. st\<lparr>qs_dropped := qs_dropped st + 1\<rparr>)) (free_item x s) else free_item x s)"
  by (cases c) (simp_all add: dropping_def Diff_insert2[of _ x "set xs"] add_ac)

lemma free_items_ok: "chain (nxt s) p xs \<Longrightarrow> free_items q p c s = Some (dropping q c xs s)"
proof (induction xs arbitrary: p s)
  case Nil
  then show ?case by (subst free_items.simps) (simp add: dropping_def)
next
  case (Cons x xs)
  let ?s = "if c then upd_queue q (upd_stats (\<lambda>st. st\<lparr>qs_dropped := qs_dropped st + 1\<rparr>)) (free_item x s) else free_item x s"
  have "chain (nxt ?s) (nxt s x) xs" and p: "p = x" "x \<noteq> NULL" using Cons.prems by auto
  from Cons.IH[OF this(1)] show ?case unfolding dropping_Cons using p by (subst free_items.simps) (simp add: Let_def)
qed

lemma mq_flush_ok:
  assumes so: "counting_semaphore so cnt" and inv: "mq_inv cnt s q xs" and q: "q \<noteq> NULL"
  shows "\<exists>s'. mqueue_flush so q s = Some (True, s') \<and> mq_inv cnt s' q [] \<and> mq_item s' = mq_item s \<and>
    mq_live s' = mq_live s - set xs \<and> (\<forall>r. r \<noteq> q \<longrightarrow> mq_queue s' r = mq_queue s r) \<and>
    qs_dropped (q_stats (mq_queue s' q)) = qs_dropped (q_stats (mq_queue s q)) + of_nat (length xs) \<and>
    q_type (mq_queue s' q) = q_type (mq_queue s q) \<and> q_max_items (mq_queue s' q) = q_max_items (mq_queue s q) \<and>
    q_item_size (mq_queue s' q) = q_item_size (mq_queue s q)"
proof -
  have "chain (nxt s) (q_head (mq_queue s q)) xs" using inv dseg_chain by (auto simp: mq_inv_def mq_list_def)
  from free_items_ok[OF this, of q True] show ?thesis using q counting_reset[OF so]
    by (simp add: mqueue_flush_def Let_def mq_inv_def mq_list_def dropping_def)
qed

lemma find_item_ok:
  "chain (\<lambda>p. qi_next (m p)) p xs \<Longrightarrow>
   find_item found m p = Some (case filter (\<lambda>x. found (m x)) xs of [] \<Rightarrow> NULL | x # _ \<Rightarrow> x)"
proof (induction xs arbitrary: p)
  case Nil
  then show ?case by (subst find_item.simps) simp
next
  case (Cons x xs)
  then show ?case by (subst find_item.simps) auto
qed

lemma unlink_item_ok:
  assumes l: "mq_list s q (ys @ x # zs)"
  shows "mq_list (unlink_item q x s) q (ys @ zs) \<and> relinked q (set (ys @ x # zs)) s (unlink_item q x s)"
proof -
  let ?s = "unlink_item q x s" and ?h = "q_head (mq_queue s q)"
  have d: "dseg (nxt s) (prv s) NULL ?h (ys @ x # zs) NULL" using l by (simp add: mq_list_def)
  note mid = dseg_middle[OF d]
  have nb: "zs \<noteq> [] \<Longrightarrow> hd zs \<noteq> x" "ys \<noteq> [] \<Longrightarrow> last ys \<noteq> x" "ys \<noteq> [] \<Longrightarrow> zs \<noteq> [] \<Longrightarrow> last ys \<noteq> hd zs"
    using mid(6) by (cases zs; cases ys rule: rev_cases; auto)+
  have live: "mq_live ?s = mq_live s" by (simp add: unlink_item_def Let_def)
  have q': "mq_queue ?s = (mq_queue s)(q := (mq_queue s q)\<lparr>q_head := (if ys = [] then nxt s x else ?h),
      q_tail := (if zs = [] then prv s x else q_tail (mq_queue s q))\<rparr>)"
    using mid(4,5) by (cases "ys = []"; cases "zs = []") (simp_all add: unlink_item_def Let_def)
  have m': "mq_item ?s u = (if ys \<noteq> [] \<and> u = last ys then (mq_item s u)\<lparr>qi_next := nxt s x\<rparr>
      else if zs \<noteq> [] \<and> u = hd zs then (mq_item s u)\<lparr>qi_prev := prv s x\<rparr> else mq_item s u)" for u
    using mid(2-5) nb by (cases "ys = []"; cases "zs = []") (simp_all add: unlink_item_def Let_def)
  have "dseg (nxt ?s) (prv ?s) NULL (if ys = [] then nxt s x else ?h) (ys @ zs) NULL"
    by (rule dseg_remove[OF d]) (use nb(3) in \<open>auto simp: m'\<close>)
  then have "mq_list ?s q (ys @ zs)" using l mid(2) by (auto simp: mq_list_def q')
  moreover have "relinked q (set (ys @ x # zs)) s ?s"
    by (rule relinkedI[OF q' live]) (auto simp: m' content_def)
  ultimately show ?thesis ..
qed

text \<open>Removing \<open>k\<close> items without touching the semaphores.\<close>

definition pruned :: "addr \<Rightarrow> addr set \<Rightarrow> u32 \<Rightarrow> 's mq_state \<Rightarrow> 's mq_state \<Rightarrow> bool" where
  "pruned q A k s s' \<longleftrightarrow> (\<forall>x. content (mq_item s' x) = content (mq_item s x)) \<and>
     (\<forall>x. x \<notin> A \<longrightarrow> mq_item s' x = mq_item s x) \<and> (\<forall>r. r \<noteq> q \<longrightarrow> mq_queue s' r = mq_queue s r) \<and>
     q_type (mq_queue s' q) = q_type (mq_queue s q) \<and> q_max_items (mq_queue s' q) = q_max_items (mq_queue s q) \<and>
     q_item_size (mq_queue s' q) = q_item_size (mq_queue s q) \<and>
     q_not_empty (mq_queue s' q) = q_not_empty (mq_queue s q) \<and> q_not_full (mq_queue s' q) = q_not_full (mq_queue s q) \<and>
     q_current_items (mq_queue s' q) = q_current_items (mq_queue s q) - k \<and>
     qs_dropped (q_stats (mq_queue s' q)) = qs_dropped (q_stats (mq_queue s q)) + k"

lemma pruned_trans:
  assumes "pruned q A j s s'" "pruned q B k s' s''" "B \<subseteq> A" "jk = j + k" shows "pruned q A jk s s''"
  using assms by (auto simp: pruned_def)

lemma drop_item_ok:
  assumes l: "mq_list s q (ys @ x # zs)"
  shows "mq_list (drop_item q x s) q (ys @ zs)" "pruned q (set (ys @ x # zs)) 1 s (drop_item q x s)"
    "mq_live (drop_item q x s) = mq_live s - {x}"
proof -
  note u = unlink_item_ok[OF l]
  show "mq_list (drop_item q x s) q (ys @ zs)" using u by (auto simp: drop_item_def Let_def mq_list_def)
  show "pruned q (set (ys @ x # zs)) 1 s (drop_item q x s)" "mq_live (drop_item q x s) = mq_live s - {x}"
    using u by (auto simp: drop_item_def Let_def pruned_def relinked_def)
qed

lemma remove_expired_loop_ok:
  fixes now :: u64
  assumes "mq_list s q (ys @ zs)" "p = (if zs = [] then NULL else hd zs)"
  defines "gone \<equiv> \<lambda>x. qi_deadline (mq_item s x) \<le> now"
  shows "\<exists>s'. remove_expired_loop q now p n s = Some (n + of_nat (length (filter gone zs)), s') \<and>
    mq_list s' q (ys @ filter (\<lambda>x. \<not> gone x) zs) \<and> mq_live s' = mq_live s - set (filter gone zs) \<and>
    pruned q (set (ys @ zs)) (of_nat (length (filter gone zs))) s s'"
  using assms(1,2) unfolding gone_def
proof (induction zs arbitrary: s ys p n)
  case Nil
  then show ?case by (subst remove_expired_loop.simps) (simp add: pruned_def)
next
  case (Cons x zs)
  have d: "dseg (nxt s) (prv s) NULL (q_head (mq_queue s q)) (ys @ x # zs) NULL" using Cons.prems by (simp add: mq_list_def)
  have x: "p = x" "x \<noteq> NULL" "nxt s x = (if zs = [] then NULL else hd zs)" using dseg_middle[OF d] Cons.prems(2) by auto
  show ?case
  proof (cases "qi_deadline (mq_item s x) \<le> now")
    case False
    have "mq_list s q ((ys @ [x]) @ zs)" using Cons.prems(1) by simp
    from Cons.IH[OF this x(3), of n] False x show ?thesis
      by (subst remove_expired_loop.simps) (simp add: Let_def)
  next
    case True
    let ?s = "drop_item q x s"
    note st = drop_item_ok[OF Cons.prems(1)]
    have dl: "qi_deadline (mq_item ?s u) = qi_deadline (mq_item s u)" for u
      using st(2) by (auto simp: pruned_def content_def)
    obtain s' where s': "remove_expired_loop q now (nxt s x) (n + 1) ?s = Some (n + 1 + of_nat (length (filter (\<lambda>x. qi_deadline (mq_item ?s x) \<le> now) zs)), s')"
      "mq_list s' q (ys @ filter (\<lambda>x. \<not> qi_deadline (mq_item ?s x) \<le> now) zs)"
      "mq_live s' = mq_live ?s - set (filter (\<lambda>x. qi_deadline (mq_item ?s x) \<le> now) zs)"
      "pruned q (set (ys @ zs)) (of_nat (length (filter (\<lambda>x. qi_deadline (mq_item ?s x) \<le> now) zs))) ?s s'"
      using Cons.IH[OF st(1) x(3), of "n + 1"] by blast
    have "remove_expired_loop q now p n s = remove_expired_loop q now (nxt s x) (n + 1) ?s"
      using x True by (subst remove_expired_loop.simps) (simp add: Let_def)
    moreover have "pruned q (set (ys @ x # zs)) (1 + of_nat (length (filter (\<lambda>x. qi_deadline (mq_item s x) \<le> now) zs))) s s'"
      by (rule pruned_trans[OF st(2) s'(4)]) (auto simp: dl)
    ultimately show ?thesis using s'(1-3) st(3) True by (auto simp: dl add_ac)
  qed
qed

lemma mq_remove_expired_ok:
  fixes now :: u64
  assumes l: "mq_list s q xs" and q: "q \<noteq> NULL"
  defines "gone \<equiv> \<lambda>x. qi_deadline (mq_item s x) \<le> now"
  shows "\<exists>s'. mqueue_remove_expired q now s = Some (of_nat (length (filter gone xs)), s') \<and>
    mq_list s' q (filter (\<lambda>x. \<not> gone x) xs) \<and> mq_live s' = mq_live s - set (filter gone xs) \<and>
    pruned q (set xs) (of_nat (length (filter gone xs))) s s'"
proof -
  from remove_expired_loop_ok[of s q "[]" xs "q_head (mq_queue s q)" now 0] obtain s' where
    s': "remove_expired_loop q now (q_head (mq_queue s q)) 0 s = Some (of_nat (length (filter gone xs)), s')"
    "mq_list s' q (filter (\<lambda>x. \<not> gone x) xs)" "mq_live s' = mq_live s - set (filter gone xs)"
    "pruned q (set xs) (of_nat (length (filter gone xs))) s s'"
    using l mq_list_head[OF l] by (auto simp: gone_def)
  then show ?thesis using q by (auto simp: mqueue_remove_expired_def mq_list_def pruned_def)
qed

section \<open>Creating and resizing\<close>

lemma new_queue_inv:
  assumes "counting_semaphore so cnt" "mq_queue s q = new_queue so mutex ty policy mx isz"
  shows "mq_inv cnt s q []"
  using assms counting_create[OF assms(1)] by (simp add: mq_inv_def new_queue_def)

lemma mq_resize_ok:
  assumes so: "counting_semaphore so cnt" and inv: "mq_inv cnt s q xs" and q: "q \<noteq> NULL"
  shows "if length xs \<le> unat mx
    then \<exists>s'. mqueue_resize so q mx s = (True, s') \<and> mq_inv cnt s' q xs \<and> q_max_items (mq_queue s' q) = mx
    else mqueue_resize so q mx s = (False, s)"
proof -
  have le: "length xs \<le> unat (q_max_items (mq_queue s q))" using inv by (simp add: mq_inv_def)
  then have u: "unat (of_nat (length xs) :: u32) = length xs"
    using unat_u32_less[of "q_max_items (mq_queue s q)"] by (simp add: unat_of_nat_u32)
  have c: "q_current_items (mq_queue s q) = of_nat (length xs)" using inv by (simp add: mq_inv_def)
  have "mx < q_current_items (mq_queue s q) \<longleftrightarrow> \<not> length xs \<le> unat mx" unfolding c word_less_nat_alt u by auto
  moreover have "unat (mx - of_nat (length xs)) = unat mx - length xs" if "length xs \<le> unat mx"
    using that u by (subst unat_sub) (simp_all add: word_le_nat_alt)
  ultimately show ?thesis using inv q c counting_reset[OF so]
    by (auto simp: mqueue_resize_def mq_inv_def mq_list_def)
qed

section \<open>The abstract queue\<close>

text \<open>A message: its bytes, size, priority, deadline and weight. The abstract queue is the list of its
  messages; the labels of its steps are the calls with their results.\<close>

type_synonym message = "u8 list \<times> u32 \<times> u32 \<times> u64 \<times> u32"

fun msg_before :: "queue_type_t \<Rightarrow> message \<Rightarrow> message \<Rightarrow> bool" where
  "msg_before QUEUE_TYPE_PRIORITY (_, _, p, _, _) (_, _, p', _, _) \<longleftrightarrow> p' \<le> p"
| "msg_before QUEUE_TYPE_DEADLINE (_, _, _, d, _) (_, _, _, d', _) \<longleftrightarrow> d \<le> d'"
| "msg_before _ _ _ \<longleftrightarrow> True"

definition msg_place :: "queue_type_t \<Rightarrow> message \<Rightarrow> message list \<Rightarrow> message list" where
  "msg_place ty v vs = takeWhile (\<lambda>u. msg_before ty u v) vs @ v # dropWhile (\<lambda>u. msg_before ty u v) vs"

abbreviation msg_out :: "message \<Rightarrow> u32 \<times> u8 list" where "msg_out v \<equiv> (fst (snd v), fst v)"

datatype mq_event = Send message bool bool | Recv "(u32 \<times> u8 list) option" | Peek "(u32 \<times> u8 list) option" | Flush

inductive bq_step :: "queue_type_t \<Rightarrow> nat \<Rightarrow> u32 \<Rightarrow> message list \<Rightarrow> mq_event \<Rightarrow> message list \<Rightarrow> bool" for ty cap isz where
  bq_send: "length vs < cap \<Longrightarrow> fst (snd v) \<le> isz \<Longrightarrow> bq_step ty cap isz vs (Send v True True)
     (msg_place ty v vs)"
| bq_refuse: "\<not> mem \<or> cap \<le> length vs \<or> isz < fst (snd v) \<Longrightarrow> bq_step ty cap isz vs (Send v mem False) vs"
| bq_recv: "vs \<noteq> [] \<Longrightarrow> bq_step ty cap isz vs (Recv (Some (msg_out (next_out ty vs)))) (rest_out ty vs)"
| bq_empty: "bq_step ty cap isz [] (Recv None) []"
| bq_peek: "bq_step ty cap isz vs (Peek (if vs = [] then None else Some (msg_out (hd vs)))) vs"
| bq_flush: "bq_step ty cap isz vs Flush []"

text \<open>The calls on the queue \<open>q\<close>; \<open>malloc\<close> returns a block that is not in use, or fails.\<close>

inductive mq_step :: "'s sem_ops \<Rightarrow> addr \<Rightarrow> 's mq_state \<Rightarrow> mq_event \<Rightarrow> 's mq_state \<Rightarrow> bool" for so q where
  mq_send: "mqueue_enqueue so item data_ok q (Some bs) sz p d w tmo s = Some (b, s') \<Longrightarrow> item \<notin> mq_live s \<Longrightarrow>
     unat sz \<le> length bs \<Longrightarrow> mq_step so q s (Send (take (unat sz) bs, sz, p, d, w) (item \<noteq> NULL \<and> data_ok) b) s'"
| mq_recv: "mqueue_dequeue so q True tmo s = Some (r, s') \<Longrightarrow> mq_step so q s (Recv r) s'"
| mq_peek: "mq_step so q s (Peek (mqueue_peek q True s)) s"
| mq_flush: "mqueue_flush so q s = Some (b, s') \<Longrightarrow> mq_step so q s Flush s'"

definition mq_sim :: "'s sem_ops \<Rightarrow> ('s \<Rightarrow> nat) \<Rightarrow> addr \<Rightarrow> queue_type_t \<Rightarrow> nat \<Rightarrow> u32 \<Rightarrow> 's mq_state \<Rightarrow> message list \<Rightarrow> bool" where
  "mq_sim so cnt q ty cap isz s vs \<longleftrightarrow> counting_semaphore so cnt \<and> q \<noteq> NULL \<and> q_type (mq_queue s q) = ty \<and>
     unat (q_max_items (mq_queue s q)) = cap \<and> q_item_size (mq_queue s q) = isz \<and>
     (\<exists>xs. mq_inv cnt s q xs \<and> vs = map (\<lambda>x. content (mq_item s x)) xs)"

lemma goes_before_msg: "goes_before ty i j \<longleftrightarrow> msg_before ty (content i) (content j)"
  by (cases ty) (auto simp: content_def)

lemma map_place:
  "map (\<lambda>x. content (m x)) (place ty m a xs) = msg_place ty (content (m a)) (map (\<lambda>x. content (m x)) xs)"
  by (simp add: place_def msg_place_def goes_before_msg takeWhile_map dropWhile_map comp_def)

lemma mq_sim_send:
  assumes "mq_sim so cnt q ty cap isz s vs" "mqueue_enqueue so item ok q (Some bs) sz p d w tmo s = Some (b, s')"
    "item \<notin> mq_live s" "unat sz \<le> length bs"
  shows "\<exists>vs'. bq_step ty cap isz vs (Send (take (unat sz) bs, sz, p, d, w) (item \<noteq> NULL \<and> ok) b) vs' \<and> mq_sim so cnt q ty cap isz s' vs'"
proof -
  from assms(1) obtain xs where so: "counting_semaphore so cnt" and q: "q \<noteq> NULL" "q_type (mq_queue s q) = ty"
    "unat (q_max_items (mq_queue s q)) = cap" "q_item_size (mq_queue s q) = isz"
    and inv: "mq_inv cnt s q xs" and vs: "vs = map (\<lambda>x. content (mq_item s x)) xs"
    unfolding mq_sim_def by blast
  have le: "length xs \<le> cap" using inv q(3) by (simp add: mq_inv_def)
  show ?thesis
  proof (cases "item \<noteq> NULL \<and> ok \<and> length xs < cap \<and> sz \<le> isz")
    case True
    have ok: ok using True by simp
    obtain s1 where s1: "mqueue_enqueue so item True q (Some bs) sz p d w tmo s = Some (True, s1)"
      "mq_inv cnt s1 q (place ty (mq_item s1) item xs)" "content (mq_item s1 item) = (take (unat sz) bs, sz, p, d, w)"
      "\<forall>x. x \<noteq> item \<longrightarrow> content (mq_item s1 x) = content (mq_item s x)"
      "q_type (mq_queue s1 q) = ty" "q_max_items (mq_queue s1 q) = q_max_items (mq_queue s q)" "q_item_size (mq_queue s1 q) = isz"
      using mq_enqueue_ok[OF so inv q(1), of sz bs item p d w tmo] True assms(3,4) q by auto
    have s': "s' = s1" "b" using s1(1) assms(2) ok by auto
    have "item \<notin> set xs" using inv assms(3) by (auto simp: mq_inv_def)
    then have m: "map (\<lambda>x. content (mq_item s1 x)) xs = vs" using s1(4) by (auto simp: vs)
    have "bq_step ty cap isz vs (Send (take (unat sz) bs, sz, p, d, w) True True)
        (map (\<lambda>x. content (mq_item s1 x)) (place ty (mq_item s1) item xs))"
      using bq_send[of vs cap "(take (unat sz) bs, sz, p, d, w)" isz ty] True s1(3) vs unfolding map_place m by simp
    then show ?thesis using s' s1 so q True by (auto simp: mq_sim_def)
  next
    case False
    then have "q = NULL \<or> Some bs = None \<or> q_item_size (mq_queue s q) < sz \<or>
        length xs = unat (q_max_items (mq_queue s q)) \<or> item = NULL \<or> \<not> ok" using le q by auto
    from mq_enqueue_fails[OF so inv this, of p d w tmo] obtain s1 where
      s1: "mqueue_enqueue so item ok q (Some bs) sz p d w tmo s = Some (False, s1)" "mq_inv cnt s1 q xs" "mq_item s1 = mq_item s"
      "q_type (mq_queue s1 q) = ty" "q_max_items (mq_queue s1 q) = q_max_items (mq_queue s q)" "q_item_size (mq_queue s1 q) = isz"
      using q by auto
    have "bq_step ty cap isz vs (Send (take (unat sz) bs, sz, p, d, w) (item \<noteq> NULL \<and> ok) False) vs"
      by (rule bq_refuse) (use False vs in auto)
    then show ?thesis using s1 assms(2) so q vs by (auto simp: mq_sim_def)
  qed
qed

lemma mq_sim_recv:
  assumes "mq_sim so cnt q ty cap isz s vs" "mqueue_dequeue so q True tmo s = Some (r, s')"
  shows "\<exists>vs'. bq_step ty cap isz vs (Recv r) vs' \<and> mq_sim so cnt q ty cap isz s' vs'"
proof -
  from assms(1) obtain xs where so: "counting_semaphore so cnt" and q: "q \<noteq> NULL" "q_type (mq_queue s q) = ty"
    "unat (q_max_items (mq_queue s q)) = cap" "q_item_size (mq_queue s q) = isz"
    and inv: "mq_inv cnt s q xs" and vs: "vs = map (\<lambda>x. content (mq_item s x)) xs"
    unfolding mq_sim_def by blast
  show ?thesis
  proof (cases "xs = []")
    case True
    then show ?thesis
      using mq_dequeue_empty[OF so _ q(1), of s tmo] inv assms(2) so q vs
        mq_inv_timeouts[OF inv, of "\<lambda>st. st\<lparr>qs_timeouts := qs_timeouts st + 1\<rparr>"]
      by (auto simp: mq_sim_def intro: bq_empty)
  next
    case False
    from mq_dequeue_ok[OF so inv q(1) False, of tmo] obtain s1 where
      s1: "mqueue_dequeue so q True tmo s = Some (Some (msg_out (content (mq_item s (next_out ty xs)))), s1)"
      "mq_inv cnt s1 q (rest_out ty xs)" "\<forall>x. content (mq_item s1 x) = content (mq_item s x)"
      "q_type (mq_queue s1 q) = ty" "q_max_items (mq_queue s1 q) = q_max_items (mq_queue s q)" "q_item_size (mq_queue s1 q) = isz"
      using q by (auto simp: content_def)
    have "bq_step ty cap isz vs (Recv (Some (msg_out (content (mq_item s (next_out ty xs)))))) (map (\<lambda>x. content (mq_item s x)) (rest_out ty xs))"
      using bq_recv[of vs ty cap isz] False by (simp add: vs next_rest_map)
    then show ?thesis using s1 assms(2) so q by (auto simp: mq_sim_def)
  qed
qed

lemma mq_sim_peek:
  assumes "mq_sim so cnt q ty cap isz s vs"
  shows "mqueue_peek q True s = (if vs = [] then None else Some (msg_out (hd vs)))"
proof -
  from assms obtain xs where q: "q \<noteq> NULL" and l: "mq_list s q xs" and vs: "vs = map (\<lambda>x. content (mq_item s x)) xs"
    unfolding mq_sim_def mq_inv_def by blast
  show ?thesis
    using q mq_list_head[OF l] mq_list_head_NULL[OF l] by (cases xs) (auto simp: mqueue_peek_def vs content_def)
qed

lemma mq_sim_flush:
  assumes "mq_sim so cnt q ty cap isz s vs" "mqueue_flush so q s = Some (b, s')"
  shows "mq_sim so cnt q ty cap isz s' []"
proof -
  from assms(1) obtain xs where so: "counting_semaphore so cnt" and q: "q \<noteq> NULL" and inv: "mq_inv cnt s q xs"
    unfolding mq_sim_def by blast
  from mq_flush_ok[OF so inv q] show ?thesis using assms by (auto simp: mq_sim_def)
qed

interpretation mq: simulation "mq_step so q" "bq_step ty cap isz" "mq_sim so cnt q ty cap isz"
proof
  fix c a e c'
  assume s: "mq_sim so cnt q ty cap isz c a" and "mq_step so q c e c'"
  from this(2) show "\<exists>a'. bq_step ty cap isz a e a' \<and> mq_sim so cnt q ty cap isz c' a'"
  proof cases
    case mq_peek
    then show ?thesis using s bq_peek[of ty cap isz a] mq_sim_peek[OF s] by auto
  next
    case mq_flush
    then show ?thesis using mq_sim_flush[OF s] bq_flush by blast
  qed (use mq_sim_send[OF s] mq_sim_recv[OF s] in auto)
qed

section \<open>Properties\<close>

abbreviation expired :: "'s mq_state \<Rightarrow> u64 \<Rightarrow> addr \<Rightarrow> bool" where
  "expired s now x \<equiv> qi_deadline (mq_item s x) \<le> now"

lemma mq_sim_count:
  assumes "mq_sim so cnt q ty cap isz s vs"
  shows "length vs \<le> cap" "mqueue_get_count q s = of_nat (length vs)" "mqueue_is_full q s \<longleftrightarrow> length vs = cap"
    "mqueue_is_empty q s \<longleftrightarrow> vs = []"
proof -
  from assms obtain xs where q: "q \<noteq> NULL" "unat (q_max_items (mq_queue s q)) = cap"
    and inv: "mq_inv cnt s q xs" and vs: "length vs = length xs" unfolding mq_sim_def by auto
  show le: "length vs \<le> cap" using inv q vs by (simp add: mq_inv_def)
  then have u: "unat (of_nat (length xs) :: u32) = length xs" using q(2) vs unat_u32_less[of "q_max_items (mq_queue s q)"] by (simp add: unat_of_nat_u32)
  have c: "q_current_items (mq_queue s q) = of_nat (length xs)" using inv by (simp add: mq_inv_def)
  show "mqueue_get_count q s = of_nat (length vs)" using q c vs by (simp add: mqueue_get_count_def)
  show "mqueue_is_full q s \<longleftrightarrow> length vs = cap" using q le vs c u by (auto simp: mqueue_is_full_def word_le_nat_alt)
  have "(of_nat (length xs) :: u32) = 0 \<longleftrightarrow> length xs = 0" using u by (metis unat_eq_0 word_eq_iff_unsigned)
  then show "mqueue_is_empty q s \<longleftrightarrow> vs = []" using q c vs by (auto simp: mqueue_is_empty_def)
qed

text \<open>A semaphore that is its count, and a memory for the examples.\<close>

definition nat_sem :: "nat sem_ops" where
  "nat_sem = \<lparr>sem_create = unat, sem_wait = (\<lambda>n t. if n = 0 then (False, n) else (True, n - 1)),
     sem_post = Suc, sem_reset = (\<lambda>_ m. unat m)\<rparr>"

lemma nat_sem_counting: "counting_semaphore nat_sem (\<lambda>n. n)"
  by (simp add: counting_semaphore_def nat_sem_def)

definition ex_mq :: "queue_type_t \<Rightarrow> u32 \<Rightarrow> nat mq_state" where
  "ex_mq ty mx = \<lparr>mq_queue = (\<lambda>_. new_queue nat_sem 1 ty QUEUE_POLICY_BLOCK mx 4),
     mq_item = (\<lambda>_. \<lparr>qi_data = [], qi_size = 0, qi_priority = 0, qi_deadline = 0, qi_weight = 0, qi_next = NULL, qi_prev = NULL\<rparr>),
     mq_live = {}\<rparr>"

lemmas mq_eval = mqueue_enqueue_def mqueue_dequeue_def insert_item_def insert_tail_def count_enqueued_def
  nat_sem_def new_queue_def zero_queue_stats_def ex_mq_def pop_head_def rotate_head_def Let_def

lemma ex_mq_inv: "mq_inv (\<lambda>n. n) (ex_mq ty mx) q []"
  by (rule new_queue_inv[OF nat_sem_counting]) (simp add: ex_mq_def)

text \<open>C4: every sequence of send, receive, peek and flush calls on a new queue returns what the bounded
  queue of messages returns: messages leave in order of arrival, of descending priority, of ascending
  deadline or round robin, as the type says, a send succeeds exactly while there is room, and the
  count, full and empty tests agree with the list.\<close>

theorem mqueue_refines_bounded_queue:
  assumes "counting_semaphore so cnt" "q \<noteq> NULL" "mq_queue s q = new_queue so mutex ty policy mx isz"
    and "steps (mq_step so q) s es s'"
  shows "\<exists>vs. steps (bq_step ty (unat mx) isz) [] es vs \<and> length vs \<le> unat mx \<and>
    mqueue_get_count q s' = of_nat (length vs) \<and> (mqueue_is_full q s' \<longleftrightarrow> length vs = unat mx) \<and>
    (mqueue_is_empty q s' \<longleftrightarrow> vs = [])"
proof -
  have "mq_sim so cnt q ty (unat mx) isz s []"
    using assms(1-3) new_queue_inv[OF assms(1,3)] by (auto simp: mq_sim_def new_queue_def)
  from mq.sim_steps[OF assms(4) this] obtain vs where "steps (bq_step ty (unat mx) isz) [] es vs"
    and "mq_sim so cnt q ty (unat mx) isz s' vs" by blast
  then show ?thesis using mq_sim_count[of so cnt q ty "unat mx" isz s' vs] by blast
qed

theorem mqueue_refines_bounded_queue_witness:
  "\<exists>s'. steps (mq_step nat_sem 1) (ex_mq QUEUE_TYPE_FIFO 1)
     [Send ([7], 1, 0, 0, 0) True True, Send ([8], 1, 0, 0, 0) False False, Recv (Some (1, [7]))] s' \<and>
   (\<exists>vs. steps (bq_step QUEUE_TYPE_FIFO 1 4) []
     [Send ([7], 1, 0, 0, 0) True True, Send ([8], 1, 0, 0, 0) False False, Recv (Some (1, [7]))] vs \<and> length vs \<le> 1 \<and>
     mqueue_get_count 1 s' = of_nat (length vs))"
proof -
  let ?e1 = "Send ([7], 1, 0, 0, 0) True True" and ?e2 = "Send ([8], 1, 0, 0, 0) False False"
  obtain s1 where s1: "mqueue_enqueue nat_sem 2 True 1 (Some [7]) 1 0 0 0 0 (ex_mq QUEUE_TYPE_FIFO 1) = Some (True, s1)"
    "mqueue_enqueue nat_sem 0 True 1 (Some [8]) 1 0 0 0 0 s1 =
       Some (False, upd_queue 1 (upd_stats (\<lambda>st. st\<lparr>qs_timeouts := qs_timeouts st + 1\<rparr>)) s1)"
    "\<exists>s'. mqueue_dequeue nat_sem 1 True 0 (upd_queue 1 (upd_stats (\<lambda>st. st\<lparr>qs_timeouts := qs_timeouts st + 1\<rparr>)) s1) = Some (Some (1, [7]), s')"
    by (simp add: mq_eval)
  from s1(3) obtain s3 where s3: "mqueue_dequeue nat_sem 1 True 0 (upd_queue 1 (upd_stats (\<lambda>st. st\<lparr>qs_timeouts := qs_timeouts st + 1\<rparr>)) s1)
     = Some (Some (1, [7]), s3)" ..
  have live: "0 \<notin> mq_live s1" using s1(1) by (auto simp: mq_eval)
  have st: "steps (mq_step nat_sem 1) (ex_mq QUEUE_TYPE_FIFO 1) [?e1, ?e2, Recv (Some (1, [7]))] s3"
    using mq_send[OF s1(1)] mq_send[OF s1(2)] mq_recv[OF s3] live by (auto simp: ex_mq_def)
  have "\<exists>vs. steps (bq_step QUEUE_TYPE_FIFO (unat (1 :: u32)) 4) [] [?e1, ?e2, Recv (Some (1, [7]))] vs \<and> length vs \<le> unat (1 :: u32) \<and>
      mqueue_get_count 1 s3 = of_nat (length vs)"
    using mqueue_refines_bounded_queue[OF nat_sem_counting _ _ st, of 1 QUEUE_TYPE_FIFO QUEUE_POLICY_BLOCK 1 4]
    by (simp add: ex_mq_def) blast
  then show ?thesis using st unfolding unat_1 by blast
qed

text \<open>A successful \<open>mqueue_enqueue\<close> puts a copy of the first \<open>size\<close> bytes behind exactly the items that go
  before it, keeps the links, the order, the counters and the semaphores in step, leaves the other
  items and queues alone; on a full queue it fails and changes nothing but the timeout count.\<close>

theorem mqueue_enqueue_correct:
  assumes "counting_semaphore so cnt" "mq_inv cnt s q xs" "q \<noteq> NULL" "sz \<le> q_item_size (mq_queue s q)"
    "unat sz \<le> length bs" "item \<noteq> NULL" "item \<notin> mq_live s"
  shows "\<exists>ok s'. mqueue_enqueue so item True q (Some bs) sz p d w tmo s = Some (ok, s') \<and>
    (ok \<longleftrightarrow> length xs < unat (q_max_items (mq_queue s q))) \<and>
    mq_inv cnt s' q (if ok then place (q_type (mq_queue s q)) (mq_item s') item xs else xs) \<and>
    (ok \<longrightarrow> content (mq_item s' item) = (take (unat sz) bs, sz, p, d, w)) \<and>
    (\<forall>x. x \<noteq> item \<longrightarrow> content (mq_item s' x) = content (mq_item s x)) \<and>
    (\<forall>r. r \<noteq> q \<longrightarrow> mq_queue s' r = mq_queue s r) \<and>
    mq_live s' = (if ok then insert item (mq_live s) else mq_live s)"
proof (cases "length xs < unat (q_max_items (mq_queue s q))")
  case True
  then show ?thesis using mq_enqueue_ok[OF assms True, of p d w tmo] by (auto intro: exI[of _ True])
next
  case False
  then have "length xs = unat (q_max_items (mq_queue s q))" using assms(2) by (auto simp: mq_inv_def)
  then obtain s' where "mqueue_enqueue so item True q (Some bs) sz p d w tmo s = Some (False, s')" "mq_inv cnt s' q xs"
    "mq_item s' = mq_item s" "mq_live s' = mq_live s" "\<forall>r. r \<noteq> q \<longrightarrow> mq_queue s' r = mq_queue s r"
    using mq_enqueue_fails[OF assms(1,2), of "Some bs" sz item True p d w tmo] by auto
  then show ?thesis using False by (intro exI[of _ False] exI[of _ s']) simp
qed

theorem mqueue_enqueue_correct_witness:
  "\<exists>ok s'. mqueue_enqueue nat_sem 2 True 1 (Some [7, 8]) 1 5 0 0 0 (ex_mq QUEUE_TYPE_PRIORITY 3) = Some (ok, s') \<and> ok \<and>
     mq_inv (\<lambda>n. n) s' 1 [2] \<and> content (mq_item s' 2) = ([7], 1, 5, 0, 0)"
proof -
  let ?s = "ex_mq QUEUE_TYPE_PRIORITY 3"
  have p: "(1 :: addr) \<noteq> NULL" "(1 :: u32) \<le> q_item_size (mq_queue ?s 1)" "unat (1 :: u32) \<le> length [7 :: u8, 8]"
    "(2 :: addr) \<noteq> NULL" "2 \<notin> mq_live ?s" by (simp_all add: ex_mq_def new_queue_def)
  have m: "q_max_items (mq_queue ?s 1) = 3" "q_type (mq_queue ?s 1) = QUEUE_TYPE_PRIORITY" by (simp_all add: ex_mq_def new_queue_def)
  from mqueue_enqueue_correct[OF nat_sem_counting ex_mq_inv p, of 5 0 0 0] obtain ok s' where
    "mqueue_enqueue nat_sem 2 True 1 (Some [7, 8]) 1 5 0 0 0 ?s = Some (ok, s')" "ok \<longleftrightarrow> length ([] :: addr list) < unat (3 :: u32)"
    "mq_inv (\<lambda>n. n) s' 1 (if ok then place QUEUE_TYPE_PRIORITY (mq_item s') 2 [] else [])"
    "ok \<longrightarrow> content (mq_item s' 2) = (take (unat (1 :: u32)) [7, 8], 1, 5, 0, 0)"
    unfolding m by (elim exE conjE) (rule that)
  then show ?thesis by (auto simp: place_def)
qed

text \<open>\<open>mqueue_remove_expired\<close> removes and frees exactly the items whose deadline has come, but does not
  post \<open>not_full\<close>: after all items of a full queue have expired the queue is empty and still refuses
  every message.\<close>

theorem mqueue_remove_expired_loses_capacity:
  assumes "counting_semaphore so cnt" "mq_inv cnt s q xs" "q \<noteq> NULL"
  shows "\<exists>s'. mqueue_remove_expired q now s = Some (of_nat (length (filter (expired s now) xs)), s') \<and>
    mq_list s' q (filter (\<lambda>x. \<not> expired s now x) xs) \<and> mq_live s' = mq_live s - set (filter (expired s now) xs) \<and>
    (\<forall>x. content (mq_item s' x) = content (mq_item s x)) \<and>
    mqueue_get_count q s' = of_nat (length (filter (\<lambda>x. \<not> expired s now x) xs)) \<and>
    (length xs = unat (q_max_items (mq_queue s q)) \<longrightarrow> filter (expired s now) xs = xs \<longrightarrow>
      mqueue_get_count q s' = 0 \<and>
      (\<forall>item ok data sz p d w tmo. \<exists>s''. mqueue_enqueue so item ok q data sz p d w tmo s' = Some (False, s'')))"
proof -
  have l: "mq_list s q xs" and inv: "q_current_items (mq_queue s q) = of_nat (length xs)"
    "cnt (q_not_full (mq_queue s q)) + length xs = unat (q_max_items (mq_queue s q))" using assms(2) by (auto simp: mq_inv_def)
  obtain s' where s': "mqueue_remove_expired q now s = Some (of_nat (length (filter (expired s now) xs)), s')"
    "mq_list s' q (filter (\<lambda>x. \<not> expired s now x) xs)" "mq_live s' = mq_live s - set (filter (expired s now) xs)"
    "pruned q (set xs) (of_nat (length (filter (expired s now) xs))) s s'"
    using mq_remove_expired_ok[OF l assms(3), of now] by blast
  have "length (filter (expired s now) xs) + length (filter (\<lambda>x. \<not> expired s now x) xs) = length xs" by (rule sum_length_filter_compl)
  then have "(of_nat (length xs) :: u32) = of_nat (length (filter (expired s now) xs)) + of_nat (length (filter (\<lambda>x. \<not> expired s now x) xs))"
    by (metis of_nat_add)
  then have c: "mqueue_get_count q s' = of_nat (length (filter (\<lambda>x. \<not> expired s now x) xs))"
    using s'(4) inv(1) assms(3) by (simp add: pruned_def mqueue_get_count_def)
  have refuse: "\<exists>s''. mqueue_enqueue so item ok q data sz p d w tmo s' = Some (False, s'')"
    if "length xs = unat (q_max_items (mq_queue s q))" for item ok data sz p d w tmo
  proof -
    have "cnt (q_not_full (mq_queue s' q)) = 0" using that inv(2) s'(4) by (simp add: pruned_def)
    then have "sem_wait so (q_not_full (mq_queue s' q)) tmo = (False, q_not_full (mq_queue s' q))"
      using assms(1) by (simp add: counting_semaphore_def)
    then show ?thesis by (auto simp: mqueue_enqueue_def Let_def)
  qed
  have "filter (\<lambda>x. \<not> expired s now x) xs = []" if "filter (expired s now) xs = xs" using that by (auto simp: filter_empty_conv filter_id_conv)
  with c refuse s' show ?thesis by (intro exI[of _ s']) (auto simp: pruned_def)
qed

definition ex_mq_full :: "nat mq_state" where
  "ex_mq_full = snd (the (mqueue_enqueue nat_sem 2 True 1 (Some [7]) 1 0 9 0 0 (ex_mq QUEUE_TYPE_FIFO 1)))"

lemma ex_mq_full_inv: "mq_inv (\<lambda>n. n) ex_mq_full 1 [2]" "qi_deadline (mq_item ex_mq_full 2) = 9" "unat (q_max_items (mq_queue ex_mq_full 1)) = 1"
  by (simp_all add: ex_mq_full_def mq_eval mq_inv_def mq_list_def)

theorem mqueue_remove_expired_loses_capacity_witness:
  "\<exists>s'. mqueue_remove_expired 1 10 ex_mq_full = Some (1, s') \<and> mq_list s' 1 [] \<and> mqueue_get_count 1 s' = 0 \<and>
    (\<exists>s''. mqueue_enqueue nat_sem 3 True 1 (Some [8]) 1 0 0 0 0 s' = Some (False, s''))"
proof -
  have "filter (\<lambda>x. qi_deadline (mq_item ex_mq_full x) \<le> 10) [2] = [2]" by (simp add: ex_mq_full_inv(2))
  with mqueue_remove_expired_loses_capacity[OF nat_sem_counting ex_mq_full_inv(1), of 10] ex_mq_full_inv(2,3)
  show ?thesis by auto
qed

end
