(* ===== verification/Timer.thy ===== *)
theory Timer
  imports Linked_List Simulation
begin

text \<open>
  Model of \<open>mini_rtos/src/timer.c\<close>: one timer wheel per processor, with four levels of eight buckets
  of timers linked through \<open>next\<close> and \<open>prev\<close>.

  A callback is called through \<open>tv_call\<close>, which acts on the state of the application; \<open>tv_time_ns\<close> is
  \<open>timer_get_time_ns\<close>, which the repository declares and does not define. The array of timer bases has
  \<open>MAX_CPU\<close> elements, an index outside of it is \<open>None\<close>, as is a shift by the width of the word. The
  bucket indices are masked with \<open>TIMER_WHEEL_MASK\<close> and the levels are below \<open>TIMER_WHEEL_LEVELS\<close>, so
  the wheel is a function on both.
\<close>

section \<open>Data\<close>

datatype timer_type_t = TIMER_ONESHOT | TIMER_PERIODIC | TIMER_HIGH_RES | TIMER_CPU_SPECIFIC | TIMER_DEFERRABLE

datatype timer_state_t = TIMER_INACTIVE | TIMER_ENQUEUED | TIMER_RUNNING | TIMER_EXPIRED | TIMER_CANCELLED

abbreviation (input) TIMER_FLAG_DEFERRABLE :: u32 where "TIMER_FLAG_DEFERRABLE \<equiv> 8"
abbreviation (input) TIMER_FLAG_HIGH_RES :: u32 where "TIMER_FLAG_HIGH_RES \<equiv> 32"
abbreviation (input) TIMER_WHEEL_SIZE :: nat where "TIMER_WHEEL_SIZE \<equiv> 8"
abbreviation (input) TIMER_WHEEL_MASK :: u32 where "TIMER_WHEEL_MASK \<equiv> 7"
abbreviation (input) TIMER_WHEEL_LEVELS :: nat where "TIMER_WHEEL_LEVELS \<equiv> 4"

record timer_t =
  tm_expires :: u32
  tm_period :: u32
  tm_callback :: addr
  tm_callback_arg :: addr
  tm_type :: timer_type_t
  tm_state :: timer_state_t
  tm_flags :: u32
  tm_cpu :: u8
  tm_priority :: u8
  tm_next :: addr
  tm_prev :: addr

type_synonym tm_mem = "addr \<Rightarrow> timer_t"

record timer_wheel_t =
  tw_wheel :: "nat \<Rightarrow> nat \<Rightarrow> addr"
  tw_current_tick :: u32
  tw_resolution :: u32
  tw_lock :: addr

record timer_base_t =
  tb_wheel :: timer_wheel_t
  tb_next_expiry :: u32
  tb_resolution :: u32
  tb_cpu :: u8
  tb_active :: u8

record timer_stats_t =
  tx_total_timers :: u32
  tx_active_timers :: u32
  tx_expired_timers :: u32
  tx_overrun_timers :: u32
  tx_high_res_timers :: u32
  tx_deferrable_timers :: u32
  tx_total_latency :: u64
  tx_max_latency :: u32
  tx_min_latency :: u32

record 'u timer_sys =
  ts_bases :: "timer_base_t list"
  ts_mem :: tm_mem
  ts_stats :: timer_stats_t
  ts_app :: 'u

record 'u timer_env =
  tv_call :: "addr \<Rightarrow> addr \<Rightarrow> 'u \<Rightarrow> 'u"
  tv_time_ns :: "'u \<Rightarrow> u64"

abbreviation upd_tm :: "addr \<Rightarrow> (timer_t \<Rightarrow> timer_t) \<Rightarrow> tm_mem \<Rightarrow> tm_mem" where
  "upd_tm p f m \<equiv> m(p := f (m p))"

abbreviation set_slot :: "nat \<Rightarrow> nat \<Rightarrow> addr \<Rightarrow> timer_wheel_t \<Rightarrow> timer_wheel_t" where
  "set_slot l i p w \<equiv> w\<lparr>tw_wheel := (tw_wheel w)(l := (tw_wheel w l)(i := p))\<rparr>"

section \<open>The wheel\<close>

text \<open>\<open>(expires >> (8 * level)) & 7\<close>; a shift by 32 is undefined.\<close>

definition get_wheel_index :: "u32 \<Rightarrow> nat \<Rightarrow> nat option" where
  "get_wheel_index expires level =
     (if TIMER_WHEEL_SIZE * level < 32 then Some (unat (drop_bit (TIMER_WHEEL_SIZE * level) expires AND TIMER_WHEEL_MASK)) else None)"

text \<open>The level search of \<open>timer_wheel_add\<close>. Its last test, behind level 3, shifts by 32.\<close>

function wheel_level :: "u32 \<Rightarrow> nat \<Rightarrow> nat option" where
  "wheel_level expires level =
     (if 32 \<le> TIMER_WHEEL_SIZE * (level + 1) then None
      else if drop_bit (TIMER_WHEEL_SIZE * (level + 1)) expires \<noteq> 0 then
        (if level + 1 \<ge> TIMER_WHEEL_LEVELS then Some (TIMER_WHEEL_LEVELS - 1) else wheel_level expires (level + 1))
      else Some level)"
  by pat_completeness auto
termination by (relation "measure (\<lambda>(e, l). 4 - l)") auto

definition timer_wheel_add :: "addr \<Rightarrow> timer_wheel_t \<times> tm_mem \<Rightarrow> (timer_wheel_t \<times> tm_mem) option" where
  "timer_wheel_add timer = (\<lambda>(w, m).
     Option.bind (wheel_level (tm_expires (m timer)) 0) (\<lambda>level.
     Option.bind (get_wheel_index (tm_expires (m timer)) level) (\<lambda>idx.
       let h = tw_wheel w level idx;
           m = upd_tm timer (tm_next_update (\<lambda>_. h)) m;
           m = (if h \<noteq> NULL then upd_tm h (tm_prev_update (\<lambda>_. timer)) m else m);
           w = set_slot level idx timer w
       in Some (w, upd_tm timer (tm_state_update (\<lambda>_. TIMER_ENQUEUED)) m))))"

text \<open>The loop of \<open>timer_wheel_remove\<close> over the levels: \<open>idx\<close> is computed one level ahead.\<close>

function find_head :: "addr \<Rightarrow> u32 \<Rightarrow> addr \<Rightarrow> timer_wheel_t \<Rightarrow> nat \<Rightarrow> nat \<Rightarrow> timer_wheel_t option" where
  "find_head timer expires nxt w level idx =
     (if level \<ge> TIMER_WHEEL_LEVELS then Some w
      else if tw_wheel w level idx = timer then Some (set_slot level idx nxt w)
      else Option.bind (get_wheel_index expires (level + 1)) (find_head timer expires nxt w (level + 1)))"
  by pat_completeness auto
termination by (relation "measure (\<lambda>(t, e, n, w, l, i). 4 - l)") auto

definition timer_wheel_remove :: "addr \<Rightarrow> timer_wheel_t \<times> tm_mem \<Rightarrow> (timer_wheel_t \<times> tm_mem) option" where
  "timer_wheel_remove timer = (\<lambda>(w, m).
     let p = tm_prev (m timer); n = tm_next (m timer) in
     Option.bind
       (if p \<noteq> NULL then Some (w, upd_tm p (tm_next_update (\<lambda>_. n)) m)
        else Option.bind (get_wheel_index (tm_expires (m timer)) 0) (\<lambda>idx.
          map_option (\<lambda>w. (w, m)) (find_head timer (tm_expires (m timer)) n w 0 idx)))
       (\<lambda>(w, m).
         let n = tm_next (m timer);
             m = (if n \<noteq> NULL then upd_tm n (tm_prev_update (\<lambda>_. tm_prev (m timer))) m else m)
         in Some (w, upd_tm timer (\<lambda>t. t\<lparr>tm_state := TIMER_INACTIVE, tm_next := NULL, tm_prev := NULL\<rparr>) m)))"

partial_function (option) cascade_loop :: "nat \<Rightarrow> addr \<Rightarrow> timer_wheel_t \<times> tm_mem \<Rightarrow> (timer_wheel_t \<times> tm_mem) option" where
  "cascade_loop level timer s =
     (if timer = NULL then Some s
      else
        let nxt = tm_next (snd s timer) in
        Option.bind (if level > 0 then timer_wheel_add timer s else Some s) (cascade_loop level nxt))"

definition cascade_timers :: "nat \<Rightarrow> timer_wheel_t \<times> tm_mem \<Rightarrow> (timer_wheel_t \<times> tm_mem) option" where
  "cascade_timers level = (\<lambda>(w, m).
     Option.bind (get_wheel_index (tw_current_tick w) level) (\<lambda>index.
       cascade_loop level (tw_wheel w level index) (set_slot level index NULL w, m)))"

text \<open>The statistics of a callback.\<close>

definition count_callback :: "u32 \<Rightarrow> timer_stats_t \<Rightarrow> timer_stats_t" where
  "count_callback latency st =
     (let st = st\<lparr>tx_total_latency := tx_total_latency st + ucast latency\<rparr>;
          st = (if latency > tx_max_latency st then st\<lparr>tx_max_latency := latency\<rparr> else st);
          st = (if latency < tx_min_latency st then st\<lparr>tx_min_latency := latency\<rparr> else st)
      in st\<lparr>tx_expired_timers := tx_expired_timers st + 1\<rparr>)"

definition run_callback :: "'u timer_env \<Rightarrow> timer_t \<Rightarrow> timer_stats_t \<times> 'u \<Rightarrow> timer_stats_t \<times> 'u" where
  "run_callback e t = (\<lambda>(st, u).
     if tm_callback t = NULL then (st, u)
     else
       let start = ucast (tv_time_ns e u) :: u32;
           u' = tv_call e (tm_callback t) (tm_callback_arg t) u;
           latency = ucast (tv_time_ns e u' - ucast start) :: u32
       in (count_callback latency st, u'))"

text \<open>One timer of the bucket of the current tick.\<close>

definition expire_timer :: "'u timer_env \<Rightarrow> addr \<Rightarrow> timer_wheel_t \<times> tm_mem \<Rightarrow> timer_stats_t \<times> 'u \<Rightarrow>
    ((timer_wheel_t \<times> tm_mem) \<times> timer_stats_t \<times> 'u) option" where
  "expire_timer e timer = (\<lambda>(w, m) (st, u).
     if tm_expires (m timer) \<le> tw_current_tick w then
       let m = upd_tm timer (tm_state_update (\<lambda>_. TIMER_EXPIRED)) m;
           su = run_callback e (m timer) (st, u) in
       if tm_type (m timer) = TIMER_PERIODIC then
         let m = upd_tm timer (\<lambda>t. t\<lparr>tm_expires := tm_expires t + tm_period t\<rparr>) m
         in Option.bind (timer_wheel_add timer (w, m)) (\<lambda>wm. Some (wm, su))
       else Some ((w, upd_tm timer (tm_state_update (\<lambda>_. TIMER_INACTIVE)) m), su)
     else Option.bind (timer_wheel_add timer (w, m)) (\<lambda>wm. Some (wm, st, u)))"

partial_function (option) advance_loop :: "'u timer_env \<Rightarrow> addr \<Rightarrow> timer_wheel_t \<times> tm_mem \<Rightarrow> timer_stats_t \<times> 'u \<Rightarrow>
    ((timer_wheel_t \<times> tm_mem) \<times> timer_stats_t \<times> 'u) option" where
  "advance_loop e timer wm su =
     (if timer = NULL then Some (wm, su)
      else
        let nxt = tm_next (snd wm timer) in
        Option.bind (expire_timer e timer wm su) (\<lambda>(wm, su). advance_loop e nxt wm su))"

definition cascade_all :: "timer_wheel_t \<times> tm_mem \<Rightarrow> (timer_wheel_t \<times> tm_mem) option" where
  "cascade_all wm =
     (let t = tw_current_tick (fst wm) in
      if t AND (push_bit TIMER_WHEEL_SIZE 1 - 1) \<noteq> 0 then Some wm
      else Option.bind (cascade_timers 1 wm) (\<lambda>wm.
        if t AND (push_bit (2 * TIMER_WHEEL_SIZE) 1 - 1) \<noteq> 0 then Some wm
        else Option.bind (cascade_timers 2 wm) (\<lambda>wm.
          if t AND (push_bit (3 * TIMER_WHEEL_SIZE) 1 - 1) \<noteq> 0 then Some wm
          else cascade_timers 3 wm)))"

definition timer_wheel_advance :: "'u timer_env \<Rightarrow> timer_wheel_t \<times> tm_mem \<Rightarrow> timer_stats_t \<times> 'u \<Rightarrow>
    ((timer_wheel_t \<times> tm_mem) \<times> timer_stats_t \<times> 'u) option" where
  "timer_wheel_advance e = (\<lambda>(w, m) su.
     let index = unat (tw_current_tick w AND TIMER_WHEEL_MASK) in
     Option.bind (advance_loop e (tw_wheel w 0 index) (set_slot 0 index NULL w, m) su) (\<lambda>(wm, su).
     Option.bind (cascade_all wm) (\<lambda>(w, m).
       Some ((w\<lparr>tw_current_tick := tw_current_tick w + 1\<rparr>, m), su))))"

section \<open>The timer bases\<close>

partial_function (option) min_expiry :: "tm_mem \<Rightarrow> addr \<Rightarrow> u32 \<Rightarrow> u32 option" where
  "min_expiry m timer next_expiry =
     (if timer = NULL then Some next_expiry
      else min_expiry m (tm_next (m timer)) (if tm_expires (m timer) < next_expiry then tm_expires (m timer) else next_expiry))"

fun min_expiry_slots :: "tm_mem \<Rightarrow> addr list \<Rightarrow> u32 \<Rightarrow> u32 option" where
  "min_expiry_slots m [] n = Some n"
| "min_expiry_slots m (h # hs) n = Option.bind (min_expiry m h n) (min_expiry_slots m hs)"

definition timer_base_get_next_expiry :: "timer_wheel_t \<Rightarrow> tm_mem \<Rightarrow> u32 option" where
  "timer_base_get_next_expiry w m =
     min_expiry_slots m (concat (map (\<lambda>level. map (tw_wheel w level) [0..<TIMER_WHEEL_SIZE]) [0..<TIMER_WHEEL_LEVELS])) UINT32_MAX"

definition timer_base_advance :: "'u timer_env \<Rightarrow> nat \<Rightarrow> 'u timer_sys \<Rightarrow> 'u timer_sys option" where
  "timer_base_advance e cpu s =
     (if length (ts_bases s) \<le> cpu then None
      else
        let base = ts_bases s ! cpu in
        if tb_active base = 0 then Some s
        else
          Option.bind (timer_wheel_advance e (tb_wheel base, ts_mem s) (ts_stats s, ts_app s)) (\<lambda>((w, m), st, u).
          Option.bind (timer_base_get_next_expiry w m) (\<lambda>n.
            Some (s\<lparr>ts_bases := (ts_bases s)[cpu := base\<lparr>tb_wheel := w, tb_next_expiry := n\<rparr>],
                    ts_mem := m, ts_stats := st, ts_app := u\<rparr>))))"

section \<open>Timers\<close>

text \<open>\<open>timer\<close> is what \<open>rtos_malloc\<close> returned, \<open>cpu\<close> what \<open>get_current_cpu\<close> did. The members that are not
  written stay as the memory had them.\<close>

definition timer_create :: "addr \<Rightarrow> u8 \<Rightarrow> timer_type_t \<Rightarrow> u32 \<Rightarrow> 'u timer_sys \<Rightarrow> addr \<times> 'u timer_sys" where
  "timer_create timer cpu ty flags s =
     (if timer = NULL then (NULL, s)
      else
        let m = upd_tm timer (\<lambda>t. t\<lparr>tm_type := ty, tm_flags := flags, tm_state := TIMER_INACTIVE,
                                    tm_next := NULL, tm_prev := NULL, tm_cpu := cpu\<rparr>) (ts_mem s);
            st = ts_stats s;
            st = st\<lparr>tx_total_timers := tx_total_timers st + 1\<rparr>;
            st = (if flags AND TIMER_FLAG_HIGH_RES \<noteq> 0 then st\<lparr>tx_high_res_timers := tx_high_res_timers st + 1\<rparr> else st);
            st = (if flags AND TIMER_FLAG_DEFERRABLE \<noteq> 0 then st\<lparr>tx_deferrable_timers := tx_deferrable_timers st + 1\<rparr> else st)
        in (timer, s\<lparr>ts_mem := m, ts_stats := st\<rparr>))"

definition timer_start :: "addr \<Rightarrow> u32 \<Rightarrow> u32 \<Rightarrow> addr \<Rightarrow> addr \<Rightarrow> 'u timer_sys \<Rightarrow> (int \<times> 'u timer_sys) option" where
  "timer_start timer expires period callback arg s =
     (if timer = NULL \<or> callback = NULL then Some (-1, s)
      else
        let m = upd_tm timer (\<lambda>t. t\<lparr>tm_expires := expires, tm_period := period, tm_callback := callback, tm_callback_arg := arg\<rparr>) (ts_mem s);
            cpu = unat (tm_cpu (m timer)) in
        if length (ts_bases s) \<le> cpu then None
        else Option.bind (timer_wheel_add timer (tb_wheel (ts_bases s ! cpu), m)) (\<lambda>(w, m).
          Some (0, s\<lparr>ts_bases := (ts_bases s)[cpu := (ts_bases s ! cpu)\<lparr>tb_wheel := w\<rparr>], ts_mem := m,
                     ts_stats := (ts_stats s)\<lparr>tx_active_timers := tx_active_timers (ts_stats s) + 1\<rparr>\<rparr>)))"

definition timer_stop :: "addr \<Rightarrow> 'u timer_sys \<Rightarrow> (int \<times> 'u timer_sys) option" where
  "timer_stop timer s =
     (if timer = NULL then Some (-1, s)
      else
        let cpu = unat (tm_cpu (ts_mem s timer)) in
        if length (ts_bases s) \<le> cpu then None
        else Option.bind (timer_wheel_remove timer (tb_wheel (ts_bases s ! cpu), ts_mem s)) (\<lambda>(w, m).
          Some (0, s\<lparr>ts_bases := (ts_bases s)[cpu := (ts_bases s ! cpu)\<lparr>tb_wheel := w\<rparr>], ts_mem := m,
                     ts_stats := (ts_stats s)\<lparr>tx_active_timers := tx_active_timers (ts_stats s) - 1\<rparr>\<rparr>)))"

definition hrtimer_create :: "addr \<Rightarrow> u8 \<Rightarrow> u32 \<Rightarrow> 'u timer_sys \<Rightarrow> addr \<times> 'u timer_sys" where
  "hrtimer_create timer cpu flags s = timer_create timer cpu TIMER_HIGH_RES (flags OR TIMER_FLAG_HIGH_RES) s"

text \<open>The null test of \<open>timer_start\<close> comes after \<open>hrtimer_start\<close> has read \<open>timer->cpu\<close>; a division by a zero
  resolution is undefined as well.\<close>

definition hrtimer_start :: "addr \<Rightarrow> u64 \<Rightarrow> addr \<Rightarrow> addr \<Rightarrow> 'u timer_sys \<Rightarrow> (int \<times> 'u timer_sys) option" where
  "hrtimer_start timer expires_ns callback arg s =
     (let cpu = unat (tm_cpu (ts_mem s timer)) in
      if timer = NULL \<or> length (ts_bases s) \<le> cpu \<or> tb_resolution (ts_bases s ! cpu) = 0 then None
      else timer_start timer (ucast (expires_ns div ucast (tb_resolution (ts_bases s ! cpu)))) 0 callback arg s)"

definition zero_timer_stats :: timer_stats_t where
  "zero_timer_stats = \<lparr>tx_total_timers = 0, tx_active_timers = 0, tx_expired_timers = 0, tx_overrun_timers = 0,
     tx_high_res_timers = 0, tx_deferrable_timers = 0, tx_total_latency = 0, tx_max_latency = 0, tx_min_latency = 0\<rparr>"

definition reset_timer_stats :: "'u timer_sys \<Rightarrow> 'u timer_sys" where
  "reset_timer_stats s = s\<lparr>ts_stats := zero_timer_stats\<lparr>tx_min_latency := UINT32_MAX\<rparr>\<rparr>"

definition get_timer_stats :: "'u timer_sys \<Rightarrow> timer_stats_t" where
  "get_timer_stats s = ts_stats s"

text \<open>\<open>lock cpu\<close> is what \<open>mutex_create\<close> returned for the base of \<open>cpu\<close>.\<close>

definition init_base :: "(nat \<Rightarrow> addr) \<Rightarrow> nat \<Rightarrow> timer_base_t \<Rightarrow> timer_base_t" where
  "init_base lock cpu base =
     base\<lparr>tb_cpu := of_nat cpu, tb_resolution := 1000, tb_active := 1,
          tb_wheel := \<lparr>tw_wheel = (\<lambda>_ _. NULL), tw_current_tick = 0, tw_resolution = 1000, tw_lock = lock cpu\<rparr>\<rparr>"

definition timer_subsystem_init :: "(nat \<Rightarrow> addr) \<Rightarrow> 'u timer_sys \<Rightarrow> 'u timer_sys" where
  "timer_subsystem_init lock s =
     reset_timer_stats (s\<lparr>ts_bases := map (\<lambda>cpu. init_base lock cpu (ts_bases s ! cpu)) [0..<length (ts_bases s)]\<rparr>)"

declare cascade_loop.simps [code] advance_loop.simps [code] min_expiry.simps [code]
declare wheel_level.simps [simp del] find_head.simps [simp del]

end
