(* ===== verification/Systick.thy ===== *)
theory Systick
  imports Timer Scheduler
begin

text \<open>
  Model of \<open>mini_rtos/src/systick.c\<close>: the tick interrupt, which composes the timer wheel of the current
  processor with the scheduler, and the busy wait on the tick counter. \<open>systick_init\<close> only writes
  hardware registers. \<open>timer_base_process_events\<close> is declared in \<open>timer.h\<close> and defined nowhere: it is
  the argument \<open>process\<close>.
\<close>

abbreviation (input) TASK_SWITCH_TICKS :: u32 where "TASK_SWITCH_TICKS \<equiv> 10"

record 'u tick_sys =
  sk_ticks :: u32
  sk_timers :: "'u timer_sys"
  sk_sched :: sched_t

definition get_system_ticks :: "'u tick_sys \<Rightarrow> u32" where
  "get_system_ticks s = sk_ticks s"

definition ms_to_ticks :: "u32 \<Rightarrow> u32" where
  "ms_to_ticks ms = ms"

definition SysTick_Handler :: "'u timer_env \<Rightarrow> ('u timer_sys \<Rightarrow> 'u timer_sys) \<Rightarrow> nat \<Rightarrow> 'u tick_sys \<Rightarrow> 'u tick_sys option" where
  "SysTick_Handler e process cpu s =
     (let s = s\<lparr>sk_ticks := sk_ticks s + 1\<rparr> in
      Option.bind (timer_base_advance e cpu (sk_timers s)) (\<lambda>ts.
        let s = s\<lparr>sk_timers := process ts\<rparr>
        in Some (if sk_ticks s mod TASK_SWITCH_TICKS = 0 then s\<lparr>sk_sched := schedule_next_task (sk_sched s)\<rparr> else s)))"

text \<open>\<open>delay_ms\<close> polls the volatile counter; \<open>rd i\<close> is the value of the \<open>i\<close>-th read, the result the number of
  reads.\<close>

partial_function (option) delay_loop :: "(nat \<Rightarrow> u32) \<Rightarrow> u32 \<Rightarrow> u32 \<Rightarrow> nat \<Rightarrow> nat option" where
  "delay_loop rd start ms i = (if rd i - start < ms then delay_loop rd start ms (i + 1) else Some i)"

definition delay_ms :: "(nat \<Rightarrow> u32) \<Rightarrow> u32 \<Rightarrow> nat option" where
  "delay_ms rd ms = delay_loop rd (rd 0) ms 1"

lemma delay_loop_returns:
  "\<forall>j. i \<le> j \<and> j < n \<longrightarrow> rd j - start < ms \<Longrightarrow> \<not> rd n - start < ms \<Longrightarrow> i \<le> n \<Longrightarrow> delay_loop rd start ms i = Some n"
proof (induction "n - i" arbitrary: i)
  case 0
  then show ?case by (subst delay_loop.simps) simp
next
  case (Suc k)
  then have "rd i - start < ms" by simp
  with Suc show ?case by (subst delay_loop.simps) simp
qed

text \<open>When every read sees one more tick, the wait takes exactly \<open>ms\<close> ticks, also across the wrap-around of
  the counter.\<close>

lemma delay_ms_exact:
  assumes "\<And>i. rd i = t0 + of_nat i" "0 < ms"
  shows "delay_ms rd ms = Some (unat ms)"
  unfolding delay_ms_def
proof (rule delay_loop_returns)
  have d: "rd j - rd 0 = of_nat j" for j by (simp add: assms(1))
  show "\<forall>j. 1 \<le> j \<and> j < unat ms \<longrightarrow> rd j - rd 0 < ms"
    unfolding d using unat_u32_less[of ms] by (auto simp: word_less_nat_alt unat_of_nat_u32)
  show "\<not> rd (unat ms) - rd 0 < ms" unfolding d by simp
  show "1 \<le> unat ms" using assms(2) by (simp add: word_less_nat_alt)
qed

text \<open>Every handler call advances the wheel once; the scheduler runs exactly on the multiples of ten.\<close>

lemma SysTick_Handler_schedules:
  assumes "SysTick_Handler e process cpu s = Some s'"
  shows "sk_ticks s' = sk_ticks s + 1" "sk_ticks s' mod 10 \<noteq> 0 \<Longrightarrow> sk_sched s' = sk_sched s"
    "sk_ticks s' mod 10 = 0 \<Longrightarrow> sk_sched s' = schedule_next_task (sk_sched s)"
    "\<exists>ts. timer_base_advance e cpu (sk_timers s) = Some ts \<and> sk_timers s' = process ts"
proof -
  let ?n = "sk_ticks s + 1"
  obtain ts where ts: "timer_base_advance e cpu (sk_timers s) = Some ts"
    "s' = (let s = s\<lparr>sk_ticks := ?n, sk_timers := process ts\<rparr> in
       if ?n mod 10 = 0 then s\<lparr>sk_sched := schedule_next_task (sk_sched s)\<rparr> else s)"
    using assms by (auto simp: SysTick_Handler_def Let_def bind_eq_Some_conv)
  have "sk_ticks s' = ?n" unfolding ts(2) Let_def by simp
  then show "sk_ticks s' = sk_ticks s + 1" "sk_ticks s' mod 10 \<noteq> 0 \<Longrightarrow> sk_sched s' = sk_sched s"
    "sk_ticks s' mod 10 = 0 \<Longrightarrow> sk_sched s' = schedule_next_task (sk_sched s)"
    unfolding ts(2) Let_def by (cases "?n mod 10 = 0"; simp)+
  show "\<exists>ts. timer_base_advance e cpu (sk_timers s) = Some ts \<and> sk_timers s' = process ts"
    unfolding ts(2) Let_def using ts(1) by simp
qed

declare delay_loop.simps [code]

end
