(* ===== verification/Lockless_Queue.thy ===== *)
theory Lockless_Queue
  imports Simulation
begin

text \<open>
  Model of the lock-free queue of \<open>mini_rtos/src/lockless.c\<close>. Any number of threads run
  \<open>lf_queue_enqueue\<close> and \<open>lf_queue_dequeue\<close> at the same time; a thread's program counter \<open>q_pc\<close> holds its
  local variables, and every atomic access of the source is one step of \<open>lf_queue_step\<close>, so the
  executions are all interleavings of the accesses. The atomics are sequentially consistent. A weak
  compare-and-exchange may fail although the values agree. \<open>lf_alloc\<close> is defined nowhere in the
  repository: it returns a block that was never handed out before, or \<open>NULL\<close>. Retired nodes
  are not given back while the queue is in use (\<open>lf_gc_run\<close> runs after a thousand of them, see the model of
  the hazard pointers). A dereference of \<open>NULL\<close> puts the thread into \<open>Q_crash\<close>.
\<close>



datatype q_event = Q_tau | Q_enq addr | Q_deq addr | Q_call tid | Q_empty tid | Q_null tid




section \<open>The abstract queue\<close>

text \<open>The queue of data, and the threads that have seen it empty since they called dequeue.\<close>

inductive fifo_step :: "addr list \<times> tid set \<Rightarrow> q_event \<Rightarrow> addr list \<times> tid set \<Rightarrow> bool" where
  "fifo_step (q, saw) Q_tau (q, saw)"
| "fifo_step (q, saw) (Q_enq d) (q @ [d], saw)"
| "fifo_step (d # q, saw) (Q_deq d) (q, saw)"
| "fifo_step (q, saw) (Q_call t) (q, saw - {t})"
| "fifo_step ([], saw) (Q_empty t) ([], insert t saw)"
| "t \<in> saw \<Longrightarrow> fifo_step (q, saw) (Q_null t) (q, saw)"

inductive_simps fifo_step_simps [simp]:
  "fifo_step a Q_tau b" "fifo_step a (Q_enq d) b" "fifo_step a (Q_deq d) b" "fifo_step a (Q_call t) b"
  "fifo_step a (Q_empty t) b" "fifo_step a (Q_null t) b"

section \<open>Invariant\<close>














section \<open>Simulation\<close>








section \<open>Property\<close>




end
