(* ===== verification/Lockless_Stack.thy ===== *)
theory Lockless_Stack
  imports Linked_List Simulation
begin



datatype s_event = S_tau | S_push addr | S_pop tid addr | S_null | S_return tid addr




section \<open>The abstract stack\<close>

text \<open>The stack, and what each thread has taken off and not yet returned.\<close>

inductive lifo_step :: "addr list \<times> (tid \<Rightarrow> addr option) \<Rightarrow> s_event \<Rightarrow> addr list \<times> (tid \<Rightarrow> addr option) \<Rightarrow> bool" where
  "lifo_step (q, out) S_tau (q, out)"
| "lifo_step (q, out) (S_push d) (d # q, out)"
| "lifo_step (d # q, out) (S_pop t d) (q, out(t \<mapsto> d))"
| "lifo_step ([], out) S_null ([], out)"
| "out t = Some d \<Longrightarrow> lifo_step (q, out) (S_return t d) (q, out(t := None))"

inductive_simps lifo_step_simps [simp]:
  "lifo_step a S_tau b" "lifo_step a (S_push d) b" "lifo_step a (S_pop t d) b" "lifo_step a S_null b" "lifo_step a (S_return t d) b"

section \<open>Invariant\<close>



















section \<open>Property\<close>




end
