(* ===== verification/Lockless.thy ===== *)
theory Lockless
  imports Simulation
begin

text \<open>
  Model of the ring buffer, the hash table and the hazard pointers of \<open>mini_rtos/src/lockless.c\<close>.

  The ring is a machine with one step per atomic access, as the queue and the stack are, here as an
  executable function of the thread that moves. The hash table is modelled for one
  thread at a time: without interference every compare-and-exchange finds the value that was read,
  and a spurious failure of a weak one only repeats the search. The hazard records are thread-local
  variables, so each thread has its own array.
\<close>

section \<open>The ring buffer\<close>

datatype r_pc = R_idle | R_crash
  | RE_tail addr | RE_head addr u32 u32 | RE_slot addr u32 u32 | RE_advance addr u32 u32 | RE_count addr
  | RD_head | RD_tail u32 | RD_load u32 | RD_clear u32 addr | RD_advance u32 addr | RD_count addr

record lf_ring_t =
  lr_buffer :: "addr list"
  lr_head :: u32
  lr_tail :: u32
  lr_capacity :: u32
  lr_size :: u32
  lr_pc :: "tid \<Rightarrow> r_pc"

text \<open>The result of a step: nothing yet, or what the call returned.\<close>

datatype r_event = R_tau | R_true addr | R_false addr | R_data addr

definition lf_ring_create :: "addr \<Rightarrow> addr \<Rightarrow> u32 \<Rightarrow> lf_ring_t option" where
  "lf_ring_create ring buffer capacity =
     (if ring = NULL then None
      else if buffer = NULL then None
      else Some \<lparr>lr_buffer = replicate (unat capacity) NULL, lr_head = 0, lr_tail = 0, lr_capacity = capacity, lr_size = 0,
                 lr_pc = (\<lambda>_. R_idle)\<rparr>)"

definition call_enqueue :: "tid \<Rightarrow> addr \<Rightarrow> lf_ring_t \<Rightarrow> lf_ring_t" where
  "call_enqueue t data s = s\<lparr>lr_pc := (lr_pc s)(t := RE_tail data)\<rparr>"

definition call_dequeue :: "tid \<Rightarrow> lf_ring_t \<Rightarrow> lf_ring_t" where
  "call_dequeue t s = s\<lparr>lr_pc := (lr_pc s)(t := RD_head)\<rparr>"

text \<open>
  The next access of thread \<open>t\<close>; \<open>w\<close> says whether a weak compare-and-exchange that could succeed does. In
  a \<open>do ... while\<close> loop \<open>continue\<close> jumps to the loop condition: after a failed exchange of
  the slot the code goes on with the exchange of the index.
\<close>

definition lf_ring_step :: "bool \<Rightarrow> tid \<Rightarrow> lf_ring_t \<Rightarrow> r_event \<times> lf_ring_t" where
  "lf_ring_step w t s =
     (let goto = (\<lambda>p s. (R_tau, s\<lparr>lr_pc := (lr_pc s)(t := p)\<rparr>));
          return = (\<lambda>e s. (e, s\<lparr>lr_pc := (lr_pc s)(t := R_idle)\<rparr>)) in
      case lr_pc s t of
        R_idle \<Rightarrow> (R_tau, s)
      | R_crash \<Rightarrow> (R_tau, s)
      | RE_tail data \<Rightarrow>
          if lr_capacity s = 0 then goto R_crash s
          else goto (RE_head data (lr_tail s) ((lr_tail s + 1) mod lr_capacity s)) s
      | RE_head data tail nxt \<Rightarrow> if nxt = lr_head s then return (R_false data) s else goto (RE_slot data tail nxt) s
      | RE_slot data tail nxt \<Rightarrow>
          if length (lr_buffer s) \<le> unat tail then goto R_crash s
          else if w \<and> lr_buffer s ! unat tail = NULL
          then goto (RE_advance data tail nxt) (s\<lparr>lr_buffer := (lr_buffer s)[unat tail := data]\<rparr>)
          else goto (RE_advance data tail nxt) s
      | RE_advance data tail nxt \<Rightarrow>
          if w \<and> lr_tail s = tail then goto (RE_count data) (s\<lparr>lr_tail := nxt\<rparr>) else goto (RE_tail data) s
      | RE_count data \<Rightarrow> return (R_true data) (s\<lparr>lr_size := lr_size s + 1\<rparr>)
      | RD_head \<Rightarrow> goto (RD_tail (lr_head s)) s
      | RD_tail head \<Rightarrow> if head = lr_tail s then return (R_data NULL) s else goto (RD_load head) s
      | RD_load head \<Rightarrow>
          if length (lr_buffer s) \<le> unat head then goto R_crash s
          else
            let data = lr_buffer s ! unat head in
            if data = NULL then goto (RD_advance head data) s else goto (RD_clear head data) s
      | RD_clear head data \<Rightarrow>
          if w \<and> lr_buffer s ! unat head = data
          then goto (RD_advance head data) (s\<lparr>lr_buffer := (lr_buffer s)[unat head := NULL]\<rparr>)
          else goto (RD_advance head data) s
      | RD_advance head data \<Rightarrow>
          if lr_capacity s = 0 then goto R_crash s
          else if w \<and> lr_head s = head then goto (RD_count data) (s\<lparr>lr_head := (head + 1) mod lr_capacity s\<rparr>)
          else goto RD_head s
      | RD_count data \<Rightarrow> return (R_data data) (s\<lparr>lr_size := lr_size s - 1\<rparr>))"

text \<open>A schedule: which thread moves; the results of the calls in order.\<close>

fun run_ring :: "(tid \<times> bool) list \<Rightarrow> lf_ring_t \<Rightarrow> r_event list \<times> lf_ring_t" where
  "run_ring [] s = ([], s)"
| "run_ring ((t, w) # ts) s =
     (let (e, s) = lf_ring_step w t s; (es, s) = run_ring ts s in (if e = R_tau then es else e # es, s))"

section \<open>The hash table\<close>

record lf_ht_entry_t =
  le_key :: u64
  le_value :: addr
  le_next :: addr
  le_marked :: bool

record lf_hash_table_t =
  lh_buckets :: "addr list"
  lh_num_buckets :: u32
  lh_size :: u32
  lh_resize_threshold :: u32
  lh_mem :: "addr \<Rightarrow> lf_ht_entry_t"
  lh_retired :: "addr list"

definition hash_function :: "u64 \<Rightarrow> u64" where
  "hash_function key =
     (let key = (NOT key) + push_bit 21 key;
          key = key XOR drop_bit 24 key;
          key = (key + push_bit 3 key) + push_bit 8 key;
          key = key XOR drop_bit 14 key;
          key = (key + push_bit 2 key) + push_bit 4 key;
          key = key XOR drop_bit 28 key;
          key = key + push_bit 31 key
      in key)"

definition lf_hash_create :: "addr \<Rightarrow> addr \<Rightarrow> (addr \<Rightarrow> lf_ht_entry_t) \<Rightarrow> u32 \<Rightarrow> lf_hash_table_t option" where
  "lf_hash_create table buckets mem initial_buckets =
     (if table = NULL then None
      else if buckets = NULL then None
      else Some \<lparr>lh_buckets = replicate (unat initial_buckets) NULL, lh_num_buckets = initial_buckets, lh_size = 0,
                 lh_resize_threshold = initial_buckets * 3 div 4, lh_mem = mem, lh_retired = []\<rparr>)"

text \<open>\<open>hash % num_buckets\<close>, truncated to 32 bits; a division by zero is \<open>None\<close>.\<close>

definition bucket_of :: "lf_hash_table_t \<Rightarrow> u64 \<Rightarrow> nat option" where
  "bucket_of h key =
     (if lh_num_buckets h = 0 then None
      else Some (unat (ucast (hash_function key mod ucast (lh_num_buckets h)) :: u32)))"

text \<open>The searches: the first entry with the key that is not marked (insert, get), the first with the key and
  its predecessor (remove).\<close>

partial_function (option) find_live :: "(addr \<Rightarrow> lf_ht_entry_t) \<Rightarrow> u64 \<Rightarrow> addr \<Rightarrow> addr option" where
  "find_live m key current =
     (if current = NULL then Some NULL
      else if le_key (m current) = key \<and> \<not> le_marked (m current) then Some current
      else find_live m key (le_next (m current)))"

partial_function (option) find_key :: "(addr \<Rightarrow> lf_ht_entry_t) \<Rightarrow> u64 \<Rightarrow> addr \<Rightarrow> addr \<Rightarrow> (addr \<times> addr) option" where
  "find_key m key prev current =
     (if current = NULL then Some (prev, NULL)
      else if le_key (m current) = key then Some (prev, current)
      else find_key m key current (le_next (m current)))"

definition lf_hash_insert :: "addr \<Rightarrow> u64 \<Rightarrow> addr \<Rightarrow> lf_hash_table_t \<Rightarrow> (bool \<times> lf_hash_table_t) option" where
  "lf_hash_insert new_entry key v h =
     Option.bind (bucket_of h key) (\<lambda>bucket.
       if new_entry = NULL then Some (False, h)
       else
         let m = (lh_mem h)(new_entry := (lh_mem h new_entry)\<lparr>le_key := key, le_value := v, le_marked := False\<rparr>);
             head = lh_buckets h ! bucket in
         Option.bind (find_live m key head) (\<lambda>current.
           if current \<noteq> NULL then Some (True, h\<lparr>lh_mem := m(current := (m current)\<lparr>le_value := v\<rparr>)\<rparr>)
           else
             let m = m(new_entry := (m new_entry)\<lparr>le_next := head\<rparr>)
             in Some (True, h\<lparr>lh_mem := m, lh_buckets := (lh_buckets h)[bucket := new_entry], lh_size := lh_size h + 1\<rparr>)))"

definition lf_hash_get :: "u64 \<Rightarrow> lf_hash_table_t \<Rightarrow> addr option" where
  "lf_hash_get key h =
     Option.bind (bucket_of h key) (\<lambda>bucket.
       Option.bind (find_live (lh_mem h) key (lh_buckets h ! bucket)) (\<lambda>current.
         Some (if current \<noteq> NULL then le_value (lh_mem h current) else NULL)))"

definition lf_hash_remove :: "u64 \<Rightarrow> lf_hash_table_t \<Rightarrow> (bool \<times> lf_hash_table_t) option" where
  "lf_hash_remove key h =
     Option.bind (bucket_of h key) (\<lambda>bucket.
       Option.bind (find_key (lh_mem h) key NULL (lh_buckets h ! bucket)) (\<lambda>(prev, current).
         if current = NULL then Some (False, h)
         else if le_marked (lh_mem h current) then Some (False, h)
         else
           let m = (lh_mem h)(current := (lh_mem h current)\<lparr>le_marked := True\<rparr>);
               n = le_next (m current);
               h = (if prev = NULL then h\<lparr>lh_mem := m, lh_buckets := (lh_buckets h)[bucket := n]\<rparr>
                    else h\<lparr>lh_mem := m(prev := (m prev)\<lparr>le_next := n\<rparr>)\<rparr>)
           in Some (True, h\<lparr>lh_size := lh_size h - 1, lh_retired := current # lh_retired h\<rparr>)))"

section \<open>Hazard pointers\<close>

abbreviation (input) MAX_HAZARD_POINTERS :: nat where "MAX_HAZARD_POINTERS \<equiv> 100"
abbreviation (input) RETIRED_LIST_LIMIT :: u32 where "RETIRED_LIST_LIMIT \<equiv> 1000"

record hazard_record_t =
  hz_hazard_ptr :: addr
  hz_active :: bool

text \<open>The records of every thread, the shared list of retired pointers (each in a node of its own, newest
  first) and the blocks that have been freed.\<close>

record hazards =
  hz_records :: "tid \<Rightarrow> hazard_record_t list"
  hz_retired :: "(addr \<times> addr) list"
  hz_retired_count :: u32
  hz_freed :: "addr list"

definition lf_hp_register_thread :: "tid \<Rightarrow> hazards \<Rightarrow> hazards" where
  "lf_hp_register_thread t z =
     z\<lparr>hz_records := (hz_records z)(t := replicate MAX_HAZARD_POINTERS \<lparr>hz_hazard_ptr = NULL, hz_active = False\<rparr>)\<rparr>"

text \<open>\<open>target\<close> is the value of the protected variable, which does not change between the two reads.\<close>

definition lf_hp_protect :: "tid \<Rightarrow> nat \<Rightarrow> addr \<Rightarrow> hazards \<Rightarrow> addr \<times> hazards" where
  "lf_hp_protect t i target z =
     (target, z\<lparr>hz_records := (hz_records z)(t := (hz_records z t)[i := \<lparr>hz_hazard_ptr = target, hz_active = True\<rparr>])\<rparr>)"

definition lf_hp_clear :: "tid \<Rightarrow> nat \<Rightarrow> hazards \<Rightarrow> hazards" where
  "lf_hp_clear t i z =
     z\<lparr>hz_records := (hz_records z)(t := (hz_records z t)[i := \<lparr>hz_hazard_ptr = NULL, hz_active = False\<rparr>])\<rparr>"

text \<open>The search of \<open>lf_gc_run\<close> through the hazard records of the running thread.\<close>

definition can_free :: "hazard_record_t list \<Rightarrow> addr \<Rightarrow> bool" where
  "can_free rs p \<longleftrightarrow> \<not> (\<exists>r \<in> set rs. hz_active r \<and> hz_hazard_ptr r = p)"

fun gc_loop :: "hazard_record_t list \<Rightarrow> (addr \<times> addr) list \<Rightarrow> hazards \<Rightarrow> hazards" where
  "gc_loop rs [] z = z"
| "gc_loop rs ((node, p) # ns) z =
     (if can_free rs p then gc_loop rs ns (z\<lparr>hz_freed := node # p # hz_freed z\<rparr>)
      else gc_loop rs ns (z\<lparr>hz_retired := (node, p) # hz_retired z, hz_retired_count := hz_retired_count z + 1\<rparr>))"

definition lf_gc_run :: "tid \<Rightarrow> hazards \<Rightarrow> hazards" where
  "lf_gc_run t z = gc_loop (hz_records z t) (hz_retired z) (z\<lparr>hz_retired := [], hz_retired_count := 0\<rparr>)"

definition lf_hp_retire :: "tid \<Rightarrow> addr \<Rightarrow> addr \<Rightarrow> hazards \<Rightarrow> hazards" where
  "lf_hp_retire t node ptr z =
     (if node = NULL then z
      else
        let z = z\<lparr>hz_retired := (node, ptr) # hz_retired z\<rparr>;
            old = hz_retired_count z;
            z = z\<lparr>hz_retired_count := old + 1\<rparr>
        in if old \<ge> RETIRED_LIST_LIMIT then lf_gc_run t z else z)"

declare find_live.simps [code] find_key.simps [code]

end
