(* ===== verification/Lockless_Spec.thy ===== *)
theory Lockless_Spec
  imports Lockless
begin

text \<open>
  What the ring buffer and the hazard pointers do under concurrency: both fall short of what they are
  for.
\<close>

section \<open>Properties\<close>




lemma gc_loop_eq:
  "hz_freed (gc_loop rs ns z) = rev (concat (map (\<lambda>(n, p). [p, n]) (filter (\<lambda>(n, p). can_free rs p) ns))) @ hz_freed z \<and>
   hz_retired (gc_loop rs ns z) = rev (filter (\<lambda>(n, p). \<not> can_free rs p) ns) @ hz_retired z \<and>
   hz_retired_count (gc_loop rs ns z) = hz_retired_count z + of_nat (length (filter (\<lambda>(n, p). \<not> can_free rs p) ns)) \<and>
   hz_records (gc_loop rs ns z) = hz_records z"
  by (induction rs ns z rule: gc_loop.induct) (auto simp: add_ac)

text \<open>\<open>lf_gc_run\<close> frees exactly the retired pointers that the hazard records of the running thread do not name and
  keeps the others; the records of the other threads are not consulted, so a node that
  another thread has protected is freed under its hands.\<close>

theorem lf_gc_run_ignores_other_threads:
  assumes "(node, p) \<in> set (hz_retired z)" "i < length (hz_records z t')"
    and "hz_records z t' ! i = \<lparr>hz_hazard_ptr = p, hz_active = True\<rparr>" "can_free (hz_records z t) p"
  shows "p \<in> set (hz_freed (lf_gc_run t z)) \<and> hz_records (lf_gc_run t z) t' ! i = \<lparr>hz_hazard_ptr = p, hz_active = True\<rparr> \<and>
    hz_retired (lf_gc_run t z) = rev (filter (\<lambda>(n, p). \<not> can_free (hz_records z t) p) (hz_retired z))"
proof -
  have "p \<in> set (rev (concat (map (\<lambda>(n, p). [p, n]) (filter (\<lambda>(n, p). can_free (hz_records z t) p) (hz_retired z)))))"
    using assms(1,4) by (auto intro!: bexI[of _ "(node, p)"])
  then show ?thesis using assms(3) gc_loop_eq[of "hz_records z t" "hz_retired z" "z\<lparr>hz_retired := [], hz_retired_count := 0\<rparr>"]
    unfolding lf_gc_run_def by simp
qed

definition ex_hazards :: hazards where
  "ex_hazards = snd (lf_hp_protect 1 0 5 (lf_hp_retire 0 9 5 (lf_hp_register_thread 1 (lf_hp_register_thread 0
     \<lparr>hz_records = (\<lambda>_. []), hz_retired = [], hz_retired_count = 0, hz_freed = []\<rparr>))))"

theorem lf_gc_run_ignores_other_threads_witness:
  "hz_records ex_hazards 1 ! 0 = \<lparr>hz_hazard_ptr = 5, hz_active = True\<rparr> \<and> 5 \<in> set (hz_freed (lf_gc_run 0 ex_hazards))"
proof -
  have e: "hz_retired ex_hazards = [(9, 5)]" "length (hz_records ex_hazards 1) = 100"
    "hz_records ex_hazards 1 ! 0 = \<lparr>hz_hazard_ptr = 5, hz_active = True\<rparr>"
    "hz_records ex_hazards 0 = replicate 100 \<lparr>hz_hazard_ptr = NULL, hz_active = False\<rparr>"
    by (simp_all add: ex_hazards_def lf_hp_protect_def lf_hp_retire_def lf_hp_register_thread_def Let_def)
  have "can_free (hz_records ex_hazards 0) 5" unfolding e(4) by (simp add: can_free_def)
  moreover have "0 < length (hz_records ex_hazards 1)" "(9, 5) \<in> set (hz_retired ex_hazards)" unfolding e(1,2) by simp_all
  ultimately show ?thesis using lf_gc_run_ignores_other_threads[of 9 5 ex_hazards 0 1 0] e(3) by blast
qed

end
