(* ===== verification/Protocol.thy ===== *)
theory Protocol
  imports Prelude
begin

text \<open>
  Model of \<open>mini_rtos/src/protocol.c\<close>: frames with a checksum, and protocol handlers that send and receive
  them.

  The callbacks of a handler are called through \<open>proto_env\<close> and act on the state of the device; a call
  through a null pointer is \<open>None\<close>. The table of handlers is used with fewer arguments than
  \<open>hashtable.h\<close> declares, so it is the parameter \<open>preg_ops\<close>. Frames are passed by value and
  returned, \<open>None\<close> stands for a null frame pointer; \<open>pf_data\<close> is the buffer that was allocated.
\<close>

section \<open>Data\<close>

datatype protocol_type_t = PROTO_NONE | PROTO_UART | PROTO_SPI | PROTO_I2C | PROTO_CAN | PROTO_ETHERNET | PROTO_CUSTOM

datatype protocol_state_t = PROTO_STATE_IDLE | PROTO_STATE_BUSY | PROTO_STATE_ERROR | PROTO_STATE_TIMEOUT

record proto_frame_t =
  pf_data :: "u8 list option"
  pf_length :: u32
  pf_max_size :: u32
  pf_position :: u32
  pf_checksum :: u32

record proto_handler_t =
  ph_type :: protocol_type_t
  ph_state :: protocol_state_t
  ph_timeout_ms :: u32
  ph_retry_count :: u32
  ph_max_retries :: u32
  ph_init :: addr
  ph_send :: addr
  ph_receive :: addr
  ph_error_handler :: addr
  ph_config :: addr

record ('r, 'd) proto_sys =
  ps_handlers :: 'r
  ps_active_protocols :: u32
  ps_initialized :: bool
  ps_mem :: "addr \<Rightarrow> proto_handler_t"
  ps_dev :: 'd

record 'r preg_ops =
  pr_create :: 'r
  pr_none :: 'r
  pr_insert :: "'r \<Rightarrow> protocol_type_t \<Rightarrow> addr \<Rightarrow> 'r \<times> int"
  pr_remove :: "'r \<Rightarrow> protocol_type_t \<Rightarrow> 'r \<times> int"
  pr_get :: "'r \<Rightarrow> protocol_type_t \<Rightarrow> addr"

record 'd proto_env =
  pe_init :: "addr \<Rightarrow> addr \<Rightarrow> 'd \<Rightarrow> 'd"
  pe_send :: "addr \<Rightarrow> proto_frame_t \<Rightarrow> 'd \<Rightarrow> bool \<times> proto_frame_t \<times> 'd"
  pe_receive :: "addr \<Rightarrow> proto_frame_t \<Rightarrow> 'd \<Rightarrow> bool \<times> proto_frame_t \<times> 'd"
  pe_error :: "addr \<Rightarrow> u32 \<Rightarrow> 'd \<Rightarrow> 'd"

abbreviation (input) PROTO_ERR_TIMEOUT :: u32 where "PROTO_ERR_TIMEOUT \<equiv> 1"
abbreviation (input) PROTO_ERR_CHECKSUM :: u32 where "PROTO_ERR_CHECKSUM \<equiv> 2"

abbreviation set_handler :: "addr \<Rightarrow> protocol_state_t \<Rightarrow> ('r, 'd) proto_sys \<Rightarrow> ('r, 'd) proto_sys" where
  "set_handler p st s \<equiv> s\<lparr>ps_mem := (ps_mem s)(p := (ps_mem s p)\<lparr>ph_state := st\<rparr>)\<rparr>"

section \<open>Frames\<close>

text \<open>The table has 256 elements, of which the initialiser gives eight; the others are zero.\<close>

definition crc32_table :: "u32 list" where
  "crc32_table = [0x00000000, 0x77073096, 0xEE0E612C, 0x990951BA, 0x076DC419, 0x706AF48F, 0xE963A535, 0x9E6495A3] @ replicate 248 0"

text \<open>\<open>frame\<close> and \<open>data\<close> are the two results of \<open>malloc\<close>; \<open>bytes\<close> is what the new buffer happens to hold.\<close>

definition proto_frame_create :: "addr \<Rightarrow> addr \<Rightarrow> u8 list \<Rightarrow> u32 \<Rightarrow> proto_frame_t option" where
  "proto_frame_create frame data bytes max_size =
     (if frame = NULL then None
      else if data = NULL then None
      else Some \<lparr>pf_data = Some (take (unat max_size) bytes), pf_length = 0, pf_max_size = max_size, pf_position = 0, pf_checksum = 0\<rparr>)"

definition proto_frame_reset :: "proto_frame_t option \<Rightarrow> bool \<times> proto_frame_t option" where
  "proto_frame_reset frame =
     (case frame of None \<Rightarrow> (False, None)
      | Some f \<Rightarrow> (True, Some (f\<lparr>pf_length := 0, pf_position := 0, pf_checksum := 0\<rparr>)))"

text \<open>The sum in the bound check is 32 bits wide and wraps. Copying beyond the buffer or reading beyond the caller's
  data is \<open>None\<close>.\<close>

definition proto_frame_append :: "proto_frame_t option \<Rightarrow> u8 list option \<Rightarrow> u32 \<Rightarrow> (bool \<times> proto_frame_t option) option" where
  "proto_frame_append frame data length' =
     (case (frame, data) of
        (Some f, Some bs) \<Rightarrow>
          if pf_length f + length' > pf_max_size f then Some (False, frame)
          else
            (case pf_data f of None \<Rightarrow> None
             | Some buf \<Rightarrow>
                 if length bs < unat length' \<or> length buf < unat (pf_length f) + unat length' then None
                 else Some (True, Some (f\<lparr>pf_data := Some (take (unat (pf_length f)) buf @ take (unat length') bs @
                                                            drop (unat (pf_length f) + unat length') buf),
                                          pf_length := pf_length f + length'\<rparr>)))
      | _ \<Rightarrow> Some (False, frame))"

definition crc_step :: "u32 \<Rightarrow> u8 \<Rightarrow> u32" where
  "crc_step crc b = drop_bit 8 crc XOR crc32_table ! unat ((crc AND 0xFF) XOR ucast b)"

text \<open>The loop over the first \<open>length\<close> bytes; a length beyond the buffer is \<open>None\<close>.\<close>

definition proto_frame_calculate_checksum :: "proto_frame_t option \<Rightarrow> u32 option" where
  "proto_frame_calculate_checksum frame =
     (case frame of None \<Rightarrow> Some 0
      | Some f \<Rightarrow>
         (case pf_data f of None \<Rightarrow> Some 0
          | Some buf \<Rightarrow>
              if length buf < unat (pf_length f) then None
              else Some (NOT (fold (\<lambda>b crc. crc_step crc b) (take (unat (pf_length f)) buf) 0xFFFFFFFF))))"

definition proto_frame_validate :: "proto_frame_t option \<Rightarrow> bool option" where
  "proto_frame_validate frame =
     (case frame of None \<Rightarrow> Some False
      | Some f \<Rightarrow>
         if pf_data f = None then Some False
         else Option.bind (proto_frame_calculate_checksum frame) (\<lambda>c. Some (c = pf_checksum f)))"

section \<open>The manager\<close>

definition proto_init :: "'r preg_ops \<Rightarrow> ('r, 'd) proto_sys \<Rightarrow> ('r, 'd) proto_sys" where
  "proto_init ro s =
     (if ps_initialized s then s
      else s\<lparr>ps_handlers := pr_create ro, ps_active_protocols := 0, ps_initialized := True\<rparr>)"

definition proto_shutdown :: "'r preg_ops \<Rightarrow> ('r, 'd) proto_sys \<Rightarrow> ('r, 'd) proto_sys" where
  "proto_shutdown ro s =
     (if \<not> ps_initialized s then s
      else s\<lparr>ps_handlers := pr_none ro, ps_active_protocols := 0, ps_initialized := False\<rparr>)"

definition proto_register :: "'r preg_ops \<Rightarrow> 'd proto_env \<Rightarrow> protocol_type_t \<Rightarrow> addr \<Rightarrow> ('r, 'd) proto_sys \<Rightarrow> bool \<times> ('r, 'd) proto_sys" where
  "proto_register ro e ty handler s =
     (if \<not> ps_initialized s \<or> handler = NULL then (False, s)
      else
        let (r, code) = pr_insert ro (ps_handlers s) ty handler;
            s = s\<lparr>ps_handlers := r\<rparr> in
        if code \<noteq> 0 then
          let s = s\<lparr>ps_active_protocols := ps_active_protocols s + 1\<rparr>; h = ps_mem s handler
          in (True, if ph_init h \<noteq> NULL then s\<lparr>ps_dev := pe_init e (ph_init h) (ph_config h) (ps_dev s)\<rparr> else s)
        else (False, s))"

definition proto_unregister :: "'r preg_ops \<Rightarrow> protocol_type_t \<Rightarrow> ('r, 'd) proto_sys \<Rightarrow> bool \<times> ('r, 'd) proto_sys" where
  "proto_unregister ro ty s =
     (if \<not> ps_initialized s then (False, s)
      else
        let (r, code) = pr_remove ro (ps_handlers s) ty;
            s = s\<lparr>ps_handlers := r\<rparr> in
        if code \<noteq> 0 then (True, s\<lparr>ps_active_protocols := ps_active_protocols s - 1\<rparr>) else (False, s))"

definition proto_get_handler :: "'r preg_ops \<Rightarrow> protocol_type_t \<Rightarrow> ('r, 'd) proto_sys \<Rightarrow> addr" where
  "proto_get_handler ro ty s = (if \<not> ps_initialized s then NULL else pr_get ro (ps_handlers s) ty)"

section \<open>Sending and receiving\<close>

text \<open>The retry loop. \<open>retries\<close> is 32 bits wide: with \<open>max_retries\<close> at its maximum the loop has no end.\<close>

partial_function (option) send_loop :: "'d proto_env \<Rightarrow> addr \<Rightarrow> u32 \<Rightarrow> u32 \<Rightarrow> proto_frame_t \<Rightarrow> 'd \<Rightarrow> (bool \<times> proto_frame_t \<times> 'd) option" where
  "send_loop e fp max_retries retries f d =
     (if retries \<le> max_retries then
        let (ok, f, d) = pe_send e fp f d in
        if ok then Some (True, f, d) else send_loop e fp max_retries (retries + 1) f d
      else Some (False, f, d))"

definition proto_send :: "'r preg_ops \<Rightarrow> 'd proto_env \<Rightarrow> protocol_type_t \<Rightarrow> proto_frame_t option \<Rightarrow> ('r, 'd) proto_sys \<Rightarrow>
    (bool \<times> proto_frame_t option \<times> ('r, 'd) proto_sys) option" where
  "proto_send ro e ty frame s =
     (let handler = proto_get_handler ro ty s in
      if handler = NULL \<or> frame = None \<or> ph_state (ps_mem s handler) = PROTO_STATE_ERROR then Some (False, frame, s)
      else
        let s = set_handler handler PROTO_STATE_BUSY s; h = ps_mem s handler in
        Option.bind (proto_frame_calculate_checksum frame) (\<lambda>c.
          if ph_send h = NULL then None
          else
            Option.bind (send_loop e (ph_send h) (ph_max_retries h) 0 ((the frame)\<lparr>pf_checksum := c\<rparr>) (ps_dev s)) (\<lambda>(ok, f, d).
              let s = set_handler handler (if ok then PROTO_STATE_IDLE else PROTO_STATE_ERROR) (s\<lparr>ps_dev := d\<rparr>) in
              if ok then Some (True, Some f, s)
              else if ph_error_handler h = NULL then None
              else Some (False, Some f, s\<lparr>ps_dev := pe_error e (ph_error_handler h) PROTO_ERR_TIMEOUT d\<rparr>))))"

definition proto_receive :: "'r preg_ops \<Rightarrow> 'd proto_env \<Rightarrow> protocol_type_t \<Rightarrow> proto_frame_t option \<Rightarrow> ('r, 'd) proto_sys \<Rightarrow>
    (bool \<times> proto_frame_t option \<times> ('r, 'd) proto_sys) option" where
  "proto_receive ro e ty frame s =
     (let handler = proto_get_handler ro ty s in
      if handler = NULL \<or> frame = None \<or> ph_state (ps_mem s handler) = PROTO_STATE_ERROR then Some (False, frame, s)
      else
        let s = set_handler handler PROTO_STATE_BUSY s; h = ps_mem s handler in
        if ph_receive h = NULL then None
        else
          let (got, f, d) = pe_receive e (ph_receive h) (the frame) (ps_dev s);
              s = s\<lparr>ps_dev := d\<rparr> in
          if \<not> got then Some (False, Some f, set_handler handler PROTO_STATE_ERROR s)
          else Option.bind (proto_frame_validate (Some f)) (\<lambda>ok.
            if ok then Some (True, Some f, set_handler handler PROTO_STATE_IDLE s)
            else if ph_error_handler h = NULL then None
            else Some (False, Some f, set_handler handler PROTO_STATE_ERROR
                   (s\<lparr>ps_dev := pe_error e (ph_error_handler h) PROTO_ERR_CHECKSUM d\<rparr>))))"

definition proto_process_errors :: "'r preg_ops \<Rightarrow> 'd proto_env \<Rightarrow> protocol_type_t \<Rightarrow> u32 \<Rightarrow> ('r, 'd) proto_sys \<Rightarrow> ('r, 'd) proto_sys" where
  "proto_process_errors ro e ty error_code s =
     (let handler = proto_get_handler ro ty s in
      if handler = NULL then s
      else
        let s = set_handler handler PROTO_STATE_ERROR s; h = ps_mem s handler in
        if ph_error_handler h \<noteq> NULL then s\<lparr>ps_dev := pe_error e (ph_error_handler h) error_code (ps_dev s)\<rparr> else s)"

declare send_loop.simps [code]

end
