(* ===== verification/Protocol_Spec.thy ===== *)
theory Protocol_Spec
  imports Protocol
begin

text \<open>
  Properties of the frames and of their checksum.
\<close>

section \<open>Frames\<close>

text \<open>Appending without wrap-around: the frame holds what was appended, or refuses.\<close>

definition frame_bytes :: "proto_frame_t \<Rightarrow> u8 list" where
  "frame_bytes f = take (unat (pf_length f)) (case pf_data f of None \<Rightarrow> [] | Some buf \<Rightarrow> buf)"

definition frame_wf :: "proto_frame_t \<Rightarrow> bool" where
  "frame_wf f \<longleftrightarrow> (\<exists>buf. pf_data f = Some buf \<and> length buf = unat (pf_max_size f)) \<and> pf_length f \<le> pf_max_size f"

lemma proto_frame_append_ok:
  assumes wf: "frame_wf f" and len: "unat n \<le> length bs" and nw: "unat (pf_length f) + unat n < 2 ^ 32"
  shows "if unat (pf_length f) + unat n \<le> unat (pf_max_size f)
    then \<exists>f'. proto_frame_append (Some f) (Some bs) n = Some (True, Some f') \<and> frame_wf f' \<and>
      frame_bytes f' = frame_bytes f @ take (unat n) bs \<and> pf_max_size f' = pf_max_size f
    else proto_frame_append (Some f) (Some bs) n = Some (False, Some f)"
proof -
  obtain buf where buf: "pf_data f = Some buf" "length buf = unat (pf_max_size f)" using wf by (auto simp: frame_wf_def)
  have u: "unat (pf_length f + n) = unat (pf_length f) + unat n" using nw by (simp add: unat_plus_if')
  have g: "pf_length f + n > pf_max_size f \<longleftrightarrow> \<not> unat (pf_length f) + unat n \<le> unat (pf_max_size f)"
    unfolding word_less_nat_alt u by auto
  have le: "unat (pf_length f) \<le> length buf" using wf buf by (simp add: frame_wf_def word_le_nat_alt)
  show ?thesis
    using buf len g u le by (auto simp: proto_frame_append_def frame_wf_def frame_bytes_def word_le_nat_alt not_less)
qed

text \<open>A frame whose checksum was computed validates, as long as its bytes are not touched.\<close>

lemma checksum_validates:
  assumes "frame_wf f" "proto_frame_calculate_checksum (Some f) = Some c"
  shows "proto_frame_validate (Some (f\<lparr>pf_checksum := c\<rparr>)) = Some True"
  using assms by (auto simp: proto_frame_validate_def proto_frame_calculate_checksum_def frame_wf_def split: if_splits)

section \<open>The checksum\<close>

lemma crc_index:
  fixes b :: u8
  assumes "8 \<le> b" "b < 0xF8"
  shows "8 \<le> unat ((0xFF :: u32) XOR ucast b)" "unat ((0xFF :: u32) XOR ucast b) < 256" "8 \<le> unat (ucast b :: u32)" "unat (ucast b :: u32) < 256"
proof -
  have up: "unat (ucast w :: u32) = unat w" for w :: u8
  proof -
    have "unat w < 2 ^ 32" using unsigned_less[of w, where 'a = nat] by simp
    then show ?thesis by (simp add: unsigned_ucast_eq take_bit_nat_eq_self)
  qed
  have "(0xFF :: u32) XOR ucast b = ucast (NOT b)"
  proof (rule bit_word_eqI)
    fix n assume "n < LENGTH(32)"
    have "bit (0xFF :: u32) n \<longleftrightarrow> n < 8"
    proof -
      have "(0xFF :: u32) = mask 8" by (simp add: mask_eq_exp_minus_1)
      then show ?thesis using \<open>n < LENGTH(32)\<close> by (simp only: bit_mask_iff) simp
    qed
    moreover have "bit b n \<Longrightarrow> n < 8" using bit_imp_le_length[of b n] by simp
    ultimately show "bit ((0xFF :: u32) XOR ucast b) n = bit (ucast (NOT b) :: u32) n"
      using \<open>n < LENGTH(32)\<close> by (auto simp: bit_xor_iff bit_ucast_iff bit_not_iff)
  qed
  moreover have "unat (NOT b) = 255 - unat b"
  proof -
    have "NOT b = 255 - b" by (simp add: not_eq_complement)
    moreover have "unat b \<le> 255" using unsigned_less[of b, where 'a = nat] by simp
    ultimately show ?thesis by (simp add: unat_sub word_le_nat_alt)
  qed
  ultimately have "unat ((0xFF :: u32) XOR ucast b) = 255 - unat b" by (simp add: up)
  moreover have "8 \<le> unat b" "unat b < 248" using assms by (simp_all add: word_le_nat_alt word_less_nat_alt)
  ultimately show "8 \<le> unat ((0xFF :: u32) XOR ucast b)" "unat ((0xFF :: u32) XOR ucast b) < 256" "8 \<le> unat (ucast b :: u32)" "unat (ucast b :: u32) < 256"
    by (simp_all add: up)
qed

lemma crc32_table_zero: "8 \<le> i \<Longrightarrow> i < 256 \<Longrightarrow> crc32_table ! i = 0"
  by (simp add: crc32_table_def nth_append)

text \<open>Bytes between 8 and 0xF7 only shift the register.\<close>

lemma crc_step_shift:
  fixes b :: u8
  assumes "8 \<le> b" "b < 0xF8"
  shows "crc_step (drop_bit (8 * k) 0xFFFFFFFF) b = drop_bit (8 * Suc k) 0xFFFFFFFF"
proof -
  have "k = 0 \<or> k = 1 \<or> k = 2 \<or> k = 3 \<or> 4 \<le> k" by linarith
  moreover have "drop_bit (8 * k) (0xFFFFFFFF :: u32) = 0" if "4 \<le> k"
  proof (rule bit_word_eqI)
    fix n assume "n < LENGTH(32)"
    have "\<not> bit (0xFFFFFFFF :: u32) (8 * k + n)" using that bit_imp_le_length[of "0xFFFFFFFF :: u32" "8 * k + n"] by auto
    then show "bit (drop_bit (8 * k) (0xFFFFFFFF :: u32)) n = bit (0 :: u32) n" by (simp add: bit_drop_bit_eq)
  qed
  ultimately have low: "drop_bit (8 * k) (0xFFFFFFFF :: u32) AND 0xFF = 0xFF \<or> drop_bit (8 * k) (0xFFFFFFFF :: u32) AND 0xFF = 0"
    by auto
  have "drop_bit 8 (drop_bit (8 * k) (0xFFFFFFFF :: u32)) = drop_bit (8 * Suc k) 0xFFFFFFFF" by (simp add: drop_bit_drop_bit)
  then show ?thesis using low crc_index[OF assms] by (auto simp: crc_step_def crc32_table_zero)
qed

lemma crc_fold_shift:
  "\<forall>b \<in> set bs. 8 \<le> b \<and> b < 0xF8 \<Longrightarrow>
   fold (\<lambda>b crc. crc_step crc b) bs (drop_bit (8 * k) 0xFFFFFFFF) = drop_bit (8 * (k + length bs)) 0xFFFFFFFF"
proof (induction bs arbitrary: k)
  case (Cons b bs)
  have "fold (\<lambda>b crc. crc_step crc b) (b # bs) (drop_bit (8 * k) 0xFFFFFFFF) = fold (\<lambda>b crc. crc_step crc b) bs (drop_bit (8 * Suc k) 0xFFFFFFFF)"
    using Cons.prems crc_step_shift[of b k] by simp
  also have "\<dots> = drop_bit (8 * (Suc k + length bs)) 0xFFFFFFFF" using Cons.prems by (intro Cons.IH) auto
  finally show ?case by simp
qed simp

section \<open>Properties\<close>

definition frame_of :: "u8 list \<Rightarrow> u32 \<Rightarrow> proto_frame_t" where
  "frame_of bs c = \<lparr>pf_data = Some bs, pf_length = of_nat (length bs), pf_max_size = of_nat (length bs), pf_position = 0, pf_checksum = c\<rparr>"

text \<open>C40: the checksum does not see the content: the table has eight entries instead of 256, so for frames of bytes
  between 8 and 0xF7 it depends on the length alone, and a frame all of whose bytes were
  changed on the way still validates.\<close>

theorem proto_checksum_ignores_content:
  assumes "\<forall>b \<in> set bs. 8 \<le> b \<and> b < 0xF8" "\<forall>b \<in> set cs. 8 \<le> b \<and> b < 0xF8" "length cs = length bs" "length bs < 2 ^ 32"
  shows "\<exists>c. proto_frame_calculate_checksum (Some (frame_of bs c0)) = Some c \<and> proto_frame_validate (Some (frame_of cs c)) = Some True"
proof -
  have u: "unat (of_nat (length bs) :: u32) = length bs" using assms(4) by (rule unat_of_nat_u32)
  have "proto_frame_calculate_checksum (Some (frame_of ds c1)) = Some (NOT (drop_bit (8 * length bs) 0xFFFFFFFF))"
    if "\<forall>b \<in> set ds. 8 \<le> b \<and> b < 0xF8" "length ds = length bs" for ds c1
    using crc_fold_shift[OF that(1), of 0] u that(2) by (simp add: proto_frame_calculate_checksum_def frame_of_def)
  from this[OF assms(1) refl] this[OF assms(2,3)] show ?thesis
    by (simp add: proto_frame_validate_def frame_of_def)
qed

theorem proto_checksum_ignores_content_witness:
  "\<exists>c. proto_frame_calculate_checksum (Some (frame_of [65, 66, 67] 0)) = Some c \<and> proto_frame_validate (Some (frame_of [88, 89, 90] c)) = Some True"
  by (rule proto_checksum_ignores_content) simp_all

end
