(* ===== verification/Load_Balancer.thy ===== *)
theory Load_Balancer
  imports Simulation
begin

text \<open>
  Model of \<open>mini_rtos/src/load_balancer.c\<close>: the metrics of up to 32 cores, the choice of a core for a new task under
  six policies, and the migration of tasks away from hot cores and cores under memory pressure.

  The static state of the file is the record \<open>lb_state\<close>; the static counter of the round-robin case is its field
  \<open>lb_next_core\<close>; \<open>lb_memory_rebalances\<close> is the counter \<open>memory_complete\<close> increments, which \<open>lb_stats_t\<close> does not
  declare. The mutex brackets each operation, which makes it one atomic step; \<open>mutex_create\<close> is not
  defined in the repository, its result is an argument. Loops run over the list of the core numbers below \<open>active_cores\<close>.
  Undefined behaviour (a core number beyond the array, a division by zero) is \<open>None\<close>. The shift of the
  affinity test is taken as setting bit \<open>i\<close>, for \<open>i = 31\<close> too.
\<close>

section \<open>Data\<close>

datatype lb_policy_t = LB_POLICY_ROUND_ROBIN | LB_POLICY_LEAST_LOADED | LB_POLICY_PRIORITY_AWARE
  | LB_POLICY_MEMORY_AFFINITY | LB_POLICY_THERMAL_AWARE | LB_POLICY_HYBRID

record core_metrics_t =
  cm_cpu_usage :: u32
  cm_task_count :: u32
  cm_memory_pressure :: u32
  cm_cache_misses :: u32
  cm_temperature :: u32
  cm_power_consumption :: u32

record task_requirements_t =
  tr_priority :: u32
  tr_cpu_requirement :: u32
  tr_memory_requirement :: u32
  tr_deadline :: u32
  tr_realtime :: bool
  tr_affinity_mask :: u32

record lb_stats_t =
  ls_total_migrations :: u64
  ls_balanced_tasks :: u64
  ls_failed_balancing :: u64
  ls_policy_switches :: u64
  ls_thermal_throttling :: u64
  ls_deadline_misses :: u64

record lb_config_t =
  lc_policy :: lb_policy_t
  lc_update_interval :: u32
  lc_migration_threshold :: u32
  lc_max_migrations :: u32
  lc_thermal_throttling :: bool
  lc_dynamic_policy :: bool

record lb_state =
  lb_initialized :: bool
  lb_config :: lb_config_t
  lb_core_metrics :: "core_metrics_t list"
  lb_stats :: lb_stats_t
  lb_active_cores :: u32
  lb_total_load :: u32
  lb_lock :: addr
  lb_next_core :: u32
  lb_memory_rebalances :: u64

abbreviation (input) MAX_CORES :: nat where "MAX_CORES \<equiv> 32"
abbreviation (input) THERMAL_THRESHOLD :: u32 where "THERMAL_THRESHOLD \<equiv> 85"
abbreviation (input) MEMORY_PRESSURE_THRESHOLD :: u32 where "MEMORY_PRESSURE_THRESHOLD \<equiv> 90"
abbreviation (input) LOAD_IMBALANCE_THRESHOLD :: u32 where "LOAD_IMBALANCE_THRESHOLD \<equiv> 20"

abbreviation core_ok :: "u32 \<Rightarrow> bool" where "core_ok i \<equiv> unat i < MAX_CORES"

abbreviation core :: "lb_state \<Rightarrow> u32 \<Rightarrow> core_metrics_t" where
  "core s i \<equiv> lb_core_metrics s ! unat i"

abbreviation upd_core :: "u32 \<Rightarrow> (core_metrics_t \<Rightarrow> core_metrics_t) \<Rightarrow> lb_state \<Rightarrow> lb_state" where
  "upd_core i f s \<equiv> s\<lparr>lb_core_metrics := (lb_core_metrics s)[unat i := f (core s i)]\<rparr>"

abbreviation upd_lb_stats :: "(lb_stats_t \<Rightarrow> lb_stats_t) \<Rightarrow> lb_state \<Rightarrow> lb_state" where
  "upd_lb_stats f s \<equiv> s\<lparr>lb_stats := f (lb_stats s)\<rparr>"

abbreviation add_tasks :: "u32 \<Rightarrow> u32 \<Rightarrow> lb_state \<Rightarrow> lb_state" where
  "add_tasks i n \<equiv> upd_core i (\<lambda>m. m\<lparr>cm_task_count := cm_task_count m + n\<rparr>)"

abbreviation sub_tasks :: "u32 \<Rightarrow> u32 \<Rightarrow> lb_state \<Rightarrow> lb_state" where
  "sub_tasks i n \<equiv> upd_core i (\<lambda>m. m\<lparr>cm_task_count := cm_task_count m - n\<rparr>)"

text \<open>The values of the counter of \<open>for (uint32_t i = 0; i < n; i++)\<close>.\<close>

definition core_ids :: "u32 \<Rightarrow> u32 list" where
  "core_ids n = map of_nat [0..<unat n]"

definition zero_lb_stats :: lb_stats_t where
  "zero_lb_stats = \<lparr>ls_total_migrations = 0, ls_balanced_tasks = 0, ls_failed_balancing = 0, ls_policy_switches = 0,
     ls_thermal_throttling = 0, ls_deadline_misses = 0\<rparr>"

section \<open>Choosing a core\<close>

definition lb_init :: "addr \<Rightarrow> lb_config_t \<Rightarrow> lb_state \<Rightarrow> bool \<times> lb_state" where
  "lb_init mutex config s =
     (if lb_initialized s then (False, s)
      else (True, s\<lparr>lb_initialized := True, lb_config := config, lb_stats := zero_lb_stats, lb_active_cores := 0,
                    lb_total_load := 0, lb_lock := mutex\<rparr>))"

definition calculate_core_load :: "core_metrics_t \<Rightarrow> u32" where
  "calculate_core_load m =
     (cm_cpu_usage m * 4 + cm_memory_pressure m * 2 + cm_temperature m + cm_task_count m * 2) div 9"

fun find_best_loop :: "task_requirements_t \<Rightarrow> lb_state \<Rightarrow> u32 list \<Rightarrow> u32 \<Rightarrow> u32 \<Rightarrow> (u32 \<times> u32) option" where
  "find_best_loop task s [] best_core min_load = Some (best_core, min_load)"
| "find_best_loop task s (i # is) best_core min_load =
     (if \<not> core_ok i then None
      else if \<not> bit (tr_affinity_mask task) (unat i) then find_best_loop task s is best_core min_load
      else
        let metrics = core s i; core_load = calculate_core_load metrics in
        if cm_temperature metrics \<ge> THERMAL_THRESHOLD then find_best_loop task s is best_core min_load
        else if cm_memory_pressure metrics \<ge> MEMORY_PRESSURE_THRESHOLD then find_best_loop task s is best_core min_load
        else
          let core_load = (if tr_priority task > 0 then core_load * (10 - tr_priority task) div 10 else core_load) in
          if core_load < min_load then find_best_loop task s is i core_load
          else find_best_loop task s is best_core min_load)"

definition find_best_core :: "task_requirements_t \<Rightarrow> lb_state \<Rightarrow> u32 option" where
  "find_best_core task s = map_option fst (find_best_loop task s (core_ids (lb_active_cores s)) 0 UINT32_MAX)"

fun min_misses_loop :: "lb_state \<Rightarrow> u32 list \<Rightarrow> u32 \<Rightarrow> u32 \<Rightarrow> (u32 \<times> u32) option" where
  "min_misses_loop s [] best_core min_misses = Some (best_core, min_misses)"
| "min_misses_loop s (i # is) best_core min_misses =
     (if \<not> core_ok i then None
      else
        let misses = cm_cache_misses (core s i) in
        if misses < min_misses then min_misses_loop s is i misses else min_misses_loop s is best_core min_misses)"

fun min_temp_loop :: "lb_state \<Rightarrow> u32 list \<Rightarrow> u32 \<Rightarrow> u32 \<Rightarrow> (u32 \<times> u32) option" where
  "min_temp_loop s [] best_core min_temp = Some (best_core, min_temp)"
| "min_temp_loop s (i # is) best_core min_temp =
     (if \<not> core_ok i then None
      else
        let temp = cm_temperature (core s i) in
        if temp < min_temp \<and> temp < THERMAL_THRESHOLD then min_temp_loop s is i temp
        else min_temp_loop s is best_core min_temp)"

text \<open>The \<open>switch\<close> of \<open>lb_balance_task\<close>: the core and the state with the round-robin counter advanced.\<close>

definition select_core :: "task_requirements_t \<Rightarrow> lb_state \<Rightarrow> (u32 \<times> lb_state) option" where
  "select_core task s =
     (case lc_policy (lb_config s) of
        LB_POLICY_ROUND_ROBIN \<Rightarrow>
          if lb_active_cores s = 0 then None
          else Some (lb_next_core s mod lb_active_cores s, s\<lparr>lb_next_core := lb_next_core s + 1\<rparr>)
      | LB_POLICY_LEAST_LOADED \<Rightarrow> map_option (\<lambda>c. (c, s)) (find_best_core task s)
      | LB_POLICY_PRIORITY_AWARE \<Rightarrow>
          if tr_priority task \<ge> 8 then map_option (\<lambda>c. (c, s)) (find_best_core task s)
          else map_option (\<lambda>c. (c, s)) (find_best_core task s)
      | LB_POLICY_MEMORY_AFFINITY \<Rightarrow>
          map_option (\<lambda>(c, _). (c, s)) (min_misses_loop s (core_ids (lb_active_cores s)) 0 UINT32_MAX)
      | LB_POLICY_THERMAL_AWARE \<Rightarrow>
          map_option (\<lambda>(c, _). (c, s)) (min_temp_loop s (core_ids (lb_active_cores s)) 0 UINT32_MAX)
      | LB_POLICY_HYBRID \<Rightarrow> map_option (\<lambda>c. (c, s)) (find_best_core task s))"

definition lb_balance_task :: "task_requirements_t \<Rightarrow> lb_state \<Rightarrow> (u32 \<times> lb_state) option" where
  "lb_balance_task task s =
     Option.bind (select_core task s) (\<lambda>(target_core, s).
       if \<not> core_ok target_core then None
       else
         let s = add_tasks target_core 1 s;
             s = upd_core target_core (\<lambda>m. m\<lparr>cm_cpu_usage := cm_cpu_usage m + tr_cpu_requirement task\<rparr>) s;
             s = upd_lb_stats (\<lambda>t. t\<lparr>ls_balanced_tasks := ls_balanced_tasks t + 1\<rparr>) s
         in Some (target_core, s))"

section \<open>Moving tasks\<close>

definition lb_migrate_task :: "u32 \<Rightarrow> u32 \<Rightarrow> u32 \<Rightarrow> lb_state \<Rightarrow> (bool \<times> lb_state) option" where
  "lb_migrate_task task_id src_core dst_core s =
     (if src_core = dst_core then Some (False, s)
      else if \<not> core_ok dst_core then None
      else if cm_temperature (core s dst_core) \<ge> THERMAL_THRESHOLD then
        Some (False, upd_lb_stats (\<lambda>t. t\<lparr>ls_failed_balancing := ls_failed_balancing t + 1\<rparr>) s)
      else if \<not> core_ok src_core then None
      else
        let s = sub_tasks src_core 1 s;
            s = add_tasks dst_core 1 s;
            s = upd_lb_stats (\<lambda>t. t\<lparr>ls_total_migrations := ls_total_migrations t + 1\<rparr>) s
        in Some (True, s))"

text \<open>The loop of the thermal handler: half of the tasks go to the first other core that is cool.\<close>

fun thermal_loop :: "u32 \<Rightarrow> u32 \<Rightarrow> u32 list \<Rightarrow> lb_state \<Rightarrow> lb_state option" where
  "thermal_loop core_id task_count [] s = Some s"
| "thermal_loop core_id task_count (i # is) s =
     (if i = core_id then thermal_loop core_id task_count is s
      else if \<not> core_ok i then None
      else if cm_temperature (core s i) < THERMAL_THRESHOLD then
        let tasks_to_migrate = task_count div 2
        in Some (add_tasks i tasks_to_migrate (sub_tasks core_id tasks_to_migrate s))
      else thermal_loop core_id task_count is s)"

definition lb_handle_thermal_event :: "u32 \<Rightarrow> u32 \<Rightarrow> lb_state \<Rightarrow> lb_state option" where
  "lb_handle_thermal_event core_id temperature s =
     (if \<not> lc_thermal_throttling (lb_config s) then Some s
      else if \<not> core_ok core_id then None
      else thermal_loop core_id (cm_task_count (core s core_id)) (core_ids (lb_active_cores s)) s)"

fun min_pressure_loop :: "u32 \<Rightarrow> lb_state \<Rightarrow> u32 list \<Rightarrow> u32 \<Rightarrow> u32 \<Rightarrow> (u32 \<times> u32) option" where
  "min_pressure_loop core_id s [] best_core min_pressure = Some (best_core, min_pressure)"
| "min_pressure_loop core_id s (i # is) best_core min_pressure =
     (if i = core_id then min_pressure_loop core_id s is best_core min_pressure
      else if \<not> core_ok i then None
      else
        let core_pressure = cm_memory_pressure (core s i) in
        if core_pressure < min_pressure then min_pressure_loop core_id s is i core_pressure
        else min_pressure_loop core_id s is best_core min_pressure)"

definition lb_handle_memory_pressure :: "u32 \<Rightarrow> u32 \<Rightarrow> lb_state \<Rightarrow> lb_state option" where
  "lb_handle_memory_pressure core_id pressure s =
     Option.bind (min_pressure_loop core_id s (core_ids (lb_active_cores s)) core_id pressure) (\<lambda>(best_core, _).
       if best_core \<noteq> core_id then
         if \<not> core_ok core_id then None
         else
           let tasks_to_migrate = cm_task_count (core s core_id) div 4
           in Some (add_tasks best_core tasks_to_migrate (sub_tasks core_id tasks_to_migrate s))
       else Some s)"

definition lb_update_metrics :: "u32 \<Rightarrow> core_metrics_t \<Rightarrow> lb_state \<Rightarrow> lb_state option" where
  "lb_update_metrics core_id metrics s =
     (if \<not> core_ok core_id then None
      else
        let s = upd_core core_id (\<lambda>_. metrics) s in
        Option.bind
          (if cm_temperature metrics \<ge> THERMAL_THRESHOLD \<and> lc_thermal_throttling (lb_config s) then
             lb_handle_thermal_event core_id (cm_temperature metrics)
               (upd_lb_stats (\<lambda>t. t\<lparr>ls_thermal_throttling := ls_thermal_throttling t + 1\<rparr>) s)
           else Some s)
          (\<lambda>s. if cm_memory_pressure metrics \<ge> MEMORY_PRESSURE_THRESHOLD then
                  lb_handle_memory_pressure core_id (cm_memory_pressure metrics) s
                else Some s))"

section \<open>Policy and statistics\<close>

definition lb_get_stats :: "lb_state \<Rightarrow> lb_stats_t" where
  "lb_get_stats s = lb_stats s"

definition lb_adjust_policy :: "lb_policy_t \<Rightarrow> lb_state \<Rightarrow> lb_state" where
  "lb_adjust_policy new_policy s =
     (if \<not> lc_dynamic_policy (lb_config s) then s
      else upd_lb_stats (\<lambda>t. t\<lparr>ls_policy_switches := ls_policy_switches t + 1\<rparr>)
             (s\<lparr>lb_config := (lb_config s)\<lparr>lc_policy := new_policy\<rparr>\<rparr>))"

fun balance_loop :: "lb_state \<Rightarrow> u32 list \<Rightarrow> u32 \<Rightarrow> u32 \<Rightarrow> (u32 \<times> u32) option" where
  "balance_loop s [] max_load min_load = Some (max_load, min_load)"
| "balance_loop s (i # is) max_load min_load =
     (if \<not> core_ok i then None
      else
        let load = calculate_core_load (core s i)
        in balance_loop s is (if load > max_load then load else max_load) (if load < min_load then load else min_load))"

definition lb_check_balance :: "lb_state \<Rightarrow> bool option" where
  "lb_check_balance s =
     map_option (\<lambda>(max_load, min_load). max_load - min_load \<le> LOAD_IMBALANCE_THRESHOLD)
       (balance_loop s (core_ids (lb_active_cores s)) 0 UINT32_MAX)"

section \<open>Handlers and callbacks of asynchronous operations\<close>

record migration_params_t =
  mp_task_id :: u32
  mp_src_core :: u32
  mp_dst_core :: u32

record load_update_params_t =
  lp_core_id :: u32
  lp_metrics :: core_metrics_t

record policy_change_params_t =
  pp_new_policy :: lb_policy_t
  pp_force_update :: bool

record thermal_params_t =
  tp_core_id :: u32
  tp_temperature :: u32
  tp_emergency :: bool

record memory_params_t =
  mmp_core_id :: u32
  mmp_pressure :: u32
  mmp_force_rebalance :: bool

definition handle_task_migration :: "migration_params_t \<Rightarrow> lb_state \<Rightarrow> (bool \<times> lb_state) option" where
  "handle_task_migration mp s = lb_migrate_task (mp_task_id mp) (mp_src_core mp) (mp_dst_core mp) s"

definition handle_load_update :: "load_update_params_t \<Rightarrow> lb_state \<Rightarrow> (bool \<times> lb_state) option" where
  "handle_load_update lp s = map_option (\<lambda>s. (True, s)) (lb_update_metrics (lp_core_id lp) (lp_metrics lp) s)"

definition handle_policy_change :: "policy_change_params_t \<Rightarrow> lb_state \<Rightarrow> (bool \<times> lb_state) option" where
  "handle_policy_change pp s = Some (True, lb_adjust_policy (pp_new_policy pp) s)"

definition handle_thermal_adjust :: "thermal_params_t \<Rightarrow> lb_state \<Rightarrow> (bool \<times> lb_state) option" where
  "handle_thermal_adjust tp s = map_option (\<lambda>s. (True, s)) (lb_handle_thermal_event (tp_core_id tp) (tp_temperature tp) s)"

definition handle_memory_rebalance :: "memory_params_t \<Rightarrow> lb_state \<Rightarrow> (bool \<times> lb_state) option" where
  "handle_memory_rebalance mp s = map_option (\<lambda>s. (True, s)) (lb_handle_memory_pressure (mmp_core_id mp) (mmp_pressure mp) s)"

datatype async_status_t = ASYNC_STATUS_PENDING | ASYNC_STATUS_IN_PROGRESS | ASYNC_STATUS_COMPLETED
  | ASYNC_STATUS_FAILED | ASYNC_STATUS_CANCELLED

definition migration_complete :: "async_status_t \<Rightarrow> lb_state \<Rightarrow> lb_state" where
  "migration_complete status s =
     (if status = ASYNC_STATUS_COMPLETED then upd_lb_stats (\<lambda>t. t\<lparr>ls_total_migrations := ls_total_migrations t + 1\<rparr>) s else s)"

definition thermal_complete :: "async_status_t \<Rightarrow> lb_state \<Rightarrow> lb_state" where
  "thermal_complete status s =
     (if status = ASYNC_STATUS_COMPLETED then upd_lb_stats (\<lambda>t. t\<lparr>ls_thermal_throttling := ls_thermal_throttling t + 1\<rparr>) s else s)"

definition memory_complete :: "async_status_t \<Rightarrow> lb_state \<Rightarrow> lb_state" where
  "memory_complete status s =
     (if status = ASYNC_STATUS_COMPLETED then s\<lparr>lb_memory_rebalances := lb_memory_rebalances s + 1\<rparr> else s)"

end
