(* ===== verification/Load_Balancer_Spec.thy ===== *)
theory Load_Balancer_Spec
  imports Load_Balancer
begin

text \<open>
  The scanning loops as one contract, the balancer as a state machine, and the properties of the
  load balancer.
\<close>

section \<open>Scanning for a minimum\<close>

text \<open>The reference: the first element among those of the least cost.\<close>

definition first_min :: "('i \<Rightarrow> u32) \<Rightarrow> 'i list \<Rightarrow> 'i option" where
  "first_min f xs = (if xs = [] then None else Some (hd (filter (\<lambda>i. f i = Min (f ` set xs)) xs)))"

lemma first_min_Cons:
  "first_min f (i # xs) = (case first_min f (filter (\<lambda>j. f j < f i) xs) of None \<Rightarrow> Some i | Some j \<Rightarrow> Some j)"
proof (cases "filter (\<lambda>j. f j < f i) xs = []")
  case True
  then have "\<forall>y \<in> f ` set (i # xs). f i \<le> y" by (auto simp: filter_empty_conv)
  then have "Min (f ` set (i # xs)) = f i" by (intro Min_eqI) auto
  with True show ?thesis by (simp add: first_min_def)
next
  case False
  define ys where "ys = filter (\<lambda>j. f j < f i) xs"
  have ne: "f ` set ys \<noteq> {}" using False ys_def by (metis image_is_empty set_empty)
  have mem: "Min (f ` set ys) \<in> f ` set ys" using ne by (intro Min_in) auto
  have eq: "Min (f ` set (i # xs)) = Min (f ` set ys)"
  proof (rule Min_eqI)
    fix y assume "y \<in> f ` set (i # xs)"
    then obtain j where j: "j = i \<or> j \<in> set xs" "y = f j" by auto
    have less: "Min (f ` set ys) < f i" using mem by (auto simp: ys_def)
    show "Min (f ` set ys) \<le> y"
    proof (cases "j \<in> set ys")
      case True
      then show ?thesis using j by (intro Min_le) auto
    next
      case False
      then have "f i \<le> y" using j by (auto simp: ys_def)
      with less show ?thesis by simp
    qed
  next
    show "Min (f ` set ys) \<in> f ` set (i # xs)" using mem by (auto simp: ys_def)
  qed simp
  have less: "Min (f ` set ys) < f i" using mem by (auto simp: ys_def)
  have "filter (\<lambda>j. f j = Min (f ` set ys)) (i # xs) = filter (\<lambda>j. f j = Min (f ` set ys)) ys"
    using less by (auto simp: ys_def intro!: filter_cong)
  then have "first_min f (i # xs) = first_min f ys"
    using False unfolding first_min_def eq ys_def by simp
  moreover have "first_min f ys \<noteq> None" using False by (simp add: first_min_def ys_def)
  ultimately show ?thesis by (auto simp: ys_def)
qed

lemma first_min_in: "first_min f xs = Some i \<Longrightarrow> i \<in> set xs \<and> (\<forall>j \<in> set xs. f i \<le> f j)"
proof -
  assume a: "first_min f xs = Some i"
  then have "xs \<noteq> []" by (auto simp: first_min_def split: if_splits)
  then have "Min (f ` set xs) \<in> f ` set xs" by (intro Min_in) auto
  then have "filter (\<lambda>i. f i = Min (f ` set xs)) xs \<noteq> []" by (auto simp: filter_empty_conv)
  then have "hd (filter (\<lambda>i. f i = Min (f ` set xs)) xs) \<in> set (filter (\<lambda>i. f i = Min (f ` set xs)) xs)" by (rule hd_in_set)
  with a \<open>xs \<noteq> []\<close> show ?thesis by (auto simp: first_min_def)
qed

text \<open>The contract the scanning loops share: an index without cost is skipped, a lower cost is taken.\<close>

locale min_scan =
  fixes loop :: "'i list \<Rightarrow> 'i \<Rightarrow> u32 \<Rightarrow> ('i \<times> u32) option"
    and ok :: "'i \<Rightarrow> bool"
    and eligible :: "'i \<Rightarrow> bool"
    and cost :: "'i \<Rightarrow> u32"
  assumes scan_Nil: "loop [] b m = Some (b, m)"
    and scan_Cons: "ok i \<Longrightarrow>
      loop (i # is) b m = (if eligible i \<and> cost i < m then loop is i (cost i) else loop is b m)"
begin

lemma scan_first_min:
  "\<forall>i \<in> set is. ok i \<Longrightarrow>
   loop is b m = Some (case first_min cost (filter (\<lambda>i. eligible i \<and> cost i < m) is) of
                         None \<Rightarrow> (b, m) | Some i \<Rightarrow> (i, cost i))"
proof (induction "is" arbitrary: b m)
  case Nil
  then show ?case by (simp add: scan_Nil first_min_def)
next
  case (Cons i "is")
  show ?case
  proof (cases "eligible i \<and> cost i < m")
    case True
    have f: "filter (\<lambda>j. cost j < cost i) (filter (\<lambda>i. eligible i \<and> cost i < m) is) =
        filter (\<lambda>j. eligible j \<and> cost j < cost i) is" using True by (auto intro: filter_cong)
    have "loop (i # is) b m = loop is i (cost i)" using True Cons.prems scan_Cons[of i] by simp
    also have "\<dots> = Some (case first_min cost (filter (\<lambda>j. eligible j \<and> cost j < cost i) is) of
        None \<Rightarrow> (i, cost i) | Some j \<Rightarrow> (j, cost j))" using Cons.prems by (intro Cons.IH) simp
    finally show ?thesis using True f by (simp add: first_min_Cons split: option.splits)
  next
    case False
    then show ?thesis using Cons.prems Cons.IH scan_Cons[of i] by auto
  qed
qed

end

definition eligible_core :: "task_requirements_t \<Rightarrow> lb_state \<Rightarrow> u32 \<Rightarrow> bool" where
  "eligible_core task s i \<longleftrightarrow> bit (tr_affinity_mask task) (unat i) \<and> cm_temperature (core s i) < THERMAL_THRESHOLD \<and>
     cm_memory_pressure (core s i) < MEMORY_PRESSURE_THRESHOLD"

definition effective_load :: "task_requirements_t \<Rightarrow> lb_state \<Rightarrow> u32 \<Rightarrow> u32" where
  "effective_load task s i =
     (let load = calculate_core_load (core s i)
      in if tr_priority task > 0 then load * (10 - tr_priority task) div 10 else load)"

interpretation best: min_scan "find_best_loop task s" "\<lambda>i. core_ok i" "eligible_core task s" "effective_load task s"
  by unfold_locales (auto simp: eligible_core_def effective_load_def Let_def not_le)

interpretation misses: min_scan "min_misses_loop s" "\<lambda>i. core_ok i" "\<lambda>_. True" "\<lambda>i. cm_cache_misses (core s i)"
  by unfold_locales (auto simp: Let_def)

interpretation temp: min_scan "min_temp_loop s" "\<lambda>i. core_ok i" "\<lambda>i. cm_temperature (core s i) < THERMAL_THRESHOLD" "\<lambda>i. cm_temperature (core s i)"
  by unfold_locales (auto simp: Let_def)

interpretation pressure: min_scan "min_pressure_loop c s" "\<lambda>i. core_ok i" "\<lambda>i. i \<noteq> c" "\<lambda>i. cm_memory_pressure (core s i)"
  by unfold_locales (auto simp: Let_def)

lemma set_core_ids: "set (core_ids n) = {i. i < n}"
proof (rule set_eqI)
  fix i :: u32
  have "i \<in> set (core_ids n) \<longleftrightarrow> (\<exists>k < unat n. i = of_nat k)" by (auto simp: core_ids_def)
  also have "\<dots> \<longleftrightarrow> unat i < unat n"
  proof
    assume "\<exists>k < unat n. i = of_nat k"
    then obtain k where k: "k < unat n" "i = of_nat k" by blast
    then have "k < 2 ^ 32" using unat_u32_less[of n] by simp
    with k show "unat i < unat n" using unat_of_nat_u32 by simp
  qed (auto intro!: exI[of _ "unat i"])
  finally show "i \<in> set (core_ids n) \<longleftrightarrow> i \<in> {i. i < n}" by (simp add: word_less_nat_alt)
qed

lemma core_ids_ok: "unat n \<le> 32 \<Longrightarrow> \<forall>i \<in> set (core_ids n). core_ok i"
  by (auto simp: set_core_ids word_less_nat_alt)

lemma core_ids_0 [simp]: "core_ids 0 = []"
  by (simp add: core_ids_def)

lemma div_below_max:
  fixes w d :: u32
  assumes "2 \<le> unat d"
  shows "w div d < UINT32_MAX"
proof -
  have "unat (w div d) = unat w div unat d" by (simp add: unat_div_distrib)
  also have "\<dots> \<le> unat w div 2" using assms by (rule div_le_mono2[rotated]) simp
  also have "\<dots> < unat UINT32_MAX" using unat_u32_less[of w] by simp
  finally show ?thesis by (simp only: word_less_nat_alt)
qed

lemma effective_load_below_max: "effective_load task s i < UINT32_MAX"
  using div_below_max[of 9] div_below_max[of 10] by (simp add: effective_load_def calculate_core_load_def Let_def)

section \<open>The balancer as a state machine\<close>

datatype lb_op = Balance task_requirements_t | Migrate u32 u32 u32 | Thermal u32 u32 | Pressure u32 u32
  | Update u32 core_metrics_t | Policy lb_policy_t

fun lb_exec :: "lb_op \<Rightarrow> lb_state \<Rightarrow> lb_state option" where
  "lb_exec (Balance task) s = map_option snd (lb_balance_task task s)"
| "lb_exec (Migrate tid src dst) s = map_option snd (lb_migrate_task tid src dst s)"
| "lb_exec (Thermal c temperature) s = lb_handle_thermal_event c temperature s"
| "lb_exec (Pressure c pressure) s = lb_handle_memory_pressure c pressure s"
| "lb_exec (Update c metrics) s = lb_update_metrics c metrics s"
| "lb_exec (Policy p) s = Some (lb_adjust_policy p s)"

inductive lb_step :: "lb_state \<Rightarrow> lb_op \<Rightarrow> lb_state \<Rightarrow> bool" where
  lb_exec_step: "lb_exec e s = Some t \<Longrightarrow> lb_step s e t"

inductive_simps lb_step_iff: "lb_step s e t"

text \<open>The array keeps its 32 cores and the number of cores stays within it.\<close>

definition lb_wf :: "lb_state \<Rightarrow> bool" where
  "lb_wf s \<longleftrightarrow> length (lb_core_metrics s) = MAX_CORES \<and> unat (lb_active_cores s) \<le> MAX_CORES"

definition total_tasks :: "lb_state \<Rightarrow> u32" where
  "total_tasks s = sum_list (map cm_task_count (lb_core_metrics s))"

text \<open>What an operation may do to the state: the array and the number of cores stay, and tasks are moved, not
  made or lost.\<close>

definition same_tasks :: "lb_state \<Rightarrow> lb_state \<Rightarrow> bool" where
  "same_tasks s t \<longleftrightarrow> length (lb_core_metrics t) = length (lb_core_metrics s) \<and> lb_active_cores t = lb_active_cores s \<and>
     total_tasks t = total_tasks s"

lemma sum_list_map_update:
  fixes f :: "'a \<Rightarrow> 'b::ab_group_add"
  shows "i < length xs \<Longrightarrow> sum_list (map f (xs[i := x])) = sum_list (map f xs) - f (xs ! i) + f x"
proof (induction xs arbitrary: i)
  case (Cons y ys)
  then show ?case by (cases i) (auto simp: algebra_simps)
qed simp

lemma total_upd_core:
  "unat i < length (lb_core_metrics s) \<Longrightarrow>
   total_tasks (upd_core i f s) = total_tasks s - cm_task_count (core s i) + cm_task_count (f (core s i))"
  by (simp add: total_tasks_def sum_list_map_update)

lemma unat_eq_u32: "unat (i :: u32) = unat j \<longleftrightarrow> i = j"
  by (simp add: unsigned_word_eqI word_unat_eq_iff)

text \<open>Moving \<open>n\<close> tasks between two cores.\<close>

lemma same_tasks_move:
  assumes "length (lb_core_metrics s) = MAX_CORES" "core_ok i" "core_ok j"
  shows "same_tasks s (add_tasks j n (sub_tasks i n s))"
  using assms by (simp add: same_tasks_def total_tasks_def sum_list_map_update)

lemma same_tasks_wf: "same_tasks s t \<Longrightarrow> lb_wf s \<Longrightarrow> lb_wf t"
  by (simp add: same_tasks_def lb_wf_def)

lemma same_tasks_stats: "same_tasks s t \<Longrightarrow> same_tasks s (upd_lb_stats f t)"
  by (simp add: same_tasks_def total_tasks_def)

lemma same_tasks_refl: "same_tasks s s"
  by (simp add: same_tasks_def)

lemma lb_migrate_task_ok:
  assumes "lb_wf s" "core_ok dst" "core_ok src"
  shows "\<exists>r t. lb_migrate_task tid src dst s = Some (r, t) \<and> same_tasks s t"
proof -
  have len: "length (lb_core_metrics s) = MAX_CORES" using assms(1) by (simp add: lb_wf_def)
  show ?thesis
    unfolding lb_migrate_task_def Let_def
    using assms(2,3) same_tasks_stats[OF same_tasks_move[OF len assms(3,2), of 1]] same_tasks_stats[OF same_tasks_refl, of s]
      same_tasks_refl[of s] by auto
qed

lemma thermal_loop_ok:
  "length (lb_core_metrics s) = MAX_CORES \<Longrightarrow> core_ok c \<Longrightarrow> \<forall>i \<in> set is. core_ok i \<Longrightarrow>
   \<exists>t. thermal_loop c n is s = Some t \<and> same_tasks s t"
proof (induction "is")
  case Nil
  then show ?case by (simp add: same_tasks_def)
next
  case (Cons i "is")
  from Cons.prems have "same_tasks s (add_tasks i (n div 2) (sub_tasks c (n div 2) s))" by (intro same_tasks_move) auto
  with Cons show ?case by (simp add: Let_def)
qed

lemma lb_handle_thermal_event_ok:
  assumes "lb_wf s" "core_ok c"
  shows "\<exists>t. lb_handle_thermal_event c temperature s = Some t \<and> same_tasks s t"
  using assms thermal_loop_ok[OF _ assms(2) core_ids_ok]
  by (auto simp: lb_handle_thermal_event_def lb_wf_def same_tasks_def)

lemma lb_handle_memory_pressure_ok:
  assumes "lb_wf s" "core_ok c"
  shows "\<exists>t. lb_handle_memory_pressure c p s = Some t \<and> same_tasks s t"
proof -
  have len: "length (lb_core_metrics s) = MAX_CORES" and ids: "\<forall>i \<in> set (core_ids (lb_active_cores s)). core_ok i"
    using assms(1) core_ids_ok[of "lb_active_cores s"] by (simp_all add: lb_wf_def)
  let ?m = "first_min (\<lambda>i. cm_memory_pressure (core s i))
    (filter (\<lambda>i. i \<noteq> c \<and> cm_memory_pressure (core s i) < p) (core_ids (lb_active_cores s)))"
  have "core_ok i" if "?m = Some i" for i using first_min_in[OF that] ids by auto
  then show ?thesis
    using pressure.scan_first_min[OF ids, of c s c p] assms(2) same_tasks_move[OF len assms(2)]
    by (cases ?m) (auto simp: lb_handle_memory_pressure_def Let_def same_tasks_def total_tasks_def)
qed

lemma lb_update_metrics_ok:
  assumes "lb_wf s" "core_ok c"
  shows "\<exists>t. lb_update_metrics c m s = Some t \<and> lb_wf t"
proof -
  let ?s = "upd_core c (\<lambda>_. m) s"
  let ?u = "upd_lb_stats (\<lambda>t. t\<lparr>ls_thermal_throttling := ls_thermal_throttling t + 1\<rparr>) ?s"
  have wf: "lb_wf ?s" "lb_wf ?u" using assms(1) by (simp_all add: lb_wf_def)
  from lb_handle_thermal_event_ok[OF wf(2) assms(2), of "cm_temperature m"]
  obtain v where v: "lb_handle_thermal_event c (cm_temperature m) ?u = Some v" "same_tasks ?u v" by blast
  from v(2) wf(2) have wfv: "lb_wf v" by (simp add: lb_wf_def same_tasks_def)
  have pressure: "\<exists>t. lb_handle_memory_pressure c p u = Some t \<and> lb_wf t" if "lb_wf u" for p u
    using lb_handle_memory_pressure_ok[OF that assms(2)] same_tasks_wf that by blast
  show ?thesis
    unfolding lb_update_metrics_def Let_def
    using v(1) wfv wf(1) assms(2) pressure[OF wfv, of "cm_memory_pressure m"] pressure[OF wf(1), of "cm_memory_pressure m"]
    by simp
qed

lemma select_core_ok:
  assumes "lb_wf s" "lc_policy (lb_config s) = LB_POLICY_ROUND_ROBIN \<Longrightarrow> 0 < lb_active_cores s"
  obtains c where "select_core task s = Some (c, s\<lparr>lb_next_core := lb_next_core s + 1\<rparr>) \<or> select_core task s = Some (c, s)"
    and "core_ok c"
proof -
  have ids: "\<forall>i \<in> set (core_ids (lb_active_cores s)). core_ok i" using assms(1) core_ids_ok[of "lb_active_cores s"] by (simp add: lb_wf_def)
  have pick: "\<exists>c d. r = Some (c, d) \<and> core_ok c"
    if r: "r = Some (case first_min f (filter P (core_ids (lb_active_cores s))) of None \<Rightarrow> (0, b) | Some i \<Rightarrow> (i, f i))" for r f P b
  proof (cases "first_min f (filter P (core_ids (lb_active_cores s)))")
    case None
    with r show ?thesis by simp
  next
    case (Some i)
    from first_min_in[OF Some] ids have "core_ok i" by auto
    with r Some show ?thesis by simp
  qed
  have best: "\<exists>c. find_best_core task s = Some c \<and> core_ok c"
    using pick[OF best.scan_first_min[OF ids, of task s 0 UINT32_MAX]] by (auto simp: find_best_core_def)
  have rr: "core_ok (lb_next_core s mod lb_active_cores s)" if "0 < lb_active_cores s"
  proof -
    have "lb_next_core s mod lb_active_cores s < lb_active_cores s" using that by (rule word_mod_less_divisor)
    then show ?thesis using assms(1) by (simp add: lb_wf_def word_less_nat_alt)
  qed
  show thesis
  proof (cases "lc_policy (lb_config s)")
    case LB_POLICY_ROUND_ROBIN
    with assms(2) have "0 < lb_active_cores s" by simp
    with that[of "lb_next_core s mod lb_active_cores s"] rr LB_POLICY_ROUND_ROBIN show thesis by (simp add: select_core_def)
  next
    case LB_POLICY_MEMORY_AFFINITY
    with that pick[OF misses.scan_first_min[OF ids, of s 0 UINT32_MAX]] show thesis by (auto simp: select_core_def)
  next
    case LB_POLICY_THERMAL_AWARE
    with that pick[OF temp.scan_first_min[OF ids, of s 0 UINT32_MAX]] show thesis by (auto simp: select_core_def)
  qed (use that best in \<open>auto simp: select_core_def\<close>)
qed

lemma lb_balance_task_ok:
  assumes "lb_wf s" "lc_policy (lb_config s) = LB_POLICY_ROUND_ROBIN \<Longrightarrow> 0 < lb_active_cores s"
  shows "\<exists>c t. lb_balance_task task s = Some (c, t) \<and> core_ok c \<and> lb_wf t \<and> total_tasks t = total_tasks s + 1 \<and>
    lb_active_cores t = lb_active_cores s"
proof (rule select_core_ok[OF assms])
  fix c assume c: "core_ok c"
    and "select_core task s = Some (c, s\<lparr>lb_next_core := lb_next_core s + 1\<rparr>) \<or> select_core task s = Some (c, s)"
  then show ?thesis using assms(1)
    by (auto simp: lb_balance_task_def Let_def lb_wf_def total_tasks_def sum_list_map_update)
qed

section \<open>Properties\<close>

text \<open>Arguments an operation is defined for.\<close>

fun op_ok :: "lb_op \<Rightarrow> lb_state \<Rightarrow> bool" where
  "op_ok (Balance task) s = (lc_policy (lb_config s) = LB_POLICY_ROUND_ROBIN \<longrightarrow> 0 < lb_active_cores s)"
| "op_ok (Migrate tid src dst) s = (core_ok src \<and> core_ok dst)"
| "op_ok (Thermal c temperature) s = core_ok c"
| "op_ok (Pressure c pressure) s = core_ok c"
| "op_ok (Update c metrics) s = core_ok c"
| "op_ok (Policy p) s = True"

definition placed :: "lb_op \<Rightarrow> u32" where
  "placed e = (case e of Balance _ \<Rightarrow> 1 | _ \<Rightarrow> 0)"

lemma lb_exec_ok:
  assumes "lb_wf s" "op_ok e s"
  shows "\<exists>t. lb_exec e s = Some t \<and> lb_wf t \<and> ((\<forall>c m. e \<noteq> Update c m) \<longrightarrow> total_tasks t = total_tasks s + placed e)"
proof (cases e)
  case (Balance task)
  with assms lb_balance_task_ok[of s task] show ?thesis by (auto simp: placed_def)
next
  case (Migrate tid src dst)
  with assms obtain r t where "lb_migrate_task tid src dst s = Some (r, t)" "same_tasks s t"
    using lb_migrate_task_ok[of s dst src tid] by auto
  with Migrate assms(1) show ?thesis by (simp add: lb_wf_def same_tasks_def placed_def)
next
  case (Thermal c temperature)
  with assms lb_handle_thermal_event_ok[of s c temperature] show ?thesis by (auto simp: lb_wf_def same_tasks_def placed_def)
next
  case (Pressure c p)
  with assms lb_handle_memory_pressure_ok[of s c p] show ?thesis by (auto simp: lb_wf_def same_tasks_def placed_def)
next
  case (Update c m)
  with assms lb_update_metrics_ok[of s c m] show ?thesis by auto
next
  case (Policy p)
  with assms(1) show ?thesis by (simp add: lb_adjust_policy_def lb_wf_def total_tasks_def placed_def)
qed

lemma lb_exec_not_ok: "lb_exec e s = Some t \<Longrightarrow> \<not> op_ok e s \<Longrightarrow> placed e = 0 \<and> same_tasks s t"
proof (cases e)
  case (Migrate tid src dst)
  then show "lb_exec e s = Some t \<Longrightarrow> \<not> op_ok e s \<Longrightarrow> ?thesis"
    by (auto simp: lb_migrate_task_def placed_def same_tasks_refl same_tasks_stats split: if_splits)
next
  case (Pressure c p)
  then show "lb_exec e s = Some t \<Longrightarrow> \<not> op_ok e s \<Longrightarrow> ?thesis"
    by (auto simp: lb_handle_memory_pressure_def placed_def same_tasks_refl bind_eq_Some_conv split: if_splits)
qed (auto simp: lb_balance_task_def select_core_def lb_handle_thermal_event_def lb_update_metrics_def placed_def
       same_tasks_refl word_neq_0_conv split: if_splits)

lemma lb_step_keeps:
  assumes "lb_wf s" "lb_step s e t"
  shows "lb_wf t \<and> ((\<forall>c m. e \<noteq> Update c m) \<longrightarrow> total_tasks t = total_tasks s + placed e)"
proof (cases "op_ok e s")
  case True
  with lb_exec_ok[OF assms(1) True] assms(2) show ?thesis by (auto simp: lb_step_iff)
next
  case False
  with assms(2) have "placed e = 0 \<and> same_tasks s t" by (auto simp: lb_step_iff dest: lb_exec_not_ok)
  then show ?thesis using same_tasks_wf[OF _ assms(1)] by (auto simp: same_tasks_def)
qed

interpretation lb_typed: state_machine lb_step lb_wf
  by unfold_locales (use lb_step_keeps in blast)


text \<open>No operation writes the number of cores after initialisation.\<close>

lemma lb_active_cores_kept:
  assumes "lb_step s e t"
  shows "lb_active_cores t = lb_active_cores s"
proof -
  have th: "thermal_loop c n is u = Some v \<Longrightarrow> lb_active_cores v = lb_active_cores u" for c n "is" u v
    by (induction "is") (auto simp: Let_def split: if_splits)
  have the: "lb_handle_thermal_event c p u = Some v \<Longrightarrow> lb_active_cores v = lb_active_cores u" for c p u v
    by (auto simp: lb_handle_thermal_event_def dest: th split: if_splits)
  have mem: "lb_handle_memory_pressure c p u = Some v \<Longrightarrow> lb_active_cores v = lb_active_cores u" for c p u v
    by (auto simp: lb_handle_memory_pressure_def Let_def bind_eq_Some_conv split: if_splits)
  have sel: "select_core task u = Some (c, v) \<Longrightarrow> lb_active_cores v = lb_active_cores u" for task u c v
    by (auto simp: select_core_def split: lb_policy_t.splits if_splits)
  show ?thesis
  proof (cases e)
    case (Balance task)
    with assms show ?thesis by (auto simp: lb_step_iff lb_balance_task_def Let_def bind_eq_Some_conv dest!: sel split: if_splits)
  next
    case (Migrate tid src dst)
    with assms show ?thesis by (auto simp: lb_step_iff lb_migrate_task_def Let_def split: if_splits)
  next
    case (Update c m)
    with assms show ?thesis
      by (auto simp: lb_step_iff lb_update_metrics_def Let_def bind_eq_Some_conv dest!: the mem split: if_splits)
  qed (use assms in \<open>auto simp: lb_step_iff lb_adjust_policy_def dest: the mem\<close>)
qed

interpretation lb_cores: state_machine lb_step "\<lambda>s. lb_active_cores s = n"
  by unfold_locales (simp add: lb_active_cores_kept)

lemma select_core_no_cores:
  assumes "lb_active_cores s = 0"
  shows "select_core task s = (if lc_policy (lb_config s) = LB_POLICY_ROUND_ROBIN then None else Some (0, s))"
  using assms by (cases "lc_policy (lb_config s)") (simp_all add: select_core_def find_best_core_def)

section \<open>Example states\<close>

definition ex_metrics :: "u32 \<Rightarrow> u32 \<Rightarrow> core_metrics_t" where
  "ex_metrics n temp = \<lparr>cm_cpu_usage = 10, cm_task_count = n, cm_memory_pressure = 20, cm_cache_misses = 0, cm_temperature = temp,
     cm_power_consumption = 0\<rparr>"

definition ex_config :: "lb_policy_t \<Rightarrow> lb_config_t" where
  "ex_config p = \<lparr>lc_policy = p, lc_update_interval = 0, lc_migration_threshold = 0, lc_max_migrations = 0,
     lc_thermal_throttling = True, lc_dynamic_policy = True\<rparr>"

definition ex_lb :: lb_state where
  "ex_lb = \<lparr>lb_initialized = True, lb_config = ex_config LB_POLICY_HYBRID,
     lb_core_metrics = [ex_metrics 5 90, ex_metrics 3 40, ex_metrics 1 40] @ replicate 29 (ex_metrics 0 0),
     lb_stats = zero_lb_stats, lb_active_cores = 3, lb_total_load = 0, lb_lock = 0, lb_next_core = 0, lb_memory_rebalances = 0\<rparr>"

definition ex_task :: task_requirements_t where
  "ex_task = \<lparr>tr_priority = 0, tr_cpu_requirement = 7, tr_memory_requirement = 0, tr_deadline = 0, tr_realtime = False,
     tr_affinity_mask = UINT32_MAX\<rparr>"


lemmas ex_lb_defs = ex_lb_def ex_metrics_def ex_task_def ex_config_def

section \<open>Properties\<close>

text \<open>C18: \<open>find_best_core\<close> is equivalent to its specification: among the cores the task may run on that are neither hot
  nor short of memory, the first of least load (weighted by the priority); core 0 when there is none.\<close>

theorem find_best_core_first_min:
  assumes "unat (lb_active_cores s) \<le> 32"
  shows "find_best_core task s =
    Some (case first_min (effective_load task s) (filter (eligible_core task s) (core_ids (lb_active_cores s))) of
            None \<Rightarrow> 0 | Some i \<Rightarrow> i)"
  using best.scan_first_min[OF core_ids_ok[OF assms], of task s 0 UINT32_MAX]
  by (simp add: find_best_core_def effective_load_below_max split: option.splits)

theorem find_best_core_first_min_witness: "find_best_core ex_task ex_lb = Some 2"
proof -
  have u: "unat (lb_active_cores ex_lb) \<le> 32" by (simp add: ex_lb_def)
  have ids: "core_ids (lb_active_cores ex_lb) = [0, 1, 2]" by (simp add: ex_lb_def core_ids_def upt_rec)
  have "filter (eligible_core ex_task ex_lb) [0, 1, 2] = [1, 2]"
    by (simp add: eligible_core_def ex_lb_defs)
  moreover have "effective_load ex_task ex_lb 1 = 14" "effective_load ex_task ex_lb 2 = 13"
    by (simp_all add: effective_load_def calculate_core_load_def ex_lb_defs Let_def)
  ultimately show ?thesis unfolding find_best_core_first_min[OF u] ids by (simp add: first_min_def)
qed





text \<open>The balancer never learns of a core: \<open>lb_init\<close> sets the number of active cores to zero and no operation
  changes it, so after any sequence of operations a round-robin placement divides by zero and every other policy puts
  the task on core 0.\<close>

theorem lb_never_has_cores:
  assumes "\<not> lb_initialized s0" "lb_init mutex config s0 = (True, s)" "steps lb_step s es t"
  shows "lb_active_cores t = 0 \<and>
    select_core task t = (if lc_policy (lb_config t) = LB_POLICY_ROUND_ROBIN then None else Some (0, t))"
proof (rule conjI)
  have "lb_active_cores s = 0" using assms(1,2) by (auto simp: lb_init_def)
  from lb_cores.invar_steps[OF assms(3) this] show zero: "lb_active_cores t = 0" .
  from zero show "select_core task t = (if lc_policy (lb_config t) = LB_POLICY_ROUND_ROBIN then None else Some (0, t))"
    by (rule select_core_no_cores)
qed

theorem lb_never_has_cores_witness:
  "\<exists>s t. lb_init 1 (ex_config LB_POLICY_HYBRID) (ex_lb\<lparr>lb_initialized := False\<rparr>) = (True, s) \<and>
     steps lb_step s [Update 2 (ex_metrics 0 0), Policy LB_POLICY_ROUND_ROBIN] t \<and> lb_balance_task ex_task t = None"
proof -
  let ?s0 = "ex_lb\<lparr>lb_initialized := False\<rparr>"
  obtain s where s: "lb_init 1 (ex_config LB_POLICY_HYBRID) ?s0 = (True, s)" "lb_wf s" "lc_dynamic_policy (lb_config s)"
    by (simp add: lb_init_def lb_wf_def ex_lb_def ex_config_def)
  have "lb_update_metrics 2 (ex_metrics 0 0) s = Some (upd_core 2 (\<lambda>_. ex_metrics 0 0) s)"
    by (simp add: lb_update_metrics_def ex_metrics_def)
  then have run: "steps lb_step s [Update 2 (ex_metrics 0 0), Policy LB_POLICY_ROUND_ROBIN]
      (lb_adjust_policy LB_POLICY_ROUND_ROBIN (upd_core 2 (\<lambda>_. ex_metrics 0 0) s))" (is "steps _ _ _ ?t")
    by (simp add: lb_step_iff)
  have "lc_policy (lb_config ?t) = LB_POLICY_ROUND_ROBIN" using s(3) by (simp add: lb_adjust_policy_def)
  with lb_never_has_cores[OF _ s(1) run, of ex_task] have "select_core ex_task ?t = None" by simp
  then have "lb_balance_task ex_task ?t = None" by (simp add: lb_balance_task_def)
  with s(1) run show ?thesis by blast
qed

end
