(* ===== verification/Async_Ops.thy ===== *)
theory Async_Ops
  imports Linked_List Load_Balancer
begin

text \<open>
  Model of \<open>mini_rtos/src/async_ops.c\<close>, and of the functions of \<open>load_balancer.c\<close> that submit operations
  to it: operations taken round robin from a pool of 1024 records, queued to the least busy worker, and processed by the
  handlers of the load balancer.

  The address of element \<open>i\<close> of the pool is \<open>Suc i\<close>; \<open>as_op_pool\<close> is the pointer returned by \<open>calloc\<close>, and
  \<open>as_pool_live\<close> tells whether its block is still allocated. An access to the pool when it is \<open>NULL\<close> or freed is \<open>None\<close>, as are a worker number beyond the array and parameters of another type
  than the handler expects. The parameters that \<open>async_submit\<close> copies are values of the datatype \<open>async_params\<close>, the
  callbacks the three functions of the load balancer. Mutexes and threads are not defined in the repository: a mutex makes the
  section it brackets one step, the results of \<open>mutex_create\<close> and \<open>thread_create\<close> are arguments, and \<open>thread_join\<close> returns
  the state it leaves, or \<open>None\<close> when it does not return.
\<close>

section \<open>Data\<close>

datatype async_op_type_t = ASYNC_OP_TASK_MIGRATION | ASYNC_OP_LOAD_UPDATE | ASYNC_OP_POLICY_CHANGE
  | ASYNC_OP_THERMAL_ADJUST | ASYNC_OP_MEMORY_REBALANCE

datatype async_params = Migration_Params migration_params_t | Load_Update_Params load_update_params_t
  | Policy_Change_Params policy_change_params_t | Thermal_Params thermal_params_t | Memory_Params memory_params_t

datatype async_callback_t = Callback_NULL | Callback_Migration | Callback_Thermal | Callback_Memory

record async_op_t =
  op_op_id :: u32
  op_type :: async_op_type_t
  op_status :: async_status_t
  op_params :: "async_params option"
  op_param_size :: u32
  op_callback :: async_callback_t
  op_callback_context :: addr
  op_next :: addr
  op_deadline :: u64
  op_priority :: u32
  op_cancellable :: bool

record async_queue_t =
  aq_head :: addr
  aq_tail :: addr
  aq_count :: u32
  aq_lock :: addr

record worker_state_t =
  w_active :: bool
  w_thread :: addr
  w_queue :: async_queue_t

record async_state =
  as_initialized :: bool
  as_next_op_id :: u32
  as_workers :: "worker_state_t list"
  as_num_workers :: u32
  as_op_pool :: addr
  as_pool_live :: bool
  as_op :: "addr \<Rightarrow> async_op_t"
  as_op_pool_index :: u32
  as_global_lock :: addr
  as_lb :: lb_state

abbreviation (input) MAX_WORKERS :: nat where "MAX_WORKERS \<equiv> 16"
abbreviation (input) MAX_PENDING_OPS :: nat where "MAX_PENDING_OPS \<equiv> 1024"

abbreviation pool_ok :: "async_state \<Rightarrow> bool" where
  "pool_ok s \<equiv> as_op_pool s \<noteq> NULL \<and> as_pool_live s"

abbreviation upd_op :: "addr \<Rightarrow> (async_op_t \<Rightarrow> async_op_t) \<Rightarrow> async_state \<Rightarrow> async_state" where
  "upd_op p f s \<equiv> s\<lparr>as_op := (as_op s)(p := f (as_op s p))\<rparr>"

abbreviation upd_worker :: "nat \<Rightarrow> (worker_state_t \<Rightarrow> worker_state_t) \<Rightarrow> async_state \<Rightarrow> async_state" where
  "upd_worker w f s \<equiv> s\<lparr>as_workers := (as_workers s)[w := f (as_workers s ! w)]\<rparr>"

abbreviation upd_aq :: "(async_queue_t \<Rightarrow> async_queue_t) \<Rightarrow> worker_state_t \<Rightarrow> worker_state_t" where
  "upd_aq f w \<equiv> w\<lparr>w_queue := f (w_queue w)\<rparr>"

text \<open>A record of the pool after \<open>calloc\<close>.\<close>

definition zero_op :: async_op_t where
  "zero_op = \<lparr>op_op_id = 0, op_type = ASYNC_OP_TASK_MIGRATION, op_status = ASYNC_STATUS_PENDING, op_params = None,
     op_param_size = 0, op_callback = Callback_NULL, op_callback_context = NULL, op_next = NULL, op_deadline = 0,
     op_priority = 0, op_cancellable = False\<rparr>"

section \<open>Submitting\<close>

definition get_op_from_pool :: "async_state \<Rightarrow> (addr \<times> async_state) option" where
  "get_op_from_pool s =
     (if \<not> pool_ok s then None
      else Some (Suc (unat (as_op_pool_index s) mod MAX_PENDING_OPS), s\<lparr>as_op_pool_index := as_op_pool_index s + 1\<rparr>))"

text \<open>The loop over the workers, whose numbers are below 17 since \<open>async_init\<close> caps them.\<close>

fun select_loop :: "async_state \<Rightarrow> nat list \<Rightarrow> nat \<Rightarrow> u32 \<Rightarrow> (nat \<times> u32) option" where
  "select_loop s [] best_worker min_count = Some (best_worker, min_count)"
| "select_loop s (i # is) best_worker min_count =
     (if \<not> i < MAX_WORKERS then None
      else
        let n = aq_count (w_queue (as_workers s ! i)) in
        if n < min_count then select_loop s is i n else select_loop s is best_worker min_count)"

definition select_worker :: "async_op_type_t \<Rightarrow> u32 \<Rightarrow> async_state \<Rightarrow> nat option" where
  "select_worker ty priority s = map_option fst (select_loop s [0..<unat (as_num_workers s)] 0 UINT32_MAX)"

text \<open>The section under the lock of the worker's queue.\<close>

definition enqueue_op :: "nat \<Rightarrow> addr \<Rightarrow> async_state \<Rightarrow> async_state" where
  "enqueue_op w op s =
     (let tail = aq_tail (w_queue (as_workers s ! w));
          s = (if tail = NULL then upd_worker w (upd_aq (\<lambda>q. q\<lparr>aq_head := op, aq_tail := op\<rparr>)) s
               else upd_worker w (upd_aq (\<lambda>q. q\<lparr>aq_tail := op\<rparr>)) (upd_op tail (\<lambda>t. t\<lparr>op_next := op\<rparr>) s))
      in upd_worker w (upd_aq (\<lambda>q. q\<lparr>aq_count := aq_count q + 1\<rparr>)) s)"

text \<open>\<open>block\<close> is the result of \<open>malloc\<close> for the copy of the parameters.\<close>

definition async_submit :: "addr \<Rightarrow> async_op_type_t \<Rightarrow> async_params option \<Rightarrow> u32 \<Rightarrow> async_callback_t \<Rightarrow> addr \<Rightarrow> u64 \<Rightarrow> u32 \<Rightarrow>
    async_state \<Rightarrow> (u32 \<times> async_state) option" where
  "async_submit block ty params param_size callback context' deadline priority s =
     (if \<not> as_initialized s then Some (0, s)
      else Option.bind (get_op_from_pool s) (\<lambda>(op, s).
        let op_id = as_next_op_id s;
            s = s\<lparr>as_next_op_id := as_next_op_id s + 1\<rparr>;
            s = upd_op op (\<lambda>t. t\<lparr>op_op_id := op_id, op_type := ty, op_status := ASYNC_STATUS_PENDING\<rparr>) s in
        if params \<noteq> None \<and> param_size > 0 \<and> block = NULL then Some (0, upd_op op (\<lambda>t. t\<lparr>op_params := None\<rparr>) s)
        else
          let s = (if params \<noteq> None \<and> param_size > 0 then
                     upd_op op (\<lambda>t. t\<lparr>op_params := params, op_param_size := param_size\<rparr>) s else s);
              s = upd_op op (\<lambda>t. t\<lparr>op_callback := callback, op_callback_context := context', op_next := NULL,
                                    op_deadline := deadline, op_priority := priority, op_cancellable := True\<rparr>) s
          in Option.bind (select_worker ty priority s) (\<lambda>w. Some (op_id, enqueue_op w op s))))"

section \<open>Cancelling, waiting, status\<close>

text \<open>The first element of the pool that satisfies the test of the loop.\<close>

definition find_op :: "(async_op_t \<Rightarrow> bool) \<Rightarrow> async_state \<Rightarrow> addr option" where
  "find_op P s = find (\<lambda>p. P (as_op s p)) (map Suc [0..<MAX_PENDING_OPS])"

definition async_cancel :: "u32 \<Rightarrow> async_state \<Rightarrow> (bool \<times> async_state) option" where
  "async_cancel op_id s =
     (if \<not> pool_ok s then None
      else case find_op (\<lambda>t. op_op_id t = op_id \<and> op_cancellable t) s of
             None \<Rightarrow> Some (False, s)
           | Some p \<Rightarrow> Some (True, upd_op p (\<lambda>t. t\<lparr>op_status := ASYNC_STATUS_CANCELLED\<rparr>) s))"

definition async_get_status :: "u32 \<Rightarrow> async_state \<Rightarrow> async_status_t option" where
  "async_get_status op_id s =
     (if \<not> pool_ok s then None
      else Some (case find_op (\<lambda>t. op_op_id t = op_id) s of
                   None \<Rightarrow> ASYNC_STATUS_FAILED
                 | Some p \<Rightarrow> op_status (as_op s p)))"

text \<open>The waiting loop sees other threads at work: \<open>clock n\<close> and \<open>st n\<close> are the time and the state in the
  \<open>n\<close>-th iteration.\<close>

partial_function (option) wait_loop :: "(nat \<Rightarrow> u64) \<Rightarrow> (nat \<Rightarrow> async_state) \<Rightarrow> u32 \<Rightarrow> u32 \<Rightarrow> u64 \<Rightarrow> nat \<Rightarrow> bool option" where
  "wait_loop clock st op_id timeout_ms start_time n =
     (if clock n - start_time < ucast timeout_ms then
        if \<not> pool_ok (st n) then None
        else case find_op (\<lambda>t. op_op_id t = op_id) (st n) of
               None \<Rightarrow> wait_loop clock st op_id timeout_ms start_time (Suc n)
             | Some p \<Rightarrow>
                 if op_status (as_op (st n) p) \<in> {ASYNC_STATUS_COMPLETED, ASYNC_STATUS_FAILED, ASYNC_STATUS_CANCELLED} then Some True
                 else wait_loop clock st op_id timeout_ms start_time (Suc n)
      else Some False)"

definition async_wait :: "(nat \<Rightarrow> u64) \<Rightarrow> (nat \<Rightarrow> async_state) \<Rightarrow> u32 \<Rightarrow> u32 \<Rightarrow> bool option" where
  "async_wait clock st op_id timeout_ms = wait_loop clock st op_id timeout_ms (clock 0) 1"

section \<open>Processing\<close>

text \<open>Taking the head of a worker's queue, under its lock; \<open>NULL\<close> when the queue is empty.\<close>

definition dequeue_op :: "nat \<Rightarrow> async_state \<Rightarrow> addr \<times> async_state" where
  "dequeue_op w s =
     (let op = aq_head (w_queue (as_workers s ! w)) in
      if op = NULL then (NULL, s)
      else
        let s = upd_worker w (upd_aq (\<lambda>q. q\<lparr>aq_head := op_next (as_op s op)\<rparr>)) s;
            s = (if aq_head (w_queue (as_workers s ! w)) = NULL then upd_worker w (upd_aq (\<lambda>q. q\<lparr>aq_tail := NULL\<rparr>)) s else s)
        in (op, upd_worker w (upd_aq (\<lambda>q. q\<lparr>aq_count := aq_count q - 1\<rparr>)) s))"

definition run_handler :: "async_op_type_t \<Rightarrow> async_params option \<Rightarrow> lb_state \<Rightarrow> (bool \<times> lb_state) option" where
  "run_handler ty params s =
     (case (ty, params) of
        (ASYNC_OP_TASK_MIGRATION, Some (Migration_Params p)) \<Rightarrow> handle_task_migration p s
      | (ASYNC_OP_LOAD_UPDATE, Some (Load_Update_Params p)) \<Rightarrow> handle_load_update p s
      | (ASYNC_OP_POLICY_CHANGE, Some (Policy_Change_Params p)) \<Rightarrow> handle_policy_change p s
      | (ASYNC_OP_THERMAL_ADJUST, Some (Thermal_Params p)) \<Rightarrow> handle_thermal_adjust p s
      | (ASYNC_OP_MEMORY_REBALANCE, Some (Memory_Params p)) \<Rightarrow> handle_memory_rebalance p s
      | _ \<Rightarrow> None)"

definition run_async_callback :: "async_callback_t \<Rightarrow> async_status_t \<Rightarrow> lb_state \<Rightarrow> lb_state" where
  "run_async_callback cb status s =
     (case cb of Callback_NULL \<Rightarrow> s | Callback_Migration \<Rightarrow> migration_complete status s
      | Callback_Thermal \<Rightarrow> thermal_complete status s | Callback_Memory \<Rightarrow> memory_complete status s)"

definition process_op :: "addr \<Rightarrow> async_state \<Rightarrow> async_state option" where
  "process_op op s =
     (let s = upd_op op (\<lambda>t. t\<lparr>op_status := ASYNC_STATUS_IN_PROGRESS, op_cancellable := False\<rparr>) s in
      Option.bind (run_handler (op_type (as_op s op)) (op_params (as_op s op)) (as_lb s)) (\<lambda>(success, lb).
        let status = (if success then ASYNC_STATUS_COMPLETED else ASYNC_STATUS_FAILED);
            s = upd_op op (\<lambda>t. t\<lparr>op_status := status\<rparr>) (s\<lparr>as_lb := lb\<rparr>);
            s = s\<lparr>as_lb := run_async_callback (op_callback (as_op s op)) status (as_lb s)\<rparr>
        in Some (upd_op op (\<lambda>t. t\<lparr>op_params := None\<rparr>) s)))"

text \<open>One iteration of the inner loop, and the inner loop; the result tells whether an operation was processed.\<close>

definition process_worker :: "nat \<Rightarrow> async_state \<Rightarrow> (bool \<times> async_state) option" where
  "process_worker w s =
     (if \<not> w < MAX_WORKERS then None
      else if \<not> w_active (as_workers s ! w) then Some (False, s)
      else
        let (op, s) = dequeue_op w s in
        if op = NULL then Some (False, s) else map_option (\<lambda>s. (True, s)) (process_op op s))"

fun process_workers :: "nat list \<Rightarrow> bool \<Rightarrow> async_state \<Rightarrow> (bool \<times> async_state) option" where
  "process_workers [] processed s = Some (processed, s)"
| "process_workers (w # ws) processed s =
     Option.bind (process_worker w s) (\<lambda>(p, s). process_workers ws (processed \<or> p) s)"

text \<open>The thread: rounds over all workers as long as the system is initialized.\<close>

inductive async_process_ops :: "async_state \<Rightarrow> async_state \<Rightarrow> bool" where
  process_exit: "\<not> as_initialized s \<Longrightarrow> async_process_ops s s"
| process_round: "as_initialized s \<Longrightarrow> process_workers [0..<unat (as_num_workers s)] False s = Some (p, t) \<Longrightarrow>
    async_process_ops t u \<Longrightarrow> async_process_ops s u"

section \<open>Starting and stopping\<close>

definition init_worker :: "addr \<Rightarrow> addr \<Rightarrow> nat \<Rightarrow> async_state \<Rightarrow> bool \<times> async_state" where
  "init_worker mutex thread w s =
     (thread \<noteq> NULL,
      upd_worker w (\<lambda>t. t\<lparr>w_active := True, w_thread := thread,
        w_queue := \<lparr>aq_head = NULL, aq_tail = NULL, aq_count = 0, aq_lock = mutex\<rparr>\<rparr>) s)"

definition stop_worker :: "(addr \<Rightarrow> async_state \<Rightarrow> async_state option) \<Rightarrow> nat \<Rightarrow> async_state \<Rightarrow> async_state option" where
  "stop_worker thread_join w s =
     (let s = upd_worker w (\<lambda>t. t\<lparr>w_active := False\<rparr>) s; thread = w_thread (as_workers s ! w) in
      Option.bind (if thread \<noteq> NULL then map_option (upd_worker w (\<lambda>t. t\<lparr>w_thread := NULL\<rparr>)) (thread_join thread s) else Some s)
        (\<lambda>s. Some (upd_worker w (upd_aq (\<lambda>q. q\<lparr>aq_lock := NULL\<rparr>)) s)))"

fun stop_workers :: "(addr \<Rightarrow> async_state \<Rightarrow> async_state option) \<Rightarrow> nat list \<Rightarrow> async_state \<Rightarrow> async_state option" where
  "stop_workers thread_join [] s = Some s"
| "stop_workers thread_join (w # ws) s = Option.bind (stop_worker thread_join w s) (stop_workers thread_join ws)"

definition async_shutdown :: "(addr \<Rightarrow> async_state \<Rightarrow> async_state option) \<Rightarrow> async_state \<Rightarrow> async_state option" where
  "async_shutdown thread_join s =
     (if \<not> as_initialized s then Some s
      else Option.bind (stop_workers thread_join [0..<unat (as_num_workers s)] s) (\<lambda>s.
        if \<not> pool_ok s then None
        else Some (s\<lparr>as_op := (\<lambda>p. (as_op s p)\<lparr>op_params := None\<rparr>), as_op_pool := NULL, as_pool_live := False,
                     as_global_lock := NULL,
                     as_initialized := False\<rparr>)))"

text \<open>\<open>ws\<close> gives the results of \<open>mutex_create\<close> and \<open>thread_create\<close> for each worker.\<close>

fun init_workers :: "(addr \<Rightarrow> async_state \<Rightarrow> async_state option) \<Rightarrow> (addr \<times> addr) list \<Rightarrow> nat \<Rightarrow> nat \<Rightarrow> async_state \<Rightarrow>
    (bool \<times> async_state) option" where
  "init_workers thread_join ((mutex, thread) # ws) i n s =
     (if i < n then
        let (ok, s) = init_worker mutex thread i s in
        if ok then init_workers thread_join ws (Suc i) n s
        else map_option (\<lambda>s. (False, s)) (async_shutdown thread_join s)
      else Some (True, s))"
| "init_workers thread_join [] i n s = (if i < n then None else Some (True, s))"

definition async_init :: "(addr \<Rightarrow> async_state \<Rightarrow> async_state option) \<Rightarrow> addr \<Rightarrow> addr \<Rightarrow> (addr \<times> addr) list \<Rightarrow> u32 \<Rightarrow> async_state \<Rightarrow>
    (bool \<times> async_state) option" where
  "async_init thread_join pool lock ws num_workers s =
     (if as_initialized s then Some (False, s)
      else
        let num_workers = (if num_workers > of_nat MAX_WORKERS then of_nat MAX_WORKERS else num_workers);
            s = s\<lparr>as_initialized := True, as_num_workers := num_workers, as_next_op_id := 1, as_op_pool_index := 0,
                  as_op_pool := pool\<rparr> in
        if pool = NULL then Some (False, s)
        else
          let s = s\<lparr>as_op := (\<lambda>p. zero_op), as_pool_live := True, as_global_lock := lock\<rparr> in
          if lock = NULL then Some (False, s\<lparr>as_pool_live := False\<rparr>)
          else init_workers thread_join ws 0 (unat num_workers) s)"

section \<open>The asynchronous interface of the load balancer\<close>

definition lb_migrate_task_async :: "addr \<Rightarrow> u64 \<Rightarrow> u32 \<Rightarrow> u32 \<Rightarrow> u32 \<Rightarrow> async_state \<Rightarrow> (bool \<times> async_state) option" where
  "lb_migrate_task_async block now task_id src_core dst_core s =
     map_option (\<lambda>(op_id, s). (op_id \<noteq> 0, s))
       (async_submit block ASYNC_OP_TASK_MIGRATION
          (Some (Migration_Params \<lparr>mp_task_id = task_id, mp_src_core = src_core, mp_dst_core = dst_core\<rparr>)) 12
          Callback_Migration NULL (now + 1000) 8 s)"

definition lb_update_metrics_async :: "addr \<Rightarrow> u64 \<Rightarrow> u32 \<Rightarrow> core_metrics_t \<Rightarrow> async_state \<Rightarrow> async_state option" where
  "lb_update_metrics_async block now core_id metrics s =
     map_option snd
       (async_submit block ASYNC_OP_LOAD_UPDATE (Some (Load_Update_Params \<lparr>lp_core_id = core_id, lp_metrics = metrics\<rparr>)) 28
          Callback_NULL NULL (now + 100) 5 s)"

definition lb_adjust_policy_async :: "addr \<Rightarrow> u64 \<Rightarrow> lb_policy_t \<Rightarrow> bool \<Rightarrow> async_state \<Rightarrow> async_state option" where
  "lb_adjust_policy_async block now new_policy force_update s =
     map_option snd
       (async_submit block ASYNC_OP_POLICY_CHANGE
          (Some (Policy_Change_Params \<lparr>pp_new_policy = new_policy, pp_force_update = force_update\<rparr>)) 8
          Callback_NULL NULL (now + 500) 6 s)"

definition lb_handle_thermal_event_async :: "addr \<Rightarrow> u64 \<Rightarrow> u32 \<Rightarrow> u32 \<Rightarrow> bool \<Rightarrow> async_state \<Rightarrow> async_state option" where
  "lb_handle_thermal_event_async block now core_id temperature emergency s =
     map_option snd
       (async_submit block ASYNC_OP_THERMAL_ADJUST
          (Some (Thermal_Params \<lparr>tp_core_id = core_id, tp_temperature = temperature, tp_emergency = emergency\<rparr>)) 12
          Callback_Thermal NULL (now + 200) (if emergency then 9 else 7) s)"

definition lb_handle_memory_pressure_async :: "addr \<Rightarrow> u64 \<Rightarrow> u32 \<Rightarrow> u32 \<Rightarrow> bool \<Rightarrow> async_state \<Rightarrow> async_state option" where
  "lb_handle_memory_pressure_async block now core_id pressure force_rebalance s =
     map_option snd
       (async_submit block ASYNC_OP_MEMORY_REBALANCE
          (Some (Memory_Params \<lparr>mmp_core_id = core_id, mmp_pressure = pressure, mmp_force_rebalance = force_rebalance\<rparr>)) 12
          Callback_Memory NULL (now + 300) (if force_rebalance then 8 else 6) s)"

end
