(* ===== verification/Async_Ops_Spec.thy ===== *)
theory Async_Ops_Spec
  imports Async_Ops Load_Balancer_Spec
begin

text \<open>
  The queues of the workers as lists, submission and processing on them, and the properties of the
  asynchronous operations.
\<close>

section \<open>The queues of the workers\<close>

text \<open>\<open>qs ! w\<close> are the operations queued to worker \<open>w\<close>, in order.\<close>

definition async_rep :: "async_state \<Rightarrow> addr list list \<Rightarrow> bool" where
  "async_rep s qs \<longleftrightarrow> length (as_workers s) = MAX_WORKERS \<and> length qs = MAX_WORKERS \<and>
     (\<forall>w < MAX_WORKERS. let q = w_queue (as_workers s ! w) in
        fifo (\<lambda>p. op_next (as_op s p)) (aq_head q) (aq_tail q) (qs ! w) \<and> aq_count q = of_nat (length (qs ! w))) \<and>
     distinct (concat qs) \<and> set (concat qs) \<subseteq> {1..MAX_PENDING_OPS}"

lemma async_repD:
  assumes "async_rep s qs" "w < MAX_WORKERS"
  shows "fifo (\<lambda>p. op_next (as_op s p)) (aq_head (w_queue (as_workers s ! w))) (aq_tail (w_queue (as_workers s ! w))) (qs ! w)"
    "aq_count (w_queue (as_workers s ! w)) = of_nat (length (qs ! w))"
  using assms by (auto simp: async_rep_def Let_def)

lemma fifo_next_cong:
  "\<forall>p \<in> set xs. nx' p = nx p \<Longrightarrow> fifo nx' h tp xs = fifo nx h tp xs"
  using chain_cong[of xs nx' nx h] by (simp add: fifo_def)

text \<open>Replacing the queue of one worker; the links of the others are not touched.\<close>

lemma async_rep_update:
  assumes rep: "async_rep s qs" and w: "w < MAX_WORKERS"
    and ws: "as_workers t = (as_workers s)[w := v]"
    and new: "fifo (\<lambda>p. op_next (as_op t p)) (aq_head (w_queue v)) (aq_tail (w_queue v)) xs" "aq_count (w_queue v) = of_nat (length xs)"
    and frame: "\<And>u p. u < MAX_WORKERS \<Longrightarrow> u \<noteq> w \<Longrightarrow> p \<in> set (qs ! u) \<Longrightarrow> op_next (as_op t p) = op_next (as_op s p)"
    and dist: "distinct (concat (qs[w := xs]))" "set (concat (qs[w := xs])) \<subseteq> {1..MAX_PENDING_OPS}"
  shows "async_rep t (qs[w := xs])"
proof -
  have len: "length (as_workers s) = MAX_WORKERS" "length qs = MAX_WORKERS" using rep by (auto simp: async_rep_def)
  have "fifo (\<lambda>p. op_next (as_op t p)) (aq_head (w_queue (as_workers t ! u))) (aq_tail (w_queue (as_workers t ! u))) (qs[w := xs] ! u) \<and>
      aq_count (w_queue (as_workers t ! u)) = of_nat (length (qs[w := xs] ! u))" if u: "u < MAX_WORKERS" for u
  proof (cases "u = w")
    case True
    with new w len ws show ?thesis by simp
  next
    case False
    have "fifo (\<lambda>p. op_next (as_op t p)) h tp (qs ! u) = fifo (\<lambda>p. op_next (as_op s p)) h tp (qs ! u)" for h tp
      using frame[OF u False] by (intro fifo_next_cong) simp
    with False async_repD[OF rep u] ws show ?thesis by simp
  qed
  with len dist ws show ?thesis by (simp add: async_rep_def Let_def)
qed

lemma mset_concat_update:
  "w < length qs \<Longrightarrow> mset (concat (qs[w := xs])) + mset (qs ! w) = mset (concat qs) + mset xs"
proof (induction qs arbitrary: w)
  case (Cons q qs)
  then show ?case by (cases w) auto
qed simp

lemma distinct_mset_cong: "mset xs = mset ys \<Longrightarrow> distinct xs = distinct ys"
  by (rule mset_eq_imp_distinct_iff)

lemma concat_update_snoc:
  "w < length qs \<Longrightarrow> distinct (concat (qs[w := qs ! w @ [p]])) \<longleftrightarrow> distinct (p # concat qs)"
  using mset_concat_update[of w qs "qs ! w @ [p]"] by (intro distinct_mset_cong) simp

lemma concat_update_tl:
  "w < length qs \<Longrightarrow> qs ! w = p # ps \<Longrightarrow> distinct (p # concat (qs[w := ps])) \<longleftrightarrow> distinct (concat qs)"
  using mset_concat_update[of w qs ps] by (intro distinct_mset_cong) simp

lemma set_concat_update: "w < length qs \<Longrightarrow> set xs \<subseteq> insert p (set (qs ! w)) \<Longrightarrow> set (concat (qs[w := xs])) \<subseteq> insert p (set (concat qs))"
  using set_update_subset_insert[of qs w xs] nth_mem[of w qs] by fastforce

section \<open>Least busy worker\<close>

definition queue_length :: "async_state \<Rightarrow> nat \<Rightarrow> u32" where
  "queue_length s w = aq_count (w_queue (as_workers s ! w))"

interpretation busy: min_scan "select_loop s" "\<lambda>i. i < MAX_WORKERS" "\<lambda>_. True" "queue_length s"
  by unfold_locales (auto simp: Let_def queue_length_def)

text \<open>The worker that is chosen has the shortest queue of all.\<close>

lemma select_worker_min:
  assumes "0 < unat (as_num_workers s)" "unat (as_num_workers s) \<le> MAX_WORKERS"
  obtains w where "select_worker ty pr s = Some w" "w < MAX_WORKERS"
    "\<forall>i < unat (as_num_workers s). queue_length s w \<le> queue_length s i"
proof -
  let ?is = "[0..<unat (as_num_workers s)]"
  let ?m = "first_min (queue_length s) (filter (\<lambda>i. queue_length s i < UINT32_MAX) ?is)"
  have max: "v \<le> UINT32_MAX" for v :: u32 using unat_u32_less[of v] by (simp add: word_le_nat_alt)
  have ok: "\<forall>i \<in> set ?is. i < MAX_WORKERS" using assms(2) by auto
  have sel: "select_worker ty pr s = Some (case ?m of None \<Rightarrow> 0 | Some i \<Rightarrow> i)"
    using busy.scan_first_min[OF ok, of s 0 UINT32_MAX] by (simp add: select_worker_def split: option.splits)
  show thesis
  proof (cases ?m)
    case None
    then have "\<forall>i \<in> set ?is. \<not> queue_length s i < UINT32_MAX" by (simp add: first_min_def filter_empty_conv split: if_splits)
    then have "\<forall>i < unat (as_num_workers s). queue_length s i = UINT32_MAX" using max by (auto simp: not_less intro: antisym)
    with assms(1) sel None that[of 0] show thesis by simp
  next
    case (Some w)
    have "queue_length s w \<le> queue_length s i" if "i < unat (as_num_workers s)" for i
    proof (cases "queue_length s i < UINT32_MAX")
      case True
      with first_min_in[OF Some] that show ?thesis by auto
    next
      case False
      with max[of "queue_length s w"] max[of "queue_length s i"] show ?thesis by (simp add: not_less)
    qed
    with first_min_in[OF Some] ok sel Some that[of w] show thesis by auto
  qed
qed

lemma as_workers_upd_op [simp]: "queue_length (s\<lparr>as_op := f\<rparr>) w = queue_length s w"
  by (simp add: queue_length_def)

lemma async_rep_length:
  assumes "async_rep s qs" "w < MAX_WORKERS"
  shows "length (qs ! w) \<le> MAX_PENDING_OPS"
proof -
  have "qs ! w \<in> set qs" using assms by (simp add: async_rep_def)
  then have "distinct (qs ! w)" "set (qs ! w) \<subseteq> {1..MAX_PENDING_OPS}"
    using assms(1) by (auto simp: async_rep_def distinct_concat_iff)
  then show ?thesis using card_mono[of "{1..MAX_PENDING_OPS}" "set (qs ! w)"] by (simp add: distinct_card)
qed

lemma queue_length_rep:
  assumes "async_rep s qs" "w < MAX_WORKERS"
  shows "unat (queue_length s w) = length (qs ! w)"
proof -
  have "length (qs ! w) < 2 ^ 32" using async_rep_length[OF assms] by simp
  then show ?thesis using async_repD(2)[OF assms] by (simp only: queue_length_def unat_of_nat_u32)
qed

lemma concat_member: "w < length qs \<Longrightarrow> p \<in> set (qs ! w) \<Longrightarrow> p \<in> set (concat qs)"
  by (metis UnionI image_eqI nth_mem set_concat)

lemma queue_distinct: "distinct (concat qs) \<Longrightarrow> w < length qs \<Longrightarrow> u < length qs \<Longrightarrow> w \<noteq> u \<Longrightarrow> set (qs ! w) \<inter> set (qs ! u) = {}"
proof (induction qs arbitrary: w u)
  case (Cons q qs)
  have "set q \<inter> set (concat qs) = {}" using Cons.prems(1) by auto
  with concat_member[of _ qs] have q: "set q \<inter> set (qs ! v) = {}" if "v < length qs" for v using that by blast
  show ?case
  proof (cases w)
    case 0
    with Cons.prems q[of "u - 1"] show ?thesis by (cases u) simp_all
  next
    case (Suc w')
    with Cons.prems Cons.IH[of w' "u - 1"] q[of w'] show ?thesis by (cases u) (simp_all add: Int_commute)
  qed
qed simp

lemma fifo_ends: "fifo nx h tp xs \<Longrightarrow> (tp = NULL \<longleftrightarrow> xs = []) \<and> (h = NULL \<longleftrightarrow> xs = []) \<and> (xs \<noteq> [] \<longrightarrow> tp = last xs)"
proof (cases "xs = []")
  case False
  assume a: "fifo nx h tp xs"
  then have "NULL \<notin> set xs" by (auto simp: fifo_def dest: chain_no_NULL)
  with last_in_set[OF False] have "last xs \<noteq> NULL" by metis
  moreover have "h \<noteq> NULL" using a False by (cases xs) (auto simp: fifo_def)
  ultimately show ?thesis using a False by (simp add: fifo_def)
qed simp

text \<open>Appending to a queue.\<close>

lemma enqueue_op_ok:
  assumes rep: "async_rep s qs" and w: "w < MAX_WORKERS" and p: "p \<notin> set (concat qs)" "p \<in> {1..MAX_PENDING_OPS}"
    and nx: "op_next (as_op s p) = NULL"
  shows "async_rep (enqueue_op w p s) (qs[w := qs ! w @ [p]])"
    and "\<And>r. as_op (enqueue_op w p s) r = (as_op s r)\<lparr>op_next := op_next (as_op (enqueue_op w p s) r)\<rparr>"
    and "as_op (enqueue_op w p s) p = as_op s p"
proof -
  let ?q = "w_queue (as_workers s ! w)" and ?t = "enqueue_op w p s"
  have len: "length (as_workers s) = MAX_WORKERS" "length qs = MAX_WORKERS" using rep by (auto simp: async_rep_def)
  have pw: "p \<notin> set (qs ! w)" using p(1) w len concat_member[of w qs p] by auto
  note f = async_repD[OF rep w]
  have hd_tl: "aq_tail ?q = NULL \<longleftrightarrow> qs ! w = []" "aq_head ?q = NULL \<longleftrightarrow> qs ! w = []" "qs ! w \<noteq> [] \<Longrightarrow> aq_tail ?q = last (qs ! w)"
    using fifo_ends[OF f(1)] by blast+
  show op: "as_op ?t p = as_op s p" and "\<And>r. as_op ?t r = (as_op s r)\<lparr>op_next := op_next (as_op ?t r)\<rparr>"
    using pw hd_tl by (auto simp: enqueue_op_def Let_def)
  show "async_rep ?t (qs[w := qs ! w @ [p]])"
  proof (rule async_rep_update[OF rep w])
    show "as_workers ?t = (as_workers s)[w := as_workers ?t ! w]" using w len by (auto simp: enqueue_op_def Let_def)
    have nx': "(\<lambda>r. op_next (as_op s r))(p := NULL) = (\<lambda>r. op_next (as_op s r))" using nx by auto
    have "(\<lambda>r. op_next (as_op ?t r)) = (if aq_tail ?q = NULL then (\<lambda>r. op_next (as_op s r)) else (\<lambda>r. op_next (as_op s r))(aq_tail ?q := p))"
      by (auto simp: enqueue_op_def Let_def)
    moreover have "p \<noteq> NULL" using p(2) by auto
    moreover have "qs ! w \<noteq> [] \<Longrightarrow> p \<noteq> last (qs ! w)" using pw last_in_set by metis
    ultimately show "fifo (\<lambda>r. op_next (as_op ?t r)) (aq_head (w_queue (as_workers ?t ! w))) (aq_tail (w_queue (as_workers ?t ! w))) (qs ! w @ [p])"
      using fifo_snoc[OF f(1) _ pw] hd_tl w len nx nx' fun_upd_twist[of p "aq_tail ?q" "\<lambda>r. op_next (as_op s r)" NULL p] pw
      by (auto simp: enqueue_op_def Let_def split: if_splits)
    show "aq_count (w_queue (as_workers ?t ! w)) = of_nat (length (qs ! w @ [p]))"
      using f(2) w len by (simp add: enqueue_op_def Let_def)
    show "op_next (as_op ?t r) = op_next (as_op s r)" if "u < MAX_WORKERS" "u \<noteq> w" "r \<in> set (qs ! u)" for u r
    proof -
      have "r \<noteq> aq_tail ?q \<or> aq_tail ?q = NULL"
      proof (cases "qs ! w = []")
        case False
        have "set (qs ! w) \<inter> set (qs ! u) = {}" using rep w that(1,2) len by (intro queue_distinct) (auto simp: async_rep_def)
        with that(3) last_in_set[OF False] hd_tl(3)[OF False] show ?thesis by auto
      qed (use hd_tl in simp)
      then show ?thesis by (auto simp: enqueue_op_def Let_def)
    qed
    show "distinct (concat (qs[w := qs ! w @ [p]]))" using concat_update_snoc[of w qs p] rep p(1) w by (simp add: async_rep_def)
    show "set (concat (qs[w := qs ! w @ [p]])) \<subseteq> {1..MAX_PENDING_OPS}"
      using set_concat_update[of w qs "qs ! w @ [p]" p] rep p(2) w by (fastforce simp: async_rep_def)
  qed
qed

text \<open>A submission takes the next slot of the pool and appends it to a shortest queue.\<close>

definition next_slot :: "async_state \<Rightarrow> addr" where
  "next_slot s = Suc (unat (as_op_pool_index s) mod MAX_PENDING_OPS)"

lemma async_submit_ok:
  assumes rep: "async_rep s qs" and init: "as_initialized s" "pool_ok s"
    and n: "0 < unat (as_num_workers s)" "unat (as_num_workers s) \<le> MAX_WORKERS"
    and free: "next_slot s \<notin> set (concat qs)"
    and mem: "block \<noteq> NULL" "0 < size'"
  shows "\<exists>w t. async_submit block ty (Some params) size' cb ctx dl pr s = Some (as_next_op_id s, t) \<and>
    w < MAX_WORKERS \<and> (\<forall>i < unat (as_num_workers s). length (qs ! w) \<le> length (qs ! i)) \<and>
    async_rep t (qs[w := qs ! w @ [next_slot s]]) \<and>
    as_op t (next_slot s) = \<lparr>op_op_id = as_next_op_id s, op_type = ty, op_status = ASYNC_STATUS_PENDING, op_params = Some params,
       op_param_size = size', op_callback = cb, op_callback_context = ctx, op_next = NULL, op_deadline = dl, op_priority = pr,
       op_cancellable = True\<rparr> \<and>
    (\<forall>p. p \<noteq> next_slot s \<longrightarrow> (as_op t p)\<lparr>op_next := NULL\<rparr> = (as_op s p)\<lparr>op_next := NULL\<rparr>) \<and>
    as_lb t = as_lb s \<and> (\<forall>i. w_active (as_workers t ! i) = w_active (as_workers s ! i))"
proof -
  let ?p = "next_slot s"
  define op' where "op' = \<lparr>op_op_id = as_next_op_id s, op_type = ty, op_status = ASYNC_STATUS_PENDING, op_params = Some params,
       op_param_size = size', op_callback = cb, op_callback_context = ctx, op_next = NULL, op_deadline = dl, op_priority = pr,
       op_cancellable = True\<rparr>"
  define s1 where "s1 = s\<lparr>as_op_pool_index := as_op_pool_index s + 1, as_next_op_id := as_next_op_id s + 1, as_op := (as_op s)(?p := op')\<rparr>"
  have full: "(as_op s ?p)\<lparr>op_op_id := as_next_op_id s, op_type := ty, op_status := ASYNC_STATUS_PENDING, op_params := Some params,
       op_param_size := size', op_callback := cb, op_callback_context := ctx, op_next := NULL, op_deadline := dl, op_priority := pr,
       op_cancellable := True\<rparr> = op'" by (rule async_op_t.equality) (simp_all add: op'_def)
  have ql: "queue_length s1 = queue_length s" by (simp add: s1_def queue_length_def fun_eq_iff)
  have "fifo (\<lambda>p. op_next (as_op s1 p)) h tp (qs ! u) = fifo (\<lambda>p. op_next (as_op s p)) h tp (qs ! u)" if "u < MAX_WORKERS" for u h tp
    using free concat_member[of u qs ?p] that rep by (intro fifo_next_cong) (auto simp: s1_def async_rep_def)
  then have rep1: "async_rep s1 qs" using rep by (simp add: async_rep_def s1_def Let_def)
  have n1: "0 < unat (as_num_workers s1)" "unat (as_num_workers s1) \<le> MAX_WORKERS" using n by (simp_all add: s1_def)
  have nw: "as_num_workers s1 = as_num_workers s" by (simp add: s1_def)
  obtain w where w: "select_worker ty pr s1 = Some w" "w < MAX_WORKERS"
    and short: "\<forall>i < unat (as_num_workers s). queue_length s w \<le> queue_length s i"
    using select_worker_min[OF n1, of ty pr] unfolding ql nw by blast
  have slot: "?p \<in> {1..MAX_PENDING_OPS}" by (simp add: next_slot_def Suc_le_eq)
  have nx: "op_next (as_op s1 ?p) = NULL" by (simp add: s1_def op'_def)
  note e = enqueue_op_ok[OF rep1 w(2) free slot nx]
  have "length (qs ! w) \<le> length (qs ! i)" if "i < unat (as_num_workers s)" for i
    using short[rule_format, OF that] queue_length_rep[OF rep w(2)] queue_length_rep[OF rep, of i] that n(2) by (simp add: word_le_nat_alt)
  moreover have "async_submit block ty (Some params) size' cb ctx dl pr s = Some (as_next_op_id s, enqueue_op w ?p s1)"
    using init mem w(1) by (simp add: async_submit_def get_op_from_pool_def Let_def next_slot_def[symmetric] s1_def full)
  moreover have "as_op (enqueue_op w ?p s1) ?p = op'" using e(3) by (simp add: s1_def)
  moreover have "(as_op (enqueue_op w ?p s1) p)\<lparr>op_next := NULL\<rparr> = (as_op s p)\<lparr>op_next := NULL\<rparr>" if "p \<noteq> ?p" for p
    using that by (subst e(2)) (simp add: s1_def)
  moreover have "as_lb (enqueue_op w ?p s1) = as_lb s" by (simp add: enqueue_op_def Let_def s1_def)
  moreover have "w_active (as_workers (enqueue_op w ?p s1) ! i) = w_active (as_workers s ! i)" for i
    by (cases "i = w"; cases "w < length (as_workers s)") (auto simp: enqueue_op_def Let_def s1_def list_update_beyond)
  ultimately show ?thesis using e(1) w(2) unfolding op'_def by blast
qed

section \<open>Processing\<close>

lemma async_rep_cong:
  "as_workers t = as_workers s \<Longrightarrow> (\<And>p. op_next (as_op t p) = op_next (as_op s p)) \<Longrightarrow> async_rep t qs = async_rep s qs"
  by (simp add: async_rep_def)

lemma dequeue_op_ok:
  assumes rep: "async_rep s qs" and w: "w < MAX_WORKERS" and q: "qs ! w = p # ps"
  shows "\<exists>t. dequeue_op w s = (p, t) \<and> async_rep t (qs[w := ps]) \<and> as_op t = as_op s \<and> as_lb t = as_lb s"
proof -
  let ?q = "w_queue (as_workers s ! w)"
  have len: "length (as_workers s) = MAX_WORKERS" "length qs = MAX_WORKERS" using rep by (auto simp: async_rep_def)
  note f = async_repD[OF rep w]
  have p: "aq_head ?q = p" "p \<noteq> NULL" using f(1) q by (auto simp: fifo_def)
  obtain ys where "qs ! w = p # ys"
    "fifo ((\<lambda>p. op_next (as_op s p))(p := op_next (as_op s p))) (op_next (as_op s p)) (if op_next (as_op s p) = NULL then NULL else aq_tail ?q) ys"
    using fifo_tail[OF f(1)] p by metis
  then have tl: "fifo (\<lambda>p. op_next (as_op s p)) (op_next (as_op s p)) (if op_next (as_op s p) = NULL then NULL else aq_tail ?q) ps"
    using q by (simp add: fun_upd_idem)
  define t where "t = snd (dequeue_op w s)"
  have t: "dequeue_op w s = (p, t)" "as_op t = as_op s" "as_lb t = as_lb s" using p by (auto simp: t_def dequeue_op_def Let_def)
  have "async_rep t (qs[w := ps])"
  proof (rule async_rep_update[OF rep w])
    show "as_workers t = (as_workers s)[w := as_workers t ! w]" using w len p by (auto simp: t_def dequeue_op_def Let_def)
    show "fifo (\<lambda>r. op_next (as_op t r)) (aq_head (w_queue (as_workers t ! w))) (aq_tail (w_queue (as_workers t ! w))) ps"
      using tl w len p by (auto simp: t_def dequeue_op_def Let_def split: if_splits)
    show "aq_count (w_queue (as_workers t ! w)) = of_nat (length ps)"
      using f(2) q w len p by (simp add: t_def dequeue_op_def Let_def)
    show "distinct (concat (qs[w := ps]))" using concat_update_tl[OF _ q] rep w by (simp add: async_rep_def)
    show "set (concat (qs[w := ps])) \<subseteq> {1..MAX_PENDING_OPS}"
    proof -
      have "p \<in> set (concat qs)" using q w len concat_member[of w qs p] by simp
      moreover have "set (concat (qs[w := ps])) \<subseteq> insert p (set (concat qs))" using q w len by (intro set_concat_update) auto
      ultimately show ?thesis using rep by (auto simp: async_rep_def)
    qed
  qed (simp add: t(2))
  with t show ?thesis by blast
qed

text \<open>Processing the head of a queue runs its handler on the load balancer, then its callback.\<close>

lemma process_worker_ok:
  assumes rep: "async_rep s qs" and w: "w < MAX_WORKERS" "w_active (as_workers s ! w)" and q: "qs ! w = p # ps"
    and run: "run_handler (op_type (as_op s p)) (op_params (as_op s p)) (as_lb s) = Some (ok, lb)"
    and status: "status = (if ok then ASYNC_STATUS_COMPLETED else ASYNC_STATUS_FAILED)"
  shows "\<exists>t. process_worker w s = Some (True, t) \<and> async_rep t (qs[w := ps]) \<and>
    as_lb t = run_async_callback (op_callback (as_op s p)) status lb \<and>
    as_op t = (as_op s)(p := (as_op s p)\<lparr>op_status := status, op_cancellable := False, op_params := None\<rparr>)"
proof -
  obtain u where u: "dequeue_op w s = (p, u)" "async_rep u (qs[w := ps])" "as_op u = as_op s" "as_lb u = as_lb s"
    using dequeue_op_ok[OF rep w(1) q] by blast
  have p: "p \<noteq> NULL" using async_repD(1)[OF rep w(1)] q by (auto simp: fifo_def)
  define t where "t = u\<lparr>as_op := (as_op s)(p := (as_op s p)\<lparr>op_status := status, op_cancellable := False, op_params := None\<rparr>),
    as_lb := run_async_callback (op_callback (as_op s p)) status lb\<rparr>"
  have "process_op p u = Some t" using run by (auto simp: process_op_def Let_def u(3,4) t_def status intro!: async_state.equality)
  then have "process_worker w s = Some (True, t)" using w u(1) p by (simp add: process_worker_def)
  moreover have "async_rep t (qs[w := ps])" using u(2,3) by (subst async_rep_cong[of t u]) (auto simp: t_def)
  ultimately show ?thesis by (auto simp: t_def)
qed

text \<open>No step of a worker clears the flag its loop tests.\<close>

lemma process_worker_initialized: "process_worker w s = Some (p, t) \<Longrightarrow> as_initialized t = as_initialized s"
  by (auto simp: process_worker_def process_op_def dequeue_op_def Let_def bind_eq_Some_conv split: if_splits)

lemma process_workers_initialized: "process_workers ws b s = Some (p, t) \<Longrightarrow> as_initialized t = as_initialized s"
  by (induction ws arbitrary: b s) (auto simp: bind_eq_Some_conv dest: process_worker_initialized)

lemma async_process_ops_not_initialized: "async_process_ops s u \<Longrightarrow> \<not> as_initialized s"
  by (induction rule: async_process_ops.induct) (auto dest: process_workers_initialized)

lemma stop_workers_None:
  assumes "\<And>p s t. thread_join p s = Some t \<Longrightarrow> \<not> as_initialized s"
  shows "as_initialized s \<Longrightarrow> \<exists>w \<in> set ws. w < length (as_workers s) \<and> w_thread (as_workers s ! w) \<noteq> NULL \<Longrightarrow> stop_workers thread_join ws s = None"
proof (induction ws arbitrary: s)
  case (Cons w ws)
  let ?s = "upd_worker w (\<lambda>t. t\<lparr>w_active := False\<rparr>) s"
  have join: "thread_join p u = None" if "as_initialized u" for p u using assms that by fastforce
  show ?case
  proof (cases "stop_worker thread_join w s")
    case (Some t)
    then have nt: "w_thread (as_workers ?s ! w) = NULL" and t: "t = upd_worker w (upd_aq (\<lambda>q. q\<lparr>aq_lock := NULL\<rparr>)) ?s"
      using join[of ?s] Cons.prems(1) by (auto simp: stop_worker_def Let_def split: if_splits)
    have th: "w_thread (as_workers t ! v) = w_thread (as_workers s ! v)" for v
      unfolding t by (cases "v = w"; cases "w < length (as_workers s)") (auto simp: list_update_beyond)
    have "w_thread (as_workers s ! w) = NULL \<or> \<not> w < length (as_workers s)" using nt by (cases "w < length (as_workers s)") auto
    with Cons.prems(2) th have "\<exists>v \<in> set ws. v < length (as_workers t) \<and> w_thread (as_workers t ! v) \<noteq> NULL" by (auto simp: t)
    moreover have "as_initialized t" using Cons.prems(1) by (simp add: t)
    ultimately show ?thesis using Cons.IH Some by simp
  qed simp
qed simp

section \<open>Waiting\<close>

text \<open>\<open>async_wait\<close> returns once the clock has run for the timeout, whatever the other threads do.\<close>

lemma async_wait_returns:
  assumes "\<And>n. pool_ok (st n)" "0 < k" "\<not> clock k - clock 0 < ucast timeout_ms"
  shows "\<exists>b. async_wait clock st op_id timeout_ms = Some b"
proof -
  have "\<exists>b. wait_loop clock st op_id timeout_ms (clock 0) n = Some b" if "n \<le> k" for n
    using that
  proof (induction "k - n" arbitrary: n)
    case 0
    then show ?case using assms(3) by (subst wait_loop.simps) auto
  next
    case (Suc d)
    then have "d = k - Suc n" "Suc n \<le> k" by simp_all
    from Suc.hyps(1)[OF this] show ?case
      using assms(1)[of n] by (subst wait_loop.simps) (auto split: option.splits)
  qed
  with assms(2) show ?thesis by (simp add: async_wait_def Suc_le_eq)
qed

section \<open>An idle system\<close>

definition idle_worker :: worker_state_t where
  "idle_worker = \<lparr>w_active = True, w_thread = 1, w_queue = \<lparr>aq_head = NULL, aq_tail = NULL, aq_count = 0, aq_lock = 1\<rparr>\<rparr>"

definition ex_async :: async_state where
  "ex_async = \<lparr>as_initialized = True, as_next_op_id = 7, as_workers = replicate MAX_WORKERS idle_worker, as_num_workers = 2,
     as_op_pool = 1, as_pool_live = True, as_op = (\<lambda>p. zero_op), as_op_pool_index = 3, as_global_lock = 1, as_lb = ex_lb\<rparr>"

lemma async_rep_ex: "async_rep ex_async (replicate MAX_WORKERS [])"
  by (simp add: async_rep_def ex_async_def idle_worker_def Let_def)

text \<open>One policy change in the queue of the first worker.\<close>

definition ex_op :: async_op_t where
  "ex_op = zero_op\<lparr>op_op_id := 7, op_type := ASYNC_OP_POLICY_CHANGE, op_cancellable := True,
     op_params := Some (Policy_Change_Params \<lparr>pp_new_policy = LB_POLICY_THERMAL_AWARE, pp_force_update = False\<rparr>)\<rparr>"

definition ex_queued :: async_state where
  "ex_queued = ex_async\<lparr>as_op := (\<lambda>p. zero_op)(4 := ex_op),
     as_workers := (replicate MAX_WORKERS idle_worker)[0 := idle_worker\<lparr>w_queue := \<lparr>aq_head = 4, aq_tail = 4, aq_count = 1, aq_lock = 1\<rparr>\<rparr>]\<rparr>"

lemma async_rep_queued: "async_rep ex_queued ((replicate MAX_WORKERS [])[0 := [4]])"
proof (rule async_rep_update[OF async_rep_ex])
  show "as_workers ex_queued = (as_workers ex_async)[0 := as_workers ex_queued ! 0]" by (simp add: ex_queued_def ex_async_def)
  show "set (concat ((replicate MAX_WORKERS [])[0 := [4]])) \<subseteq> {1..MAX_PENDING_OPS}"
    using set_concat_update[of 0 "replicate MAX_WORKERS []" "[4]" 4] by fastforce
  show "distinct (concat ((replicate MAX_WORKERS [])[0 := [4 :: nat]]))"
    using concat_update_snoc[of 0 "replicate MAX_WORKERS []" "4 :: nat"] by simp
qed (auto simp: ex_queued_def ex_op_def zero_op_def fifo_def)

lemma find_ex_op: "find_op (\<lambda>v. op_op_id v = 7 \<and> op_cancellable v) ex_queued = Some 4"
proof -
  have "[0..<4 + n] = [0, 1, 2, 3] @ [4..<4 + n]" for n using upt_add_eq_append[of 0 4 n] by (simp add: upt_rec)
  from this[of 1020] obtain ys where "[0..<MAX_PENDING_OPS] = [0, 1, 2, 3] @ ys" by fastforce
  then show ?thesis by (simp only: find_op_def) (simp add: ex_queued_def ex_op_def zero_op_def)
qed

section \<open>Properties\<close>



text \<open>C20: a migration submitted to an idle system and processed by a worker is \<open>lb_migrate_task\<close> on the state of the balancer, but
  counted twice: by the migration itself and by its callback.\<close>

theorem async_migration_end_to_end:
  assumes rep: "async_rep s (replicate MAX_WORKERS [])" and "as_initialized s" "pool_ok s" "0 < unat (as_num_workers s)"
    and "unat (as_num_workers s) \<le> MAX_WORKERS" "block \<noteq> NULL" "as_next_op_id s \<noteq> 0"
    and active: "\<forall>w < MAX_WORKERS. w_active (as_workers s ! w)"
    and mig: "lb_migrate_task tid src dst (as_lb s) = Some (True, lb)"
  shows "\<exists>w t u. lb_migrate_task_async block now tid src dst s = Some (True, t) \<and> process_worker w t = Some (True, u) \<and>
    as_lb u = upd_lb_stats (\<lambda>v. v\<lparr>ls_total_migrations := ls_total_migrations v + 1\<rparr>) lb \<and>
    ls_total_migrations (lb_stats (as_lb u)) = ls_total_migrations (lb_stats (as_lb s)) + 2 \<and>
    async_rep u (replicate MAX_WORKERS [])"
proof -
  let ?params = "Migration_Params \<lparr>mp_task_id = tid, mp_src_core = src, mp_dst_core = dst\<rparr>"
  have free: "next_slot s \<notin> set (concat (replicate MAX_WORKERS []))" by simp
  obtain w t where t: "async_submit block ASYNC_OP_TASK_MIGRATION (Some ?params) 12 Callback_Migration NULL (now + 1000) 8 s = Some (as_next_op_id s, t)"
    and w: "w < MAX_WORKERS" and rt: "async_rep t ((replicate MAX_WORKERS [])[w := [next_slot s]])"
    and op: "op_type (as_op t (next_slot s)) = ASYNC_OP_TASK_MIGRATION" "op_params (as_op t (next_slot s)) = Some ?params"
      "op_callback (as_op t (next_slot s)) = Callback_Migration"
    and lbt: "as_lb t = as_lb s" and act: "w_active (as_workers t ! w)"
    using async_submit_ok[OF assms(1-5) free assms(6), of 12 ASYNC_OP_TASK_MIGRATION ?params Callback_Migration NULL "now + 1000" 8] active
    by (fastforce simp: nth_replicate)
  have run: "run_handler (op_type (as_op t (next_slot s))) (op_params (as_op t (next_slot s))) (as_lb t) = Some (True, lb)"
    using op mig lbt by (simp add: run_handler_def handle_task_migration_def)
  have q: "(replicate MAX_WORKERS [])[w := [next_slot s]] ! w = next_slot s # []" using w by simp
  obtain u where u: "process_worker w t = Some (True, u)" "async_rep u ((replicate MAX_WORKERS [])[w := [next_slot s], w := []])"
    "as_lb u = run_async_callback Callback_Migration ASYNC_STATUS_COMPLETED lb"
    using process_worker_ok[OF rt w act q run refl] op(3) by auto
  have "(replicate MAX_WORKERS [])[w := [next_slot s], w := []] = replicate MAX_WORKERS []"
    using w list_update_id[of "replicate MAX_WORKERS []" w] by simp
  moreover have "ls_total_migrations (lb_stats lb) = ls_total_migrations (lb_stats (as_lb s)) + 1"
    using mig by (auto simp: lb_migrate_task_def Let_def split: if_splits)
  moreover have "lb_migrate_task_async block now tid src dst s = Some (True, t)"
    using t assms(7) by (simp add: lb_migrate_task_async_def)
  ultimately show ?thesis using u
    by (intro exI[of _ w] exI[of _ t] exI[of _ u]) (simp add: run_async_callback_def migration_complete_def add.assoc)
qed

theorem async_migration_end_to_end_witness:
  "\<exists>w t u. lb_migrate_task_async 1 0 1 0 1 ex_async = Some (True, t) \<and> process_worker w t = Some (True, u) \<and>
     ls_total_migrations (lb_stats (as_lb u)) = 2"
proof -
  have "\<exists>lb. lb_migrate_task 1 0 1 (as_lb ex_async) = Some (True, lb)"
    by (simp add: lb_migrate_task_def Let_def ex_async_def ex_lb_def ex_metrics_def)
  then obtain lb where "lb_migrate_task 1 0 1 (as_lb ex_async) = Some (True, lb)" ..
  from async_migration_end_to_end[OF async_rep_ex _ _ _ _ _ _ _ this, of 1 0] show ?thesis
    by (auto simp: ex_async_def ex_lb_def zero_lb_stats_def idle_worker_def)
qed

text \<open>Cancelling does not cancel: \<open>async_cancel\<close> returns true for a queued operation, but the worker that takes it from its
  queue behaves exactly as if it had not been cancelled.\<close>

theorem async_cancel_has_no_effect:
  assumes "async_rep s qs" "w < MAX_WORKERS" "qs ! w = p # ps" and active: "w_active (as_workers s ! w)"
    and "async_cancel (op_op_id (as_op s p)) s = Some (True, t)" "find_op (\<lambda>v. op_op_id v = op_op_id (as_op s p) \<and> op_cancellable v) s = Some p"
  shows "process_worker w t = process_worker w s"
proof -
  have p: "aq_head (w_queue (as_workers s ! w)) = p" "p \<noteq> NULL"
    using async_repD(1)[OF assms(1,2)] assms(3) by (auto simp: fifo_def)
  have t: "t = upd_op p (\<lambda>v. v\<lparr>op_status := ASYNC_STATUS_CANCELLED\<rparr>) s"
    using assms(5,6) by (auto simp: async_cancel_def split: if_splits)
  show ?thesis unfolding t using p active by (simp add: process_worker_def dequeue_op_def process_op_def Let_def)
qed

theorem async_cancel_has_no_effect_witness:
  "\<exists>t u. async_cancel 7 ex_queued = Some (True, t) \<and> process_worker 0 t = Some (True, u) \<and>
     lc_policy (lb_config (as_lb u)) = LB_POLICY_THERMAL_AWARE"
proof -
  have q: "(replicate MAX_WORKERS [])[0 := [4]] ! 0 = 4 # []" by simp
  have act: "w_active (as_workers ex_queued ! 0)" by (simp add: ex_queued_def idle_worker_def)
  have op: "as_op ex_queued 4 = ex_op" by (simp add: ex_queued_def)
  have f: "find_op (\<lambda>v. op_op_id v = op_op_id (as_op ex_queued 4) \<and> op_cancellable v) ex_queued = Some 4"
    using find_ex_op by (simp add: op ex_op_def)
  obtain t where t: "async_cancel (op_op_id (as_op ex_queued 4)) ex_queued = Some (True, t)"
    using f by (simp add: async_cancel_def ex_queued_def ex_async_def)
  have run: "run_handler (op_type (as_op ex_queued 4)) (op_params (as_op ex_queued 4)) (as_lb ex_queued) =
      Some (True, lb_adjust_policy LB_POLICY_THERMAL_AWARE ex_lb)"
    by (simp add: op ex_op_def run_handler_def handle_policy_change_def ex_queued_def ex_async_def)
  obtain u where u: "process_worker 0 ex_queued = Some (True, u)"
      "as_lb u = run_async_callback (op_callback (as_op ex_queued 4)) ASYNC_STATUS_COMPLETED (lb_adjust_policy LB_POLICY_THERMAL_AWARE ex_lb)"
    using process_worker_ok[OF async_rep_queued _ act q run refl] by auto
  have "process_worker 0 t = process_worker 0 ex_queued"
    by (rule async_cancel_has_no_effect[OF async_rep_queued _ q act t f]) simp
  then show ?thesis using t u
    by (auto simp: op ex_op_def zero_op_def run_async_callback_def lb_adjust_policy_def ex_lb_def ex_config_def)
qed

text \<open>C35: \<open>async_shutdown\<close> does not return: it joins the worker threads before it clears the flag their loop tests. A join is
  only assumed to return when the function of the thread returns.\<close>

theorem async_shutdown_hangs:
  assumes "\<And>p s t. thread_join p s = Some t \<Longrightarrow> async_process_ops s t"
    and "as_initialized s" "w < unat (as_num_workers s)" "unat (as_num_workers s) \<le> length (as_workers s)" "w_thread (as_workers s ! w) \<noteq> NULL"
  shows "async_shutdown thread_join s = None"
proof -
  have "\<exists>w \<in> set [0..<unat (as_num_workers s)]. w < length (as_workers s) \<and> w_thread (as_workers s ! w) \<noteq> NULL"
    using assms(3-5) by (intro bexI[of _ w]) auto
  then have "stop_workers thread_join [0..<unat (as_num_workers s)] s = None"
    using assms(1,2) async_process_ops_not_initialized by (intro stop_workers_None) blast+
  with assms(2) show ?thesis by (simp add: async_shutdown_def)
qed

theorem async_shutdown_hangs_witness:
  "async_shutdown (\<lambda>p s. if as_initialized s then None else Some s) ex_async = None"
  by (rule async_shutdown_hangs[of _ _ 0]) (auto simp: ex_async_def idle_worker_def intro: process_exit split: if_splits)

end
