(* ===== verification/Rtos_Core.thy ===== *)
theory Rtos_Core
  imports Linked_List
begin

text \<open>
  Model of \<open>mini_rtos/src/rtos_core.c\<close>: the heap with its first-fit allocator, the task list, the context switch and the
  tick counter of the core. The file defines a task control block, \<open>task_create\<close>, \<open>SysTick_Handler\<close>,
  \<open>PendSV_Handler\<close> and \<open>delay_ms\<close> of its own, which carry the prefix \<open>core\<close> here.

  The headers of the heap blocks are a memory of records at the addresses of the blocks; \<open>heap\<close> is the address of the array.
  A header takes 12 bytes, sizes are 32 bits wide and wrap. The functions the file calls and the repository does
  not define for this task structure (\<open>stack_init\<close>, \<open>scheduler_init\<close>, \<open>scheduler_start\<close>, \<open>scheduler_add_task\<close>,
  \<open>scheduler_switch_task\<close>) are fields of \<open>core_env\<close> and act on the scheduler's state.
\<close>

section \<open>Data\<close>

datatype core_task_state_t = CORE_TASK_READY | CORE_TASK_RUNNING | CORE_TASK_BLOCKED | CORE_TASK_SUSPENDED | CORE_TASK_DELETED

record core_tcb_t =
  ct_sp :: u32
  ct_stack_base :: addr
  ct_stack_size :: u32
  ct_task_func :: addr
  ct_arg :: addr
  ct_priority :: u8
  ct_state :: core_task_state_t
  ct_time_slice :: u32
  ct_ticks_remaining :: u32
  ct_next :: addr
  ct_prev :: addr
  ct_mutex_waiting :: addr
  ct_cpu_usage :: u32
  ct_stack_usage :: u32
  ct_name :: "u8 list"

record mem_block_t =
  mb_size :: u32
  mb_free :: bool
  mb_next :: addr

text \<open>The tasks are numbered from 1, so that 0 is the null pointer; \<open>rt_stack\<close> is the memory the stack pointer points into,
  \<open>rt_sp\<close> and \<open>rt_regs\<close> are the stack pointer and R4 to R11 of the processor.\<close>

record 'k rtos_t =
  rt_current_task :: addr
  rt_next_task :: addr
  rt_task_list :: "addr \<Rightarrow> core_tcb_t"
  rt_task_count :: u32
  rt_tick_count :: u32
  rt_heap :: addr
  rt_block :: "addr \<Rightarrow> mem_block_t"
  rt_free_list :: addr
  rt_stack :: "u32 \<Rightarrow> u32"
  rt_sp :: u32
  rt_regs :: "u32 list"
  rt_irq :: bool
  rt_sched :: 'k

record 'k core_env =
  ce_stack_init :: "core_tcb_t \<Rightarrow> core_tcb_t"
  ce_scheduler_init :: "'k \<Rightarrow> 'k"
  ce_scheduler_start :: "'k \<Rightarrow> 'k"
  ce_scheduler_add_task :: "addr \<Rightarrow> 'k \<Rightarrow> 'k"
  ce_scheduler_switch_task :: "'k \<Rightarrow> 'k"

abbreviation (input) HEAP_SIZE :: nat where "HEAP_SIZE \<equiv> 4096"
abbreviation (input) MIN_BLOCK_SIZE :: u32 where "MIN_BLOCK_SIZE \<equiv> 16"
abbreviation (input) SIZEOF_MEM_BLOCK :: nat where "SIZEOF_MEM_BLOCK \<equiv> 12"
abbreviation (input) CORE_MAX_TASKS :: nat where "CORE_MAX_TASKS \<equiv> 8"
abbreviation (input) CORE_STACK_SIZE :: u32 where "CORE_STACK_SIZE \<equiv> 256"

section \<open>The heap\<close>

definition memory_init :: "'k rtos_t \<Rightarrow> 'k rtos_t" where
  "memory_init s =
     s\<lparr>rt_free_list := rt_heap s,
       rt_block := (rt_block s)(rt_heap s := \<lparr>mb_size = of_nat HEAP_SIZE, mb_free = True, mb_next = NULL\<rparr>)\<rparr>"

text \<open>Taking a block: it is split when the rest is big enough for a header and the minimal size.\<close>

definition take_block :: "u32 \<Rightarrow> addr \<Rightarrow> (addr \<Rightarrow> mem_block_t) \<Rightarrow> addr \<Rightarrow> mem_block_t" where
  "take_block sz block m =
     (let m = (if mb_size (m block) \<ge> sz + of_nat SIZEOF_MEM_BLOCK + MIN_BLOCK_SIZE then
                 let new_block = block + unat sz in
                 m(new_block := \<lparr>mb_size = mb_size (m block) - sz, mb_free = True, mb_next = mb_next (m block)\<rparr>,
                   block := (m block)\<lparr>mb_size := sz, mb_next := new_block\<rparr>)
               else m)
      in m(block := (m block)\<lparr>mb_free := False\<rparr>))"

partial_function (option) malloc_loop :: "u32 \<Rightarrow> addr \<Rightarrow> (addr \<Rightarrow> mem_block_t) \<Rightarrow> (addr \<times> (addr \<Rightarrow> mem_block_t)) option" where
  "malloc_loop sz block m =
     (if block = NULL then Some (NULL, m)
      else if mb_free (m block) \<and> mb_size (m block) \<ge> sz then Some (block + SIZEOF_MEM_BLOCK, take_block sz block m)
      else malloc_loop sz (mb_next (m block)) m)"

definition malloc_size :: "u32 \<Rightarrow> u32" where
  "malloc_size sz = ((sz + 3) AND NOT 3) + of_nat SIZEOF_MEM_BLOCK"

definition rtos_malloc :: "u32 \<Rightarrow> 'k rtos_t \<Rightarrow> (addr \<times> 'k rtos_t) option" where
  "rtos_malloc sz s =
     map_option (\<lambda>(p, m). (p, s\<lparr>rt_block := m\<rparr>)) (malloc_loop (malloc_size sz) (rt_free_list s) (rt_block s))"

section \<open>Tasks\<close>

definition find_deleted :: "'k rtos_t \<Rightarrow> addr" where
  "find_deleted s = (case find (\<lambda>p. ct_state (rt_task_list s p) = CORE_TASK_DELETED) [1..<Suc CORE_MAX_TASKS] of
     None \<Rightarrow> NULL | Some p \<Rightarrow> p)"

text \<open>\<open>strncpy(task->name, name, 15)\<close> with a final zero.\<close>

definition core_name :: "u8 list \<Rightarrow> u8 list" where
  "core_name name = take 15 (takeWhile (\<lambda>b. b \<noteq> 0) name @ replicate 15 0) @ [0]"

definition core_task_create :: "'k core_env \<Rightarrow> u8 list \<Rightarrow> addr \<Rightarrow> addr \<Rightarrow> u8 \<Rightarrow> u32 \<Rightarrow> 'k rtos_t \<Rightarrow> (addr \<times> 'k rtos_t) option" where
  "core_task_create e name func arg priority stack_size s =
     (if rt_task_count s \<ge> of_nat CORE_MAX_TASKS then Some (NULL, s)
      else let task = find_deleted s in
        if task = NULL then Some (NULL, s)
        else Option.bind (rtos_malloc (stack_size * 4) s) (\<lambda>(base, s).
          let tcb = (rt_task_list s task)\<lparr>ct_stack_base := base\<rparr>;
              s = s\<lparr>rt_task_list := (rt_task_list s)(task := tcb)\<rparr> in
          if base = NULL then Some (NULL, s)
          else
            let tcb = ce_stack_init e (tcb\<lparr>ct_name := core_name name, ct_task_func := func, ct_arg := arg,
                        ct_priority := priority, ct_state := CORE_TASK_READY, ct_stack_size := stack_size\<rparr>)
            in Some (task, s\<lparr>rt_task_list := (rt_task_list s)(task := tcb), rt_sched := ce_scheduler_add_task e task (rt_sched s),
                             rt_task_count := rt_task_count s + 1\<rparr>)))"

text \<open>\<open>idle\<close> is the address of the idle task; the configuration of the system timer is left out.\<close>

definition rtos_init :: "'k core_env \<Rightarrow> addr \<Rightarrow> 'k rtos_t \<Rightarrow> 'k rtos_t option" where
  "rtos_init e idle s =
     (let s = memory_init s; s = s\<lparr>rt_sched := ce_scheduler_init e (rt_sched s)\<rparr>
      in map_option snd (core_task_create e [105, 100, 108, 101] idle NULL 0 CORE_STACK_SIZE s))"

text \<open>Up to the endless loop after the scheduler has been started.\<close>

definition rtos_start :: "'k core_env \<Rightarrow> 'k rtos_t \<Rightarrow> 'k rtos_t" where
  "rtos_start e s = s\<lparr>rt_irq := True, rt_sched := ce_scheduler_start e (rt_sched s)\<rparr>"

section \<open>Interrupts and time\<close>

definition push_regs :: "u32 list \<Rightarrow> u32 \<Rightarrow> (u32 \<Rightarrow> u32) \<Rightarrow> (u32 \<Rightarrow> u32)" where
  "push_regs regs sp mem = fold (\<lambda>i mem. mem(sp + 4 * of_nat i := regs ! i)) [0..<8] mem"

definition pop_regs :: "u32 \<Rightarrow> (u32 \<Rightarrow> u32) \<Rightarrow> u32 list" where
  "pop_regs sp mem = map (\<lambda>i. mem (sp + 4 * of_nat i)) [0..<8]"

text \<open>The assembly: push R4 to R11, save the stack pointer in the first word of the current task (its \<open>sp\<close>), make the next
  task current, load its stack pointer, pop the registers.\<close>

definition core_PendSV_Handler :: "'k rtos_t \<Rightarrow> 'k rtos_t option" where
  "core_PendSV_Handler s =
     (let sp = rt_sp s - 32; mem = push_regs (rt_regs s) sp (rt_stack s) in
      if rt_current_task s = NULL \<or> rt_next_task s = NULL then None
      else
        let tasks = (rt_task_list s)(rt_current_task s := (rt_task_list s (rt_current_task s))\<lparr>ct_sp := sp\<rparr>);
            sp = ct_sp (tasks (rt_next_task s))
        in Some (s\<lparr>rt_stack := mem, rt_task_list := tasks, rt_current_task := rt_next_task s,
                   rt_regs := pop_regs sp mem, rt_sp := sp + 32, rt_irq := True\<rparr>))"

definition core_SysTick_Handler :: "'k core_env \<Rightarrow> 'k rtos_t \<Rightarrow> 'k rtos_t" where
  "core_SysTick_Handler e s =
     s\<lparr>rt_tick_count := rt_tick_count s + 1, rt_sched := ce_scheduler_switch_task e (rt_sched s)\<rparr>"

definition core_get_tick_count :: "'k rtos_t \<Rightarrow> u32" where
  "core_get_tick_count s = rt_tick_count s"

definition core_enter_critical :: "'k rtos_t \<Rightarrow> 'k rtos_t" where
  "core_enter_critical s = s\<lparr>rt_irq := False\<rparr>"

definition core_exit_critical :: "'k rtos_t \<Rightarrow> 'k rtos_t" where
  "core_exit_critical s = s\<lparr>rt_irq := True\<rparr>"

text \<open>\<open>ticks n\<close> is the tick count the \<open>n\<close>-th test of the loop reads, after \<open>n\<close> calls of \<open>task_yield\<close>; the result is the
  number of calls.\<close>

partial_function (option) core_delay_loop :: "(nat \<Rightarrow> u32) \<Rightarrow> u32 \<Rightarrow> u32 \<Rightarrow> nat \<Rightarrow> nat option" where
  "core_delay_loop ticks start ms n = (if ticks n - start < ms then core_delay_loop ticks start ms (Suc n) else Some n)"

definition core_delay_ms :: "u32 \<Rightarrow> (nat \<Rightarrow> u32) \<Rightarrow> u32 \<Rightarrow> nat option" where
  "core_delay_ms start ticks ms = core_delay_loop ticks start ms 0"

declare malloc_loop.simps [code] core_delay_loop.simps [code]

end
