(* ===== verification/Rtos_Core_Spec.thy ===== *)
theory Rtos_Core_Spec
  imports Rtos_Core
begin

text \<open>
  The first-fit allocator of \<^verbatim>\<open>rtos_core.c\<close>: the headers in the heap as a list of blocks that
  tile it, the property of \<^verbatim>\<open>rtos_malloc\<close> over that list, and the context switch and the
  creation of tasks.
\<close>

section \<open>The blocks of the heap\<close>

text \<open>The blocks \<open>bs\<close> follow one another from \<open>p\<close> to \<open>e\<close> without gap or overlap.\<close>

fun tiles :: "(addr \<Rightarrow> mem_block_t) \<Rightarrow> addr \<Rightarrow> addr list \<Rightarrow> addr \<Rightarrow> bool" where
  "tiles m p [] e \<longleftrightarrow> p = e"
| "tiles m p (b # bs) e \<longleftrightarrow> b = p \<and> SIZEOF_MEM_BLOCK \<le> unat (mb_size (m b)) \<and> tiles m (p + unat (mb_size (m b))) bs e"

definition heap_rep :: "'k rtos_t \<Rightarrow> addr list \<Rightarrow> bool" where
  "heap_rep s bs \<longleftrightarrow> rt_heap s \<noteq> NULL \<and> chain (\<lambda>p. mb_next (rt_block s p)) (rt_free_list s) bs \<and>
     tiles (rt_block s) (rt_heap s) bs (rt_heap s + HEAP_SIZE)"







section \<open>First fit\<close>



lemma heap_rep_memory_init: "rt_heap s \<noteq> NULL \<Longrightarrow> heap_rep (memory_init s) [rt_heap s]"
  by (simp add: heap_rep_def memory_init_def)



section \<open>The context switch\<close>

lemma push_pop_regs: "length regs = 8 \<Longrightarrow> pop_regs sp (push_regs regs sp mem) = regs"
proof -
  assume l: "length regs = 8"
  have u: "[0..<8] = [0, 1, 2, 3, 4, 5, 6, 7 :: nat]" by (simp add: upt_rec)
  have "pop_regs sp (push_regs regs sp mem) = map (\<lambda>i. regs ! i) [0..<8]" unfolding pop_regs_def push_regs_def u by simp
  with l show ?thesis by (metis map_nth)
qed

lemma push_regs_other: "\<forall>i < 8. a \<noteq> sp + 4 * of_nat i \<Longrightarrow> push_regs regs sp mem a = mem a"
proof -
  have "\<forall>i \<in> set is. a \<noteq> sp + 4 * of_nat i \<Longrightarrow> fold (\<lambda>i mem. mem(sp + 4 * of_nat i := regs ! i)) is mem a = mem a" for "is"
    by (induction "is" arbitrary: mem) auto
  then show "\<forall>i < 8. a \<noteq> sp + 4 * of_nat i \<Longrightarrow> ?thesis" by (simp add: push_regs_def)
qed

text \<open>A task that is switched out and back in has its registers and its stack pointer again, when the other task saves its registers
  in words of its own.\<close>

lemma core_PendSV_Handler_roundtrip:
  assumes "rt_current_task s = a" "rt_next_task s = b" "a \<noteq> b" "a \<noteq> NULL" "b \<noteq> NULL" "length (rt_regs s) = 8"
    and sep: "\<forall>i < 8. \<forall>j < 8. rt_sp s - 32 + 4 * of_nat i \<noteq> ct_sp (rt_task_list s b) + 4 * (of_nat j :: u32)"
  shows "\<exists>t u. core_PendSV_Handler s = Some t \<and> rt_current_task t = b \<and> core_PendSV_Handler (t\<lparr>rt_next_task := a\<rparr>) = Some u \<and>
    rt_current_task u = a \<and> rt_regs u = rt_regs s \<and> rt_sp u = rt_sp s"
proof -
  let ?sp = "rt_sp s - 32" and ?spb = "ct_sp (rt_task_list s b)"
  have keep: "pop_regs ?sp (push_regs regs ?spb (push_regs (rt_regs s) ?sp (rt_stack s))) = rt_regs s" for regs
  proof -
    have "pop_regs ?sp (push_regs regs ?spb mem) = pop_regs ?sp mem" for mem
      using sep by (auto simp: pop_regs_def intro!: push_regs_other)
    then show ?thesis using push_pop_regs assms(6) by simp
  qed
  show ?thesis using assms(1-5) keep by (simp add: core_PendSV_Handler_def Let_def)
qed

section \<open>Tasks\<close>

text \<open>In the zeroed task list every task is ready, none deleted: no task can be created.\<close>

lemma core_task_create_fails:
  assumes "\<forall>p. ct_state (rt_task_list s p) = CORE_TASK_READY"
  shows "core_task_create e name func arg priority stack_size s = Some (NULL, s)"
proof -
  have "find (\<lambda>p. ct_state (rt_task_list s p) = CORE_TASK_DELETED) ps = None" for ps
    using assms by (simp add: find_None_iff)
  then show ?thesis by (simp add: core_task_create_def find_deleted_def)
qed

text \<open>A request of more than \<open>2 ^ 32 - 4\<close> bytes wraps to nothing: a new heap grants it with the header only.\<close>

lemma rtos_malloc_wraps:
  assumes "rt_heap s \<noteq> NULL"
  shows "\<exists>t. rtos_malloc UINT32_MAX (memory_init s) = Some (rt_heap s + SIZEOF_MEM_BLOCK, t) \<and> unat (mb_size (rt_block t (rt_heap s))) = SIZEOF_MEM_BLOCK"
proof -
  have "malloc_size UINT32_MAX = 12" by (simp add: malloc_size_def)
  with assms show ?thesis
    by (simp add: rtos_malloc_def memory_init_def take_block_def Let_def malloc_loop.simps)
qed

section \<open>Properties\<close>





end
