(* ===== verification/Memory_Order.thy ===== *)
theory Memory_Order
  imports Simulation
begin

text \<open>
  Model of \<open>mini_rtos/src/memory_order.c\<close>: loads, stores, compare-and-exchange, fetch-and-add on cells of the types of
  \<open>memory_order.h\<close>, and the maintenance of cache ranges.

  A function that makes one access returns the list of its actions, barriers included. The compare-and-exchange
  of this file is not one instruction but a load, a test and a store; the functions that other threads can interrupt are therefore
  also given as a machine, \<open>atomic_step\<close>, in which every access to the cell is a step of the thread that makes it.
\<close>

section \<open>Memory orders\<close>

datatype memory_order_t = MEMORY_ORDER_RELAXED | MEMORY_ORDER_CONSUME | MEMORY_ORDER_ACQUIRE | MEMORY_ORDER_RELEASE
  | MEMORY_ORDER_ACQ_REL | MEMORY_ORDER_SEQ_CST

text \<open>The values of the enumeration, by which the source compares orders.\<close>

fun order_value :: "memory_order_t \<Rightarrow> nat" where
  "order_value MEMORY_ORDER_RELAXED = 0"
| "order_value MEMORY_ORDER_CONSUME = 1"
| "order_value MEMORY_ORDER_ACQUIRE = 2"
| "order_value MEMORY_ORDER_RELEASE = 3"
| "order_value MEMORY_ORDER_ACQ_REL = 4"
| "order_value MEMORY_ORDER_SEQ_CST = 5"

instantiation memory_order_t :: linorder
begin

definition less_eq_memory_order_t :: "memory_order_t \<Rightarrow> memory_order_t \<Rightarrow> bool" where
  "less_eq_memory_order_t a b \<longleftrightarrow> order_value a \<le> order_value b"

definition less_memory_order_t :: "memory_order_t \<Rightarrow> memory_order_t \<Rightarrow> bool" where
  "less_memory_order_t a b \<longleftrightarrow> order_value a < order_value b"

instance
proof
  fix x y :: memory_order_t
  show "x = y" if "x \<le> y" "y \<le> x"
    using that by (cases x; cases y; simp add: less_eq_memory_order_t_def)
qed (auto simp: less_eq_memory_order_t_def less_memory_order_t_def)

end

lemmas order_simps = less_eq_memory_order_t_def less_memory_order_t_def

text \<open>The barrier instructions behind \<open>MEMORY_BARRIER_ACQUIRE\<close> (and \<open>FULL\<close>) and \<open>MEMORY_BARRIER_RELEASE\<close>, and the
  accesses to the cell.\<close>

datatype 'v access = DMB_ISH | DMB_ISHST | Load_Cell | Store_Cell 'v

definition memory_fence_acquire :: "'v access list" where "memory_fence_acquire = [DMB_ISH]"
definition memory_fence_release :: "'v access list" where "memory_fence_release = [DMB_ISHST]"
definition memory_fence_full :: "'v access list" where "memory_fence_full = [DMB_ISH]"

section \<open>Loads and stores\<close>

definition atomic_load_explicit_u32 :: "memory_order_t \<Rightarrow> u32 access list" where
  "atomic_load_explicit_u32 order =
     Load_Cell # (if order \<in> {MEMORY_ORDER_ACQUIRE, MEMORY_ORDER_ACQ_REL, MEMORY_ORDER_SEQ_CST} then [DMB_ISH] else [])"

definition atomic_load_explicit_u64 :: "memory_order_t \<Rightarrow> u64 access list" where
  "atomic_load_explicit_u64 order =
     Load_Cell # (if order \<in> {MEMORY_ORDER_ACQUIRE, MEMORY_ORDER_ACQ_REL, MEMORY_ORDER_SEQ_CST} then [DMB_ISH] else [])"

definition atomic_load_explicit_ptr :: "memory_order_t \<Rightarrow> addr access list" where
  "atomic_load_explicit_ptr order =
     Load_Cell # (if order \<in> {MEMORY_ORDER_ACQUIRE, MEMORY_ORDER_ACQ_REL, MEMORY_ORDER_SEQ_CST} then [DMB_ISH] else [])"

definition atomic_store_explicit_u32 :: "u32 \<Rightarrow> memory_order_t \<Rightarrow> u32 access list" where
  "atomic_store_explicit_u32 val order =
     (if order \<in> {MEMORY_ORDER_RELEASE, MEMORY_ORDER_ACQ_REL, MEMORY_ORDER_SEQ_CST} then [DMB_ISHST] else []) @
     Store_Cell val # (if order = MEMORY_ORDER_SEQ_CST then [DMB_ISH] else [])"

definition atomic_store_explicit_u64 :: "u64 \<Rightarrow> memory_order_t \<Rightarrow> u64 access list" where
  "atomic_store_explicit_u64 val order =
     (if order \<in> {MEMORY_ORDER_RELEASE, MEMORY_ORDER_ACQ_REL, MEMORY_ORDER_SEQ_CST} then [DMB_ISHST] else []) @
     Store_Cell val # (if order = MEMORY_ORDER_SEQ_CST then [DMB_ISH] else [])"

definition atomic_store_explicit_ptr :: "addr \<Rightarrow> memory_order_t \<Rightarrow> addr access list" where
  "atomic_store_explicit_ptr val order =
     (if order \<in> {MEMORY_ORDER_RELEASE, MEMORY_ORDER_ACQ_REL, MEMORY_ORDER_SEQ_CST} then [DMB_ISHST] else []) @
     Store_Cell val # (if order = MEMORY_ORDER_SEQ_CST then [DMB_ISH] else [])"

section \<open>Compare-and-exchange and fetch-and-add\<close>

text \<open>Undisturbed: the result, the value left in \<open>*expected\<close> and the actions, for a cell that holds \<open>current\<close>.\<close>

definition atomic_compare_exchange_strong_explicit_u32 ::
    "u32 \<Rightarrow> u32 \<Rightarrow> u32 \<Rightarrow> memory_order_t \<Rightarrow> memory_order_t \<Rightarrow> bool \<times> u32 \<times> u32 access list" where
  "atomic_compare_exchange_strong_explicit_u32 current expected desired success_order failure_order =
     (let success = (current = expected) in
      (success, if success then expected else current,
       (if success_order \<ge> MEMORY_ORDER_ACQUIRE \<or> failure_order \<ge> MEMORY_ORDER_ACQUIRE then [DMB_ISH] else []) @
       Load_Cell # (if success then [Store_Cell desired] else []) @
       (if success \<and> success_order \<ge> MEMORY_ORDER_RELEASE then [DMB_ISHST] else []) @
       (if success \<and> success_order = MEMORY_ORDER_SEQ_CST \<or> \<not> success \<and> failure_order = MEMORY_ORDER_SEQ_CST
        then [DMB_ISH] else [])))"

text \<open>Where a thread is in a fetch-and-add or fetch-and-subtract: before the load of the loop body, before the load of the
  compare-and-exchange, before its store, returned. \<open>new_val\<close> is \<open>f old_val\<close>.\<close>

datatype fetch_pc = F_load "u32 \<Rightarrow> u32" | F_compare "u32 \<Rightarrow> u32" u32 | F_store "u32 \<Rightarrow> u32" u32 | F_done u32

record atomic_mem =
  am_value :: u32
  am_pc :: "tid \<Rightarrow> fetch_pc"

definition atomic_fetch_add_explicit_u32 :: "tid \<Rightarrow> u32 \<Rightarrow> atomic_mem \<Rightarrow> atomic_mem" where
  "atomic_fetch_add_explicit_u32 t val s = s\<lparr>am_pc := (am_pc s)(t := F_load (\<lambda>old_val. old_val + val))\<rparr>"

definition atomic_fetch_sub_explicit_u32 :: "tid \<Rightarrow> u32 \<Rightarrow> atomic_mem \<Rightarrow> atomic_mem" where
  "atomic_fetch_sub_explicit_u32 t val s = s\<lparr>am_pc := (am_pc s)(t := F_load (\<lambda>old_val. old_val - val))\<rparr>"

text \<open>A failing compare-and-exchange writes \<open>old_val\<close>, which the next round of the loop overwrites.\<close>

definition atomic_step :: "tid \<Rightarrow> atomic_mem \<Rightarrow> atomic_mem" where
  "atomic_step t s =
     (case am_pc s t of
        F_load f \<Rightarrow> s\<lparr>am_pc := (am_pc s)(t := F_compare f (am_value s))\<rparr>
      | F_compare f old_val \<Rightarrow>
          s\<lparr>am_pc := (am_pc s)(t := if am_value s = old_val then F_store f old_val else F_load f)\<rparr>
      | F_store f old_val \<Rightarrow> s\<lparr>am_value := f old_val, am_pc := (am_pc s)(t := F_done old_val)\<rparr>
      | F_done old_val \<Rightarrow> s)"

fun run_atomic :: "tid list \<Rightarrow> atomic_mem \<Rightarrow> atomic_mem" where
  "run_atomic [] s = s"
| "run_atomic (t # ts) s = run_atomic ts (atomic_step t s)"

section \<open>Cache maintenance\<close>

text \<open>The addresses the loop \<open>for (size_t i = 0; i < size; i += CACHE_LINE_SIZE)\<close> passes to the instruction.\<close>

abbreviation (input) CACHE_LINE_SIZE :: u64 where "CACHE_LINE_SIZE \<equiv> 64"

datatype cache_op = DC_CIVAC u64 | DC_IVAC u64 | DC_CVAC u64 | DSB_ISH

partial_function (option) cache_lines :: "u64 \<Rightarrow> u64 \<Rightarrow> u64 \<Rightarrow> u64 list option" where
  "cache_lines a sz i = (if i < sz then Option.bind (cache_lines a sz (i + CACHE_LINE_SIZE)) (\<lambda>xs. Some ((a + i) # xs)) else Some [])"

definition cache_flush_range :: "u64 \<Rightarrow> u64 \<Rightarrow> cache_op list option" where
  "cache_flush_range a sz = map_option (\<lambda>xs. map DC_CIVAC xs @ [DSB_ISH]) (cache_lines a sz 0)"

definition cache_invalidate_range :: "u64 \<Rightarrow> u64 \<Rightarrow> cache_op list option" where
  "cache_invalidate_range a sz = map_option (\<lambda>xs. map DC_IVAC xs @ [DSB_ISH]) (cache_lines a sz 0)"

definition cache_clean_range :: "u64 \<Rightarrow> u64 \<Rightarrow> cache_op list option" where
  "cache_clean_range a sz = map_option (\<lambda>xs. map DC_CVAC xs @ [DSB_ISH]) (cache_lines a sz 0)"

declare cache_lines.simps [code]

section \<open>One thread\<close>

text \<open>A thread that is not interrupted adds and returns the old value, in three accesses.\<close>

lemma fetch_alone:
  "am_pc s t = F_load f \<Longrightarrow>
   run_atomic [t, t, t] s = s\<lparr>am_value := f (am_value s), am_pc := (am_pc s)(t := F_done (am_value s))\<rparr>"
  by (simp add: atomic_step_def)

text \<open>A store to the cell between the two loads is noticed, and the loop starts again.\<close>

lemma fetch_retries:
  "am_pc s t = F_load f \<Longrightarrow> v \<noteq> am_value s \<Longrightarrow>
   am_pc (atomic_step t ((atomic_step t s)\<lparr>am_value := v\<rparr>)) t = F_load f"
  by (simp add: atomic_step_def)

text \<open>The lines of a range: every byte is in one of them.\<close>

lemma cache_lines_all:
  assumes "unat sz + 64 < 2 ^ 64"
  shows "unat i mod 64 = 0 \<Longrightarrow> unat i \<le> unat sz + 63 \<Longrightarrow>
    cache_lines a sz i = Some (map (\<lambda>k. a + of_nat (unat i + 64 * k)) [0..<(unat sz + 63 - unat i) div 64])"
proof (induction "unat sz + 63 - unat i" arbitrary: i rule: less_induct)
  case less
  show ?case
  proof (cases "i < sz")
    case False
    then have "(unat sz + 63 - unat i) div 64 = 0" by (auto simp: word_less_nat_alt not_less)
    with False show ?thesis by (subst cache_lines.simps) simp
  next
    case True
    then have lt: "unat i < unat sz" by (simp add: word_less_nat_alt)
    have u: "unat (i + 64) = unat i + 64" using assms lt by (simp add: unat_plus_if')
    have m: "(unat i + 64) mod 64 = 0" using less.prems(1) by (simp add: mod_add_self2)
    have "cache_lines a sz (i + 64) = Some (map (\<lambda>k. a + of_nat (unat (i + 64) + 64 * k)) [0..<(unat sz + 63 - unat (i + 64)) div 64])"
      using less.prems lt u m by (intro less.hyps) auto
    moreover have n: "(unat sz + 63 - unat i) div 64 = Suc ((unat sz + 63 - (unat i + 64)) div 64)" if "unat i + 64 \<le> unat sz + 63"
      using that by (simp add: div_if[of "unat sz + 63 - unat i"])
    moreover have "unat i + 64 \<le> unat sz + 63" using lt by simp
    ultimately show ?thesis using True lt
      by (subst cache_lines.simps) (simp add: u n upt_conv_Cons map_Suc_upt[symmetric] algebra_simps del: upt_Suc)
  qed
qed

section \<open>Two threads\<close>

text \<open>C38: \<open>atomic_fetch_add_explicit_u32\<close> is not atomic: two threads that add to the same cell at the same time may both return
  the value it had before, and one of the additions is lost.\<close>

theorem atomic_fetch_add_loses_update:
  assumes "t \<noteq> u"
  shows "\<exists>ts. set ts \<subseteq> {t, u} \<and> (let r = run_atomic ts (atomic_fetch_add_explicit_u32 t a (atomic_fetch_add_explicit_u32 u b s)) in
    am_pc r t = F_done (am_value s) \<and> am_pc r u = F_done (am_value s) \<and> am_value r = am_value s + b)"
proof (rule exI[of _ "[t, t, u, u, t, u]"])
  show "set [t, t, u, u, t, u] \<subseteq> {t, u} \<and> (let r = run_atomic [t, t, u, u, t, u] (atomic_fetch_add_explicit_u32 t a (atomic_fetch_add_explicit_u32 u b s)) in
    am_pc r t = F_done (am_value s) \<and> am_pc r u = F_done (am_value s) \<and> am_value r = am_value s + b)"
    using assms by (simp add: atomic_fetch_add_explicit_u32_def atomic_step_def Let_def)
qed

theorem atomic_fetch_add_loses_update_witness:
  "\<exists>ts. set ts \<subseteq> {0, 1} \<and>
     am_value (run_atomic ts (atomic_fetch_add_explicit_u32 0 1 (atomic_fetch_add_explicit_u32 1 1 \<lparr>am_value = 41, am_pc = (\<lambda>_. F_done 0)\<rparr>))) = 42"
  using atomic_fetch_add_loses_update[of 0 1 1 1 "\<lparr>am_value = 41, am_pc = (\<lambda>_. F_done 0)\<rparr>"] by (auto simp: Let_def)

end
