(* ===== verification/Spinlock.thy ===== *)
theory Spinlock
  imports Simulation
begin

text \<open>
  Model of \<open>spinlock.c\<close>: the test-and-set lock, the reader-writer lock and the ticket lock. Threads run at the same time; a thread's
  program counter tells where it is, and every access to the lock is one step of the step relation, labelled with the
  thread. The interlocked operations of Windows are atomic; \<open>cpu_relax\<close> and the memory barriers have no effect in a sequentially consistent
  memory. The sections of the reader-writer lock run under its internal test-and-set lock, of which every access is a step as well; the
  test of a section and its assignments are one step each.
\<close>

section \<open>The test-and-set lock\<close>

text \<open>Outside, before the exchange, in the inner waiting loop, inside; \<open>SL_maybe\<close> is before the exchange of \<open>spin_trylock\<close>.\<close>

datatype spin_pc = SL_out | SL_exchange | SL_wait | SL_in | SL_maybe

record spin_sys =
  sl_lock :: u32
  sl_pc :: "tid \<Rightarrow> spin_pc"

abbreviation at_sl :: "tid \<Rightarrow> spin_pc \<Rightarrow> spin_sys \<Rightarrow> spin_sys" where
  "at_sl t p s \<equiv> s\<lparr>sl_pc := (sl_pc s)(t := p)\<rparr>"

definition spin_lock_init :: "spin_sys \<Rightarrow> spin_sys" where
  "spin_lock_init s = s\<lparr>sl_lock := 0\<rparr>"

definition spin_is_locked :: "spin_sys \<Rightarrow> bool" where
  "spin_is_locked s \<longleftrightarrow> sl_lock s \<noteq> 0"

inductive spin_step :: "spin_sys \<Rightarrow> tid \<Rightarrow> spin_sys \<Rightarrow> bool" where
  spin_lock_call: "sl_pc s t = SL_out \<Longrightarrow> spin_step s t (at_sl t SL_exchange s)"
| spin_lock_exchange: "sl_pc s t = SL_exchange \<Longrightarrow>
    spin_step s t (at_sl t (if sl_lock s = 0 then SL_in else SL_wait) (s\<lparr>sl_lock := 1\<rparr>))"
| spin_lock_wait: "sl_pc s t = SL_wait \<Longrightarrow> spin_step s t (at_sl t (if sl_lock s \<noteq> 0 then SL_wait else SL_exchange) s)"
| spin_unlock: "sl_pc s t = SL_in \<Longrightarrow> spin_step s t (at_sl t SL_out (s\<lparr>sl_lock := 0\<rparr>))"
| spin_trylock_call: "sl_pc s t = SL_out \<Longrightarrow> spin_step s t (at_sl t SL_maybe s)"
| spin_trylock: "sl_pc s t = SL_maybe \<Longrightarrow>
    spin_step s t (at_sl t (if sl_lock s = 0 then SL_in else SL_out) (s\<lparr>sl_lock := 1\<rparr>))"

section \<open>The reader-writer lock\<close>

text \<open>The sections of the reader-writer lock between \<open>spin_lock\<close> and \<open>spin_unlock\<close> of its internal lock. \<open>Write_Announce\<close> is
  the first section of \<open>rwspin_write_lock\<close>, \<open>Write_Lock\<close> the body of its loop.\<close>

datatype rw_section = Read_Lock | Read_Unlock | Write_Announce | Write_Lock | Write_Unlock | Try_Read | Try_Write

text \<open>Outside, reading or writing; in \<open>spin_lock\<close> before a section (before the exchange, in the waiting loop); before the test of the
  section, before its assignments, before \<open>spin_unlock\<close>, with the result of the test.\<close>

datatype rw_pc = RW_out | RW_reading | RW_writing
  | RW_exchange rw_section | RW_spin rw_section
  | RW_test rw_section | RW_update rw_section | RW_release rw_section bool

record rwspinlock_t =
  rw_readers :: u32
  rw_writers :: u32
  rw_is_writing :: bool
  rw_lock :: u32
  rw_pc :: "tid \<Rightarrow> rw_pc"

abbreviation at_rw :: "tid \<Rightarrow> rw_pc \<Rightarrow> rwspinlock_t \<Rightarrow> rwspinlock_t" where
  "at_rw t p s \<equiv> s\<lparr>rw_pc := (rw_pc s)(t := p)\<rparr>"

definition rwspin_lock_init :: "rwspinlock_t \<Rightarrow> rwspinlock_t" where
  "rwspin_lock_init s = s\<lparr>rw_readers := 0, rw_writers := 0, rw_is_writing := False, rw_lock := 0\<rparr>"

text \<open>The condition of the section, its assignments, and where the call continues after \<open>spin_unlock\<close>: the loops of
  \<open>rwspin_read_lock\<close> and \<open>rwspin_write_lock\<close> start again when the condition fails, the trying operations return.\<close>

fun rw_condition :: "rw_section \<Rightarrow> rwspinlock_t \<Rightarrow> bool" where
  "rw_condition Read_Lock s = (\<not> rw_is_writing s \<and> rw_writers s = 0)"
| "rw_condition Try_Read s = (\<not> rw_is_writing s \<and> rw_writers s = 0)"
| "rw_condition Write_Lock s = (\<not> rw_is_writing s \<and> rw_readers s = 0)"
| "rw_condition Try_Write s = (\<not> rw_is_writing s \<and> rw_readers s = 0)"
| "rw_condition _ s = True"

fun rw_assign :: "rw_section \<Rightarrow> rwspinlock_t \<Rightarrow> rwspinlock_t" where
  "rw_assign Read_Lock s = s\<lparr>rw_readers := rw_readers s + 1\<rparr>"
| "rw_assign Read_Unlock s = s\<lparr>rw_readers := rw_readers s - 1\<rparr>"
| "rw_assign Write_Announce s = s\<lparr>rw_writers := rw_writers s + 1\<rparr>"
| "rw_assign Write_Lock s = s\<lparr>rw_is_writing := True\<rparr>"
| "rw_assign Write_Unlock s = s\<lparr>rw_is_writing := False, rw_writers := rw_writers s - 1\<rparr>"
| "rw_assign Try_Read s = s\<lparr>rw_readers := rw_readers s + 1\<rparr>"
| "rw_assign Try_Write s = s\<lparr>rw_is_writing := True, rw_writers := rw_writers s + 1\<rparr>"

fun rw_continue :: "rw_section \<Rightarrow> bool \<Rightarrow> rw_pc" where
  "rw_continue Read_Lock ok = (if ok then RW_reading else RW_exchange Read_Lock)"
| "rw_continue Read_Unlock ok = RW_out"
| "rw_continue Write_Announce ok = RW_exchange Write_Lock"
| "rw_continue Write_Lock ok = (if ok then RW_writing else RW_exchange Write_Lock)"
| "rw_continue Write_Unlock ok = RW_out"
| "rw_continue Try_Read ok = (if ok then RW_reading else RW_out)"
| "rw_continue Try_Write ok = (if ok then RW_writing else RW_out)"

inductive rw_step :: "rwspinlock_t \<Rightarrow> tid \<Rightarrow> rwspinlock_t \<Rightarrow> bool" where
  rw_call: "rw_pc s t = RW_out \<Longrightarrow> sec \<in> {Read_Lock, Write_Announce, Try_Read, Try_Write} \<Longrightarrow> rw_step s t (at_rw t (RW_exchange sec) s)"
| rwspin_read_unlock: "rw_pc s t = RW_reading \<Longrightarrow> rw_step s t (at_rw t (RW_exchange Read_Unlock) s)"
| rwspin_write_unlock: "rw_pc s t = RW_writing \<Longrightarrow> rw_step s t (at_rw t (RW_exchange Write_Unlock) s)"
| rw_exchange: "rw_pc s t = RW_exchange sec \<Longrightarrow>
    rw_step s t (at_rw t (if rw_lock s = 0 then RW_test sec else RW_spin sec) (s\<lparr>rw_lock := 1\<rparr>))"
| rw_spin: "rw_pc s t = RW_spin sec \<Longrightarrow> rw_step s t (at_rw t (if rw_lock s \<noteq> 0 then RW_spin sec else RW_exchange sec) s)"
| rw_test: "rw_pc s t = RW_test sec \<Longrightarrow>
    rw_step s t (at_rw t (if rw_condition sec s then RW_update sec else RW_release sec False) s)"
| rw_update: "rw_pc s t = RW_update sec \<Longrightarrow> rw_step s t (at_rw t (RW_release sec True) (rw_assign sec s))"
| rw_release: "rw_pc s t = RW_release sec ok \<Longrightarrow> rw_step s t (at_rw t (rw_continue sec ok) (s\<lparr>rw_lock := 0\<rparr>))"

section \<open>The ticket lock\<close>

text \<open>\<open>T_enter\<close> has the lock and is about to write \<open>owner_cpu\<close>, \<open>T_leave\<close> has cleared it and is about to increment the
  owner's ticket; \<open>T_compare\<close> and \<open>T_cas\<close> are the accesses of \<open>raw_spin_trylock\<close> after its first load.\<close>

datatype raw_pc = T_out | T_wait u32 | T_enter | T_in | T_leave | T_try | T_compare u32 | T_cas u32

record raw_spinlock_t =
  raw_lock :: u32
  owner_cpu :: u32
  next_ticket :: u32
  owner_ticket :: u32
  raw_pc :: "tid \<Rightarrow> raw_pc"

text \<open>The label tells when a \<open>trylock\<close> succeeded although the lock was not free: its compare-and-exchange takes an old
  value of \<open>next_ticket\<close> for the current one.\<close>

datatype raw_event = Raw tid | Stale_Try tid

abbreviation at_raw :: "tid \<Rightarrow> raw_pc \<Rightarrow> raw_spinlock_t \<Rightarrow> raw_spinlock_t" where
  "at_raw t p s \<equiv> s\<lparr>raw_pc := (raw_pc s)(t := p)\<rparr>"

definition raw_spin_lock_init :: "raw_spinlock_t \<Rightarrow> raw_spinlock_t" where
  "raw_spin_lock_init s = s\<lparr>raw_lock := 0, owner_cpu := - 1, next_ticket := 0, owner_ticket := 0\<rparr>"

definition raw_spin_is_locked :: "raw_spinlock_t \<Rightarrow> bool" where
  "raw_spin_is_locked s \<longleftrightarrow> next_ticket s \<noteq> owner_ticket s"

inductive raw_step :: "raw_spinlock_t \<Rightarrow> raw_event \<Rightarrow> raw_spinlock_t \<Rightarrow> bool" where
  raw_spin_lock: "raw_pc s t = T_out \<Longrightarrow>
    raw_step s (Raw t) (at_raw t (T_wait (next_ticket s)) (s\<lparr>next_ticket := next_ticket s + 1\<rparr>))"
| raw_spin_wait: "raw_pc s t = T_wait ticket \<Longrightarrow>
    raw_step s (Raw t) (if owner_ticket s \<noteq> ticket then s else at_raw t T_enter s)"
| raw_spin_enter: "raw_pc s t = T_enter \<Longrightarrow> raw_step s (Raw t) (at_raw t T_in (s\<lparr>owner_cpu := cpu\<rparr>))"
| raw_spin_unlock: "raw_pc s t = T_in \<Longrightarrow> raw_step s (Raw t) (at_raw t T_leave (s\<lparr>owner_cpu := - 1\<rparr>))"
| raw_spin_release: "raw_pc s t = T_leave \<Longrightarrow>
    raw_step s (Raw t) (at_raw t T_out (s\<lparr>owner_ticket := owner_ticket s + 1\<rparr>))"
| raw_spin_trylock_call: "raw_pc s t = T_out \<Longrightarrow> raw_step s (Raw t) (at_raw t T_try s)"
| raw_spin_trylock_load: "raw_pc s t = T_try \<Longrightarrow> raw_step s (Raw t) (at_raw t (T_compare (next_ticket s)) s)"
| raw_spin_trylock_compare: "raw_pc s t = T_compare ticket \<Longrightarrow>
    raw_step s (Raw t) (at_raw t (if ticket = owner_ticket s then T_cas ticket else T_out) s)"
| raw_spin_trylock_cas: "raw_pc s t = T_cas ticket \<Longrightarrow> next_ticket s = ticket \<Longrightarrow>
    raw_step s (if owner_ticket s = next_ticket s then Raw t else Stale_Try t)
      (at_raw t T_enter (s\<lparr>next_ticket := ticket + 1\<rparr>))"
| raw_spin_trylock_fails: "raw_pc s t = T_cas ticket \<Longrightarrow> next_ticket s \<noteq> ticket \<Longrightarrow> raw_step s (Raw t) (at_raw t T_out s)"

end
