(* ===== verification/Spinlock_Spec.thy ===== *)
theory Spinlock_Spec
  imports Spinlock
begin

text \<open>
  Mutual exclusion of the three locks of \<^verbatim>\<open>spinlock.c\<close>, each a transition system whose
  steps are the accesses of the threads to the shared words: one contract for the invariant
  argument, and its instances for the plain, the reader-writer and the ticket lock.
\<close>

section \<open>Mutual exclusion as an interface\<close>

text \<open>A machine with an invariant under which no two threads hold the lock.\<close>

locale mutual_exclusion = state_machine step invar
  for step :: "'s \<Rightarrow> 'e \<Rightarrow> 's \<Rightarrow> bool" and invar :: "'s \<Rightarrow> bool" +
  fixes holds :: "'s \<Rightarrow> tid \<Rightarrow> bool"
  assumes exclusive: "invar s \<Longrightarrow> holds s t \<Longrightarrow> holds s u \<Longrightarrow> t = u"
begin

lemma at_most_one: "steps step s es s' \<Longrightarrow> invar s \<Longrightarrow> holds s' t \<Longrightarrow> holds s' u \<Longrightarrow> t = u"
  using invar_steps exclusive by blast

end

lemma steps_mono:
  "steps step s es t \<Longrightarrow> (\<And>s e t. e \<in> set es \<Longrightarrow> step s e t \<Longrightarrow> step' s e t) \<Longrightarrow> steps step' s es t"
  by (induction rule: steps.induct) auto

section \<open>Counting threads\<close>

text \<open>The number of threads below \<open>n\<close> whose program counter satisfies \<open>P\<close>.\<close>

definition threads :: "nat \<Rightarrow> ('p \<Rightarrow> bool) \<Rightarrow> (tid \<Rightarrow> 'p) \<Rightarrow> tid set" where
  "threads n P pc = {t. t < n \<and> P (pc t)}"

lemma finite_threads [simp]: "finite (threads n P pc)"
  by (simp add: threads_def)

definition num_threads :: "nat \<Rightarrow> ('p \<Rightarrow> bool) \<Rightarrow> (tid \<Rightarrow> 'p) \<Rightarrow> nat" where
  "num_threads n P pc = card (threads n P pc)"

lemma threads_upd:
  "t < n \<Longrightarrow> threads n P (pc(t := p)) = (if P p then insert t (threads n P pc) else threads n P pc - {t})"
  by (auto simp: threads_def)

lemma num_threads_upd:
  assumes "t < n"
  shows "num_threads n P (pc(t := p)) =
    (if P p = P (pc t) then num_threads n P pc else if P p then Suc (num_threads n P pc) else num_threads n P pc - 1)"
proof -
  have m: "t \<in> threads n P pc \<longleftrightarrow> P (pc t)" using assms by (simp add: threads_def)
  show ?thesis using assms m by (auto simp: num_threads_def threads_upd insert_absorb)
qed

lemma num_threads_pos: "t < n \<Longrightarrow> P (pc t) \<Longrightarrow> 0 < num_threads n P pc"
  by (auto simp: num_threads_def threads_def card_gt_0_iff)

lemma num_threads_zero: "num_threads n P pc = 0 \<longleftrightarrow> (\<forall>t < n. \<not> P (pc t))"
  by (auto simp: num_threads_def threads_def)

lemma num_threads_room:
  assumes "t < n" "\<not> P (pc t)"
  shows "num_threads n P pc < n"
proof -
  have "threads n P pc \<subseteq> {..<n} - {t}" using assms by (auto simp: threads_def)
  then have "num_threads n P pc \<le> card ({..<n} - {t})" unfolding num_threads_def by (intro card_mono) auto
  then show ?thesis using assms(1) by simp
qed

lemma unat_inc: "unat (w :: u32) = k \<Longrightarrow> Suc k < 2 ^ 32 \<Longrightarrow> unat (w + 1) = Suc k"
  by (simp add: unat_plus_if')

lemma unat_dec: "unat (w :: u32) = k \<Longrightarrow> 0 < k \<Longrightarrow> unat (w - 1) = k - 1"
  by (simp add: unat_sub word_le_nat_alt)

section \<open>The test-and-set lock\<close>

definition spin_inv :: "spin_sys \<Rightarrow> bool" where
  "spin_inv s \<longleftrightarrow> (\<forall>t u. sl_pc s t = SL_in \<and> sl_pc s u = SL_in \<longrightarrow> t = u) \<and> (\<forall>t. sl_pc s t = SL_in \<longrightarrow> sl_lock s \<noteq> 0)"

interpretation tas: mutual_exclusion spin_step spin_inv "\<lambda>s t. sl_pc s t = SL_in"
proof
  show "spin_inv s \<Longrightarrow> spin_step s e t \<Longrightarrow> spin_inv t" for s e t
    by (erule spin_step.cases) (auto simp: spin_inv_def split: if_splits)
qed (auto simp: spin_inv_def)

section \<open>The reader-writer lock\<close>

text \<open>The internal lock as a test-and-set lock: where its threads are.\<close>

fun inner_pc :: "rw_pc \<Rightarrow> spin_pc" where
  "inner_pc (RW_exchange _) = SL_exchange"
| "inner_pc (RW_spin _) = SL_wait"
| "inner_pc (RW_test _) = SL_in"
| "inner_pc (RW_update _) = SL_in"
| "inner_pc (RW_release _ _) = SL_in"
| "inner_pc _ = SL_out"

definition inner_lock :: "rwspinlock_t \<Rightarrow> spin_sys" where
  "inner_lock s = \<lparr>sl_lock = rw_lock s, sl_pc = inner_pc \<circ> rw_pc s\<rparr>"

text \<open>The threads that count as readers, as writers that wait or write, and as writers that write, from the assignments of the
  section by which they come in to those of the section by which they go out.\<close>

fun reads :: "rw_pc \<Rightarrow> bool" where
  "reads RW_reading = True"
| "reads (RW_exchange sec) = (sec = Read_Unlock)"
| "reads (RW_spin sec) = (sec = Read_Unlock)"
| "reads (RW_test sec) = (sec = Read_Unlock)"
| "reads (RW_update sec) = (sec = Read_Unlock)"
| "reads (RW_release sec ok) = (ok \<and> (sec = Read_Lock \<or> sec = Try_Read))"
| "reads _ = False"

fun writes :: "rw_pc \<Rightarrow> bool" where
  "writes RW_writing = True"
| "writes (RW_exchange sec) = (sec = Write_Unlock)"
| "writes (RW_spin sec) = (sec = Write_Unlock)"
| "writes (RW_test sec) = (sec = Write_Unlock)"
| "writes (RW_update sec) = (sec = Write_Unlock)"
| "writes (RW_release sec ok) = (ok \<and> (sec = Write_Lock \<or> sec = Try_Write))"
| "writes _ = False"

fun wants_write :: "rw_pc \<Rightarrow> bool" where
  "wants_write (RW_exchange sec) = (sec = Write_Lock)"
| "wants_write (RW_spin sec) = (sec = Write_Lock)"
| "wants_write (RW_test sec) = (sec = Write_Lock)"
| "wants_write (RW_update sec) = (sec = Write_Lock)"
| "wants_write (RW_release sec ok) = (sec = Write_Announce \<or> sec = Write_Lock \<and> \<not> ok)"
| "wants_write _ = False"

definition rw_inv :: "nat \<Rightarrow> rwspinlock_t \<Rightarrow> bool" where
  "rw_inv n s \<longleftrightarrow> n < 2 ^ 32 \<and> spin_inv (inner_lock s) \<and>
     (\<forall>t sec. rw_pc s t = RW_update sec \<longrightarrow> rw_condition sec s) \<and>
     unat (rw_readers s) = num_threads n reads (rw_pc s) \<and>
     unat (rw_writers s) = num_threads n (\<lambda>p. writes p \<or> wants_write p) (rw_pc s) \<and>
     num_threads n writes (rw_pc s) = (if rw_is_writing s then 1 else 0) \<and>
     (rw_is_writing s \<longrightarrow> num_threads n reads (rw_pc s) = 0)"

text \<open>The threads are those below \<open>n\<close>.\<close>

definition rw_step_n :: "nat \<Rightarrow> rwspinlock_t \<Rightarrow> tid \<Rightarrow> rwspinlock_t \<Rightarrow> bool" where
  "rw_step_n n s t s' \<longleftrightarrow> t < n \<and> rw_step s t s'"

text \<open>Every step of the reader-writer lock is at most two steps of the internal lock, which therefore excludes.\<close>

lemma inner_lock_at:
  "inner_lock (s\<lparr>rw_pc := f(t := p)\<rparr>) = (inner_lock s)\<lparr>sl_pc := (inner_pc \<circ> f)(t := inner_pc p)\<rparr>"
  by (simp add: inner_lock_def fun_eq_iff)

lemma inner_lock_set: "inner_lock (s\<lparr>rw_lock := v\<rparr>) = (inner_lock s)\<lparr>sl_lock := v\<rparr>"
  by (simp add: inner_lock_def)

lemma inner_lock_sel: "sl_pc (inner_lock s) = inner_pc \<circ> rw_pc s" "sl_lock (inner_lock s) = rw_lock s"
  by (simp_all add: inner_lock_def)

lemma rw_assign_pc [simp]: "rw_pc (rw_assign sec s) = rw_pc s" "rw_lock (rw_assign sec s) = rw_lock s"
  by (cases sec; simp)+

lemma inner_lock_assign: "inner_lock (rw_assign sec s) = inner_lock s"
  by (simp add: inner_lock_def)

lemma inner_at_same: "inner_pc (rw_pc s t) = p \<Longrightarrow> (inner_lock s)\<lparr>sl_pc := (inner_pc \<circ> rw_pc s)(t := p)\<rparr> = inner_lock s"
  by (auto simp: inner_lock_def fun_eq_iff)

lemmas inner_lock_simps = inner_lock_at inner_lock_set inner_lock_assign inner_lock_sel

lemma inner_steps:
  assumes "rw_step s t s'"
  shows "\<exists>k. steps spin_step (inner_lock s) (replicate k t) (inner_lock s')"
proof -
  let ?i = "inner_lock s"
  have pc: "sl_pc ?i t = inner_pc (rw_pc s t)" and lock: "sl_lock ?i = rw_lock s" by (simp_all add: inner_lock_def)
  have one: ?thesis if "spin_step ?i t (inner_lock s')" using that by (intro exI[of _ 1]) (auto intro: steps_Cons)
  have none: ?thesis if "inner_lock s' = ?i" using that by (intro exI[of _ 0]) simp
  have call: ?thesis if "inner_pc (rw_pc s t) = SL_out" "s' = at_rw t (RW_exchange sec) s" for sec
    using spin_lock_call[of ?i t] pc that by (intro one) (simp add: inner_lock_simps)
  from assms show ?thesis
  proof cases
    case (rw_release sec ok)
    have s1: "spin_step ?i t (at_sl t SL_out (?i\<lparr>sl_lock := 0\<rparr>))" using pc rw_release by (intro spin_unlock) simp
    consider "inner_pc (rw_continue sec ok) = SL_out" | "inner_pc (rw_continue sec ok) = SL_exchange"
      by (cases sec; cases ok) simp_all
    then show ?thesis
    proof cases
      case 1
      with rw_release s1 show ?thesis by (intro one) (simp add: inner_lock_simps)
    next
      case 2
      have "spin_step (at_sl t SL_out (?i\<lparr>sl_lock := 0\<rparr>)) t (at_sl t SL_exchange (at_sl t SL_out (?i\<lparr>sl_lock := 0\<rparr>)))"
        by (intro spin_lock_call) simp
      with s1 have "steps spin_step ?i [t, t] (at_sl t SL_exchange (?i\<lparr>sl_lock := 0\<rparr>))" by (fastforce intro: steps_Cons steps_Nil)
      with 2 rw_release show ?thesis by (intro exI[of _ 2]) (simp add: inner_lock_simps numeral_2_eq_2 del: steps_Cons_iff)
    qed
  next
    case (rw_exchange sec)
    with pc lock spin_lock_exchange[of ?i t] show ?thesis by (intro one) (auto simp: inner_lock_simps split: if_splits)
  next
    case (rw_spin sec)
    with pc lock spin_lock_wait[of ?i t] show ?thesis by (intro one) (auto simp: inner_lock_simps split: if_splits)
  next
    case (rw_test sec)
    then show ?thesis by (intro none) (auto simp: inner_lock_simps inner_at_same)
  next
    case (rw_update sec)
    then show ?thesis by (intro none) (auto simp: inner_lock_simps inner_at_same)
  qed (rule call; simp)+
qed

lemma rw_inner_exclusive:
  "spin_inv (inner_lock s) \<Longrightarrow> inner_pc (rw_pc s t) = SL_in \<Longrightarrow> inner_pc (rw_pc s u) = SL_in \<Longrightarrow> t = u"
  by (auto simp: spin_inv_def inner_lock_def)

text \<open>The conditions that threads rely on between test and assignments are kept: only the holder of the internal lock assigns.\<close>

lemma rw_condition_upd [simp]:
  "rw_condition sec (s\<lparr>rw_pc := f\<rparr>) = rw_condition sec s" "rw_condition sec (s\<lparr>rw_lock := v\<rparr>) = rw_condition sec s"
  by (cases sec; simp)+

lemma rw_condition_step:
  assumes ex: "spin_inv (inner_lock s)" and c: "\<forall>u sec. rw_pc s u = RW_update sec \<longrightarrow> rw_condition sec s"
    and st: "rw_step s t s'" and u: "rw_pc s' u = RW_update sec"
  shows "rw_condition sec s'"
  using st
proof cases
  case (rw_update sec')
  then have "u \<noteq> t" using u by auto
  with rw_update u have "rw_pc s u = RW_update sec" by (cases sec') auto
  with rw_inner_exclusive[OF ex, of t u] rw_update \<open>u \<noteq> t\<close> show ?thesis by simp
qed (use u c in \<open>auto split: if_splits elim!: rw_continue.elims\<close>)

lemma rw_counts_step:
  assumes inv: "rw_inv n s" and t: "t < n" and st: "rw_step s t s'"
  shows "unat (rw_readers s') = num_threads n reads (rw_pc s') \<and>
     unat (rw_writers s') = num_threads n (\<lambda>p. writes p \<or> wants_write p) (rw_pc s') \<and>
     num_threads n writes (rw_pc s') = (if rw_is_writing s' then 1 else 0) \<and>
     (rw_is_writing s' \<longrightarrow> num_threads n reads (rw_pc s') = 0)"
proof -
  have n: "n < 2 ^ 32" using inv by (simp add: rw_inv_def)
  have room: "Suc (num_threads n P (rw_pc s)) < 2 ^ 32" if "\<not> P (rw_pc s t)" for P
    using num_threads_room[of t n P "rw_pc s"] that t n by simp
  note pos = num_threads_pos[OF t, where pc = "rw_pc s"]
  have c: "rw_condition sec s" if "rw_pc s t = RW_update sec" for sec using inv that by (simp add: rw_inv_def)
  from st show ?thesis
  proof cases
    case (rw_update sec)
    with inv t c[OF rw_update(2)] pos[of reads] pos[of writes] pos[of "\<lambda>p. writes p \<or> wants_write p"]
      room[of reads] room[of "\<lambda>p. writes p \<or> wants_write p"] show ?thesis
      by (cases sec) (auto simp: rw_inv_def num_threads_upd unat_inc unat_dec unat_eq_0 split: if_splits)
  next
    case (rw_release sec ok)
    with inv t show ?thesis by (cases sec; cases ok) (auto simp: rw_inv_def num_threads_upd)
  next
    case (rw_test sec)
    with inv t show ?thesis by (cases sec) (auto simp: rw_inv_def num_threads_upd)
  qed (use inv t in \<open>auto simp: rw_inv_def num_threads_upd\<close>)
qed

lemma rw_inv_step:
  assumes inv: "rw_inv n s" and t: "t < n" and st: "rw_step s t s'"
  shows "rw_inv n s'"
proof -
  obtain k where "steps spin_step (inner_lock s) (replicate k t) (inner_lock s')" using inner_steps[OF st] by blast
  then have "spin_inv (inner_lock s')" using tas.invar_steps inv by (auto simp: rw_inv_def)
  moreover have "\<forall>u sec. rw_pc s' u = RW_update sec \<longrightarrow> rw_condition sec s'"
    using rw_condition_step[OF _ _ st] inv by (auto simp: rw_inv_def)
  ultimately show ?thesis using rw_counts_step[OF assms] inv by (simp add: rw_inv_def)
qed

interpretation rw: state_machine "rw_step_n n" "rw_inv n"
  by unfold_locales (auto simp: rw_step_n_def intro: rw_inv_step)

interpretation rw_writers: mutual_exclusion "rw_step_n n" "rw_inv n" "\<lambda>s t. t < n \<and> writes (rw_pc s t)"
proof
  fix s t u assume "rw_inv n s" "t < n \<and> writes (rw_pc s t)" "u < n \<and> writes (rw_pc s u)"
  then have "t \<in> threads n writes (rw_pc s)" "u \<in> threads n writes (rw_pc s)" "card (threads n writes (rw_pc s)) \<le> 1"
    by (auto simp: threads_def rw_inv_def num_threads_def)
  then show "t = u" using card_le_Suc0_iff_eq[of "threads n writes (rw_pc s)"] by auto
qed

section \<open>The ticket lock\<close>

















lemma rw_inv_init:
  assumes "n < 2 ^ 32" "\<forall>t. rw_pc s t = RW_out"
  shows "rw_inv n (rwspin_lock_init s)"
proof -
  have "threads n P (rw_pc (rwspin_lock_init s)) = {}" if "\<not> P RW_out" for P
    using assms(2) that by (simp add: threads_def rwspin_lock_init_def)
  with assms show ?thesis by (simp add: rw_inv_def num_threads_def rwspin_lock_init_def spin_inv_def inner_lock_def)
qed


lemma rw_run:
  assumes "n < 2 ^ 32" "\<forall>t. rw_pc s t = RW_out" "steps rw_step (rwspin_lock_init s) ts s'" "\<forall>t \<in> set ts. t < n"
  shows "steps (rw_step_n n) (rwspin_lock_init s) ts s'" "rw_inv n s'"
proof -
  show "steps (rw_step_n n) (rwspin_lock_init s) ts s'"
    using assms(3,4) by (elim steps_mono) (auto simp: rw_step_n_def)
  from rw.invar_steps[OF this rw_inv_init[OF assms(1,2)]] show "rw_inv n s'" .
qed

section \<open>Properties\<close>

text \<open>The test-and-set lock excludes: in every interleaving of \<open>spin_lock\<close>, \<open>spin_trylock\<close> and \<open>spin_unlock\<close> calls that
  starts with the lock initialised and all threads outside, no two threads are inside.\<close>

theorem spin_lock_exclusive:
  assumes "\<forall>t. sl_pc s t = SL_out" "steps spin_step (spin_lock_init s) ts s'" "sl_pc s' t = SL_in" "sl_pc s' u = SL_in"
  shows "t = u"
proof -
  have "spin_inv (spin_lock_init s)" using assms(1) by (simp add: spin_inv_def spin_lock_init_def)
  from tas.at_most_one[OF assms(2) this assms(3,4)] show ?thesis .
qed

theorem spin_lock_exclusive_witness:
  "\<exists>s'. steps spin_step (spin_lock_init \<lparr>sl_lock = 1, sl_pc = (\<lambda>_. SL_out)\<rparr>) [7, 7, 3, 3] s' \<and> sl_pc s' 7 = SL_in \<and>
     (\<forall>t. sl_pc s' t = SL_in \<longrightarrow> t = 7)"
proof -
  let ?s = "\<lparr>sl_lock = 1, sl_pc = (\<lambda>_. SL_out)\<rparr>"
  let ?t = "\<lparr>sl_lock = 1, sl_pc = (\<lambda>_. SL_out)(7 := SL_in, 3 := SL_wait)\<rparr>"
  have "spin_step (spin_lock_init ?s) 7 \<lparr>sl_lock = 0, sl_pc = (\<lambda>_. SL_out)(7 := SL_exchange)\<rparr>"
    using spin_lock_call[of "spin_lock_init ?s" 7] by (simp add: spin_lock_init_def)
  moreover have "spin_step \<lparr>sl_lock = 0, sl_pc = (\<lambda>_. SL_out)(7 := SL_exchange)\<rparr> 7 \<lparr>sl_lock = 1, sl_pc = (\<lambda>_. SL_out)(7 := SL_in)\<rparr>"
    using spin_lock_exchange[of "\<lparr>sl_lock = 0, sl_pc = (\<lambda>_. SL_out)(7 := SL_exchange)\<rparr>" 7] by simp
  moreover have "spin_step \<lparr>sl_lock = 1, sl_pc = (\<lambda>_. SL_out)(7 := SL_in)\<rparr> 3 \<lparr>sl_lock = 1, sl_pc = (\<lambda>_. SL_out)(7 := SL_in, 3 := SL_exchange)\<rparr>"
    using spin_lock_call[of "\<lparr>sl_lock = 1, sl_pc = (\<lambda>_. SL_out)(7 := SL_in)\<rparr>" 3] by simp
  moreover have "spin_step \<lparr>sl_lock = 1, sl_pc = (\<lambda>_. SL_out)(7 := SL_in, 3 := SL_exchange)\<rparr> 3 ?t"
    using spin_lock_exchange[of "\<lparr>sl_lock = 1, sl_pc = (\<lambda>_. SL_out)(7 := SL_in, 3 := SL_exchange)\<rparr>" 3] by simp
  ultimately have run: "steps spin_step (spin_lock_init ?s) [7, 7, 3, 3] ?t" by (auto simp del: fun_upd_apply)
  have "t = 7" if "sl_pc ?t t = SL_in" for t using spin_lock_exclusive[OF _ run that, of 7] by simp
  with run show ?thesis by (intro exI[of _ ?t]) auto
qed

text \<open>C24: the reader-writer lock: with fewer than \<open>2 ^ 32\<close> threads, in every interleaving of the blocking and the trying operations,
  a writer is alone, no second writer and no reader is inside with it; the counter of readers is at least the number of threads
  that read.\<close>

theorem rw_lock_exclusive:
  assumes "n < 2 ^ 32" "\<forall>t. rw_pc s t = RW_out" "steps rw_step (rwspin_lock_init s) ts s'" "\<forall>t \<in> set ts. t < n"
  shows "(\<forall>t < n. \<forall>u < n. rw_pc s' t = RW_writing \<and> (rw_pc s' u = RW_writing \<or> rw_pc s' u = RW_reading) \<longrightarrow> u = t) \<and>
    card {t. t < n \<and> rw_pc s' t = RW_reading} \<le> unat (rw_readers s')"
proof (intro conjI allI impI, elim conjE)
  note run = rw_run[OF assms]
  fix t u assume a: "t < n" "u < n" "rw_pc s' t = RW_writing" "rw_pc s' u = RW_writing \<or> rw_pc s' u = RW_reading"
  have "rw_is_writing s'" using run(2) num_threads_pos[OF a(1), of writes "rw_pc s'"] a(3) by (auto simp: rw_inv_def split: if_splits)
  with run(2) num_threads_zero[of n reads "rw_pc s'"] a(2) have "rw_pc s' u \<noteq> RW_reading" by (auto simp: rw_inv_def)
  with a rw_writers.at_most_one[OF run(1) rw_inv_init[OF assms(1,2)], of t u] show "u = t" by auto
next
  have "card {t. t < n \<and> rw_pc s' t = RW_reading} \<le> num_threads n reads (rw_pc s')"
    unfolding num_threads_def threads_def by (intro card_mono) auto
  also have "\<dots> = unat (rw_readers s')" using rw_run(2)[OF assms] by (simp add: rw_inv_def)
  finally show "card {t. t < n \<and> rw_pc s' t = RW_reading} \<le> unat (rw_readers s')" .
qed

text \<open>The state of a lock all of whose threads but thread 1 are outside, for the witness.\<close>

definition rw_one :: "u32 \<Rightarrow> bool \<Rightarrow> u32 \<Rightarrow> rw_pc \<Rightarrow> rwspinlock_t" where
  "rw_one writers w l p = \<lparr>rw_readers = 0, rw_writers = writers, rw_is_writing = w, rw_lock = l, rw_pc = (\<lambda>_. RW_out)(1 := p)\<rparr>"

lemma rw_one_steps:
  "rw_step (rw_one 0 False 0 RW_out) 1 (rw_one 0 False 0 (RW_exchange Try_Write))"
  "rw_step (rw_one 0 False 0 (RW_exchange Try_Write)) 1 (rw_one 0 False 1 (RW_test Try_Write))"
  "rw_step (rw_one 0 False 1 (RW_test Try_Write)) 1 (rw_one 0 False 1 (RW_update Try_Write))"
  "rw_step (rw_one 0 False 1 (RW_update Try_Write)) 1 (rw_one 1 True 1 (RW_release Try_Write True))"
  "rw_step (rw_one 1 True 1 (RW_release Try_Write True)) 1 (rw_one 1 True 0 RW_writing)"
  using rw_call[of "rw_one 0 False 0 RW_out" 1 Try_Write] rw_exchange[of "rw_one 0 False 0 (RW_exchange Try_Write)" 1]
    rw_test[of "rw_one 0 False 1 (RW_test Try_Write)" 1] rw_update[of "rw_one 0 False 1 (RW_update Try_Write)" 1]
    rw_release[of "rw_one 1 True 1 (RW_release Try_Write True)" 1]
  by (simp_all add: rw_one_def)

theorem rw_lock_exclusive_witness:
  "\<exists>s'. steps rw_step (rwspin_lock_init (rw_one 5 True 1 RW_out)) [1, 1, 1, 1, 1] s' \<and>
     rw_pc s' 1 = RW_writing \<and> (\<forall>u < 2. rw_pc s' u = RW_writing \<or> rw_pc s' u = RW_reading \<longrightarrow> u = 1)"
proof -
  let ?u = "rw_one 1 True 0 RW_writing"
  have i: "rwspin_lock_init (rw_one 5 True 1 RW_out) = rw_one 0 False 0 RW_out" by (simp add: rwspin_lock_init_def rw_one_def)
  have run: "steps rw_step (rwspin_lock_init (rw_one 5 True 1 RW_out)) [1, 1, 1, 1, 1] ?u"
    unfolding i using rw_one_steps by (iprover intro: steps_Cons steps_Nil)
  have "\<forall>t < 2. \<forall>u < 2. rw_pc ?u t = RW_writing \<and> (rw_pc ?u u = RW_writing \<or> rw_pc ?u u = RW_reading) \<longrightarrow> u = t"
    by (rule rw_lock_exclusive[OF _ _ run, THEN conjunct1]) (simp_all add: rw_one_def)
  moreover have w: "rw_pc ?u 1 = RW_writing" "1 < (2 :: nat)" by (simp_all add: rw_one_def)
  ultimately have "\<forall>u < 2. rw_pc ?u u = RW_writing \<or> rw_pc ?u u = RW_reading \<longrightarrow> u = 1" by iprover
  with run w(1) show ?thesis by iprover
qed



end
