(* ===== verification/Cascade_Crypto.thy ===== *)
theory Cascade_Crypto
  imports Prelude
begin

text \<open>
  Model of \<open>cascade_crypto.c\<close>: a block cipher of substitution, permutation and key mixing in four modes of operation.

  Buffers are lists of bytes, \<open>None\<close> as a pointer is the null pointer, and a result \<open>None\<close> is an access outside a buffer. In
  \<open>generate_round_key\<close> the 32-bit seed is shifted by up to \<open>8 * 31 + 15\<close> bits; C leaves shifts by 32 bits or more undefined, so
  the shift is the parameter \<open>shr\<close>, of which only the shifts by less than 32 bits are known (\<open>shifts_right\<close>).
\<close>

section \<open>Data\<close>

datatype cascade_mode_t = CASCADE_MODE_ECB | CASCADE_MODE_CBC | CASCADE_MODE_CTR | CASCADE_MODE_XTS

datatype cascade_error_t = CASCADE_SUCCESS | CASCADE_ERROR_INVALID_KEY | CASCADE_ERROR_INVALID_INPUT
  | CASCADE_ERROR_BUFFER_TOO_SMALL | CASCADE_ERROR_INVALID_MODE

record cascade_key_t =
  ck_primary_key :: "u8 list"
  ck_tweak_key :: "u8 list"
  ck_rounds :: u32
  ck_seed :: u32

abbreviation (input) BLOCK_SIZE :: nat where "BLOCK_SIZE \<equiv> 16"
abbreviation (input) ROUNDS_MIN :: u32 where "ROUNDS_MIN \<equiv> 10"
abbreviation (input) ROUNDS_MAX :: u32 where "ROUNDS_MAX \<equiv> 32"

type_synonym shift = "u32 \<Rightarrow> nat \<Rightarrow> u32"

definition shifts_right :: "shift \<Rightarrow> bool" where
  "shifts_right shr \<longleftrightarrow> (\<forall>x n. n < 32 \<longrightarrow> shr x n = drop_bit n x)"

text \<open>The initialiser lists 48 of the 256 entries; C sets the others to 0.\<close>

definition SBOX :: "u8 list" where
  "SBOX = [0x63, 0x7c, 0x77, 0x7b, 0xf2, 0x6b, 0x6f, 0xc5, 0x30, 0x01, 0x67, 0x2b, 0xfe, 0xd7, 0xab, 0x76,
           0xca, 0x82, 0xc9, 0x7d, 0xfa, 0x59, 0x47, 0xf0, 0xad, 0xd4, 0xa2, 0xaf, 0x9c, 0xa4, 0x72, 0xc0,
           0xb7, 0xfd, 0x93, 0x26, 0x36, 0x3f, 0xf7, 0xcc, 0x34, 0xa5, 0xe5, 0xf1, 0x71, 0xd8, 0x31, 0x15] @ replicate 208 0"

definition PBOX :: "nat list" where
  "PBOX = [0, 4, 8, 12, 1, 5, 9, 13, 2, 6, 10, 14, 3, 7, 11, 15]"

section \<open>Blocks\<close>

definition substitute_block :: "u8 list \<Rightarrow> u8 list" where
  "substitute_block block = fold (\<lambda>i block. block[i := SBOX ! unat (block ! i)]) [0..<BLOCK_SIZE] block"

text \<open>The body is empty.\<close>

definition inverse_substitute_block :: "u8 list \<Rightarrow> u8 list" where
  "inverse_substitute_block block = block"

definition permute_block :: "u8 list \<Rightarrow> u8 list" where
  "permute_block block = (let tmp = block in fold (\<lambda>i block. block[PBOX ! i := tmp ! i]) [0..<BLOCK_SIZE] block)"

definition inverse_permute_block :: "u8 list \<Rightarrow> u8 list" where
  "inverse_permute_block block = (let tmp = block in fold (\<lambda>i block. block[i := tmp ! (PBOX ! i)]) [0..<BLOCK_SIZE] block)"

definition cascade_xor_blocks :: "u8 list \<Rightarrow> u8 list \<Rightarrow> nat \<Rightarrow> u8 list" where
  "cascade_xor_blocks dst src len = fold (\<lambda>i dst. dst[i := dst ! i XOR src ! i]) [0..<len] dst"

definition mix_block :: "u8 list \<Rightarrow> u8 list \<Rightarrow> u8 list" where
  "mix_block block round_key = cascade_xor_blocks (permute_block (substitute_block block)) round_key BLOCK_SIZE"

definition generate_round_key :: "shift \<Rightarrow> cascade_key_t \<Rightarrow> u32 \<Rightarrow> u8 list" where
  "generate_round_key shr key rnd =
     fold (\<lambda>i round_key. round_key[i := round_key ! i XOR ucast (shr (ck_seed key) (unat (rnd * 8) + i) AND 0xFF)])
       [0..<BLOCK_SIZE] (take BLOCK_SIZE (ck_primary_key key))"

text \<open>The counter is incremented from its last byte on, as long as a byte wraps to 0.\<close>

fun increment_loop :: "nat \<Rightarrow> u8 list \<Rightarrow> u8 list" where
  "increment_loop 0 counter = counter"
| "increment_loop (Suc i) counter =
     (let counter = counter[i := counter ! i + 1] in if counter ! i \<noteq> 0 then counter else increment_loop i counter)"

definition cascade_increment_counter :: "u8 list \<Rightarrow> nat \<Rightarrow> u8 list" where
  "cascade_increment_counter counter len = increment_loop len counter"

section \<open>Keys\<close>

text \<open>The result and \<open>*key\<close> afterwards.\<close>

definition cascade_init_key :: "cascade_key_t option \<Rightarrow> u8 list option \<Rightarrow> nat \<Rightarrow> u8 list option \<Rightarrow> nat \<Rightarrow> u32 \<Rightarrow> u32 \<Rightarrow>
    (cascade_error_t \<times> cascade_key_t option) option" where
  "cascade_init_key key primary_key primary_key_len tweak_key tweak_key_len rounds seed =
     (case (key, primary_key, tweak_key) of
        (Some k, Some p, Some t) \<Rightarrow>
          if primary_key_len \<noteq> 32 \<or> tweak_key_len \<noteq> 16 then Some (CASCADE_ERROR_INVALID_KEY, key)
          else if rounds < ROUNDS_MIN \<or> rounds > ROUNDS_MAX then Some (CASCADE_ERROR_INVALID_INPUT, key)
          else if length p < 32 \<or> length t < 16 then None
          else Some (CASCADE_SUCCESS, Some (k\<lparr>ck_primary_key := take 32 p, ck_tweak_key := take 16 t, ck_rounds := rounds, ck_seed := seed\<rparr>))
      | _ \<Rightarrow> Some (CASCADE_ERROR_INVALID_INPUT, key))"

text \<open>\<open>rand n\<close> is what the \<open>n\<close>-th call of \<open>rand\<close> returns.\<close>

definition cascade_generate_key :: "(nat \<Rightarrow> u32) \<Rightarrow> cascade_key_t option \<Rightarrow> u32 \<Rightarrow> cascade_error_t \<times> cascade_key_t option" where
  "cascade_generate_key rand key rounds =
     (case key of
        None \<Rightarrow> (CASCADE_ERROR_INVALID_INPUT, key)
      | Some k \<Rightarrow>
          if rounds < ROUNDS_MIN \<or> rounds > ROUNDS_MAX then (CASCADE_ERROR_INVALID_INPUT, key)
          else (CASCADE_SUCCESS, Some (k\<lparr>ck_primary_key := map (\<lambda>i. ucast (rand i AND 0xFF)) [0..<32],
                 ck_tweak_key := map (\<lambda>i. ucast (rand (32 + i) AND 0xFF)) [0..<16], ck_rounds := rounds, ck_seed := rand 48\<rparr>)))"

section \<open>Encryption\<close>

definition read_block :: "nat \<Rightarrow> u8 list \<Rightarrow> u8 list option" where
  "read_block pos buf = (if pos + BLOCK_SIZE \<le> length buf then Some (take BLOCK_SIZE (drop pos buf)) else None)"

definition write_block :: "nat \<Rightarrow> u8 list \<Rightarrow> u8 list \<Rightarrow> u8 list" where
  "write_block pos block buf = take pos buf @ block @ drop (pos + BLOCK_SIZE) buf"

definition encrypt_rounds :: "shift \<Rightarrow> cascade_key_t \<Rightarrow> u8 list \<Rightarrow> u8 list" where
  "encrypt_rounds shr key block =
     fold (\<lambda>rnd block. mix_block block (generate_round_key shr key (of_nat rnd))) [0..<unat (ck_rounds key)] block"

text \<open>The processing of the mode before the rounds: the block and \<open>chain_block\<close>.\<close>

fun pre_process :: "cascade_mode_t \<Rightarrow> u8 list option \<Rightarrow> u8 list \<Rightarrow> u8 list \<Rightarrow> u8 list \<Rightarrow> (u8 list \<times> u8 list) option" where
  "pre_process CASCADE_MODE_CBC iv tweak chain_block block = Some (cascade_xor_blocks block chain_block BLOCK_SIZE, chain_block)"
| "pre_process CASCADE_MODE_CTR iv tweak chain_block block =
     Option.bind iv (\<lambda>v. Option.bind (read_block 0 v) (\<lambda>chain_block.
       let chain_block = cascade_increment_counter chain_block BLOCK_SIZE
       in Some (cascade_xor_blocks block chain_block BLOCK_SIZE, chain_block)))"
| "pre_process CASCADE_MODE_XTS iv tweak chain_block block = Some (cascade_xor_blocks block tweak BLOCK_SIZE, chain_block)"
| "pre_process CASCADE_MODE_ECB iv tweak chain_block block = Some (block, chain_block)"

fun post_process :: "cascade_mode_t \<Rightarrow> u8 list \<Rightarrow> u8 list \<Rightarrow> u8 list \<Rightarrow> u8 list \<times> u8 list" where
  "post_process CASCADE_MODE_CBC tweak chain_block block = (block, block)"
| "post_process CASCADE_MODE_XTS tweak chain_block block = (cascade_xor_blocks block tweak BLOCK_SIZE, chain_block)"
| "post_process _ tweak chain_block block = (block, chain_block)"

text \<open>The loop over the positions of the blocks.\<close>

fun encrypt_loop :: "shift \<Rightarrow> cascade_key_t \<Rightarrow> cascade_mode_t \<Rightarrow> u8 list option \<Rightarrow> u8 list \<Rightarrow> nat list \<Rightarrow> u8 list \<Rightarrow> u8 list \<Rightarrow> u8 list option" where
  "encrypt_loop shr key mode iv tweak [] chain_block output = Some output"
| "encrypt_loop shr key mode iv tweak (pos # ps) chain_block output =
     Option.bind (read_block pos output) (\<lambda>block.
     Option.bind (pre_process mode iv tweak chain_block block) (\<lambda>(block, chain_block).
       let (block, chain_block) = post_process mode tweak chain_block (encrypt_rounds shr key block)
       in encrypt_loop shr key mode iv tweak ps chain_block (write_block pos block output)))"

definition positions :: "nat \<Rightarrow> nat list" where
  "positions input_len = map (\<lambda>k. BLOCK_SIZE * k) [0..<(input_len + (BLOCK_SIZE - 1)) div BLOCK_SIZE]"

text \<open>\<open>cascade_encrypt\<close> with the call of \<open>cascade_generate_tweak\<close>, which calls it again in the mode ECB, as the parameter
  \<open>generate_tweak\<close>. The result and the buffer \<open>output\<close>, of \<open>output_size\<close> bytes.\<close>

definition encrypt_with :: "shift \<Rightarrow> (u8 list \<Rightarrow> u64 \<Rightarrow> u8 list option) \<Rightarrow> cascade_key_t option \<Rightarrow> cascade_mode_t \<Rightarrow> u8 list option \<Rightarrow> nat \<Rightarrow>
    u8 list option \<Rightarrow> nat \<Rightarrow> u8 list option \<Rightarrow> u64 \<Rightarrow> (cascade_error_t \<times> u8 list option) option" where
  "encrypt_with shr generate_tweak key mode inp input_len output output_size iv sector_num =
     (case (key, inp, output) of
        (Some k, Some inp, Some out) \<Rightarrow>
          if input_len = 0 then Some (CASCADE_ERROR_INVALID_INPUT, output)
          else if output_size < input_len then Some (CASCADE_ERROR_BUFFER_TOO_SMALL, output)
          else if length inp < input_len \<or> length out < input_len then None
          else
            let out = take input_len inp @ drop input_len out in
            Option.bind (if mode = CASCADE_MODE_CBC then case iv of None \<Rightarrow> Some (replicate BLOCK_SIZE 0) | Some v \<Rightarrow> read_block 0 v
                         else Some (replicate BLOCK_SIZE 0)) (\<lambda>chain_block.
            Option.bind (if mode = CASCADE_MODE_XTS then generate_tweak (ck_tweak_key k) sector_num
                         else Some (replicate BLOCK_SIZE 0)) (\<lambda>tweak.
            Option.bind (encrypt_loop shr k mode iv tweak (positions input_len) chain_block out) (\<lambda>out.
              Some (CASCADE_SUCCESS, Some out))))
      | _ \<Rightarrow> Some (CASCADE_ERROR_INVALID_INPUT, output))"

text \<open>\<open>junk\<close> is the content of the local variable \<open>tweak_key\<close>, which is not initialised; \<open>sector_num\<close> is stored with its lowest
  byte first.\<close>

definition cascade_generate_tweak :: "shift \<Rightarrow> cascade_key_t \<Rightarrow> u8 list \<Rightarrow> u64 \<Rightarrow> u8 list option" where
  "cascade_generate_tweak shr junk key sector_num =
     (let tweak = map (\<lambda>i. ucast (drop_bit (8 * i) sector_num)) [0..<8] @ replicate 8 0 in
      Option.bind (cascade_init_key (Some junk) (Some key) 16 (Some key) 16 ROUNDS_MIN 0) (\<lambda>(_, tweak_key).
      Option.bind (encrypt_with shr (\<lambda>_ _. None) tweak_key CASCADE_MODE_ECB (Some tweak) BLOCK_SIZE (Some tweak) BLOCK_SIZE None 0) (\<lambda>(_, tweak).
        tweak)))"

definition cascade_encrypt :: "shift \<Rightarrow> cascade_key_t \<Rightarrow> cascade_key_t option \<Rightarrow> cascade_mode_t \<Rightarrow> u8 list option \<Rightarrow> nat \<Rightarrow>
    u8 list option \<Rightarrow> nat \<Rightarrow> u8 list option \<Rightarrow> u64 \<Rightarrow> (cascade_error_t \<times> u8 list option) option" where
  "cascade_encrypt shr junk = encrypt_with shr (cascade_generate_tweak shr junk)"

text \<open>The body of \<open>cascade_decrypt\<close> only returns.\<close>

definition cascade_decrypt :: "cascade_key_t option \<Rightarrow> cascade_mode_t \<Rightarrow> u8 list option \<Rightarrow> nat \<Rightarrow> u8 list option \<Rightarrow> nat \<Rightarrow> u8 list option \<Rightarrow> u64 \<Rightarrow>
    (cascade_error_t \<times> u8 list option) option" where
  "cascade_decrypt key mode inp input_len output output_size iv sector_num = Some (CASCADE_SUCCESS, output)"

end
