(* ===== verification/Cascade_Crypto_Spec.thy ===== *)
theory Cascade_Crypto_Spec
  imports Cascade_Crypto
begin

text \<open>
  The cipher of \<^verbatim>\<open>cascade_crypto.c\<close>: blocks and counters, the modes of operation over any block cipher,
  the loop over the buffer as such a mode, round keys, buffers that are not whole blocks, and messages with equal encryptions.
\<close>

section \<open>Loops over the bytes of a block\<close>

lemma length_fold_update [simp]: "length (fold (\<lambda>i xs. xs[g i xs := f i xs]) is xs) = length xs"
  by (induction "is" arbitrary: xs) simp_all

lemma fold_update_upto:
  assumes "n \<le> length xs"
  shows "fold (\<lambda>i xs. xs[i := f i (xs ! i)]) [0..<n] xs = map (\<lambda>i. f i (xs ! i)) [0..<n] @ drop n xs"
  using assms
proof (induction n)
  case (Suc n)
  then show ?case by (simp add: nth_append list_update_append Cons_nth_drop_Suc[symmetric])
qed simp

lemma length_block_simps [simp]:
  "length (substitute_block b) = length b" "length (permute_block b) = length b" "length (inverse_permute_block b) = length b"
  "length (cascade_xor_blocks b c n) = length b" "length (mix_block b k) = length b"
  unfolding mix_block_def substitute_block_def permute_block_def inverse_permute_block_def cascade_xor_blocks_def Let_def by simp_all

lemma length_increment_loop [simp]: "length (increment_loop n c) = length c"
  by (induction n c rule: increment_loop.induct) (simp_all add: Let_def)

lemma length_encrypt_rounds [simp]: "length (encrypt_rounds shr key b) = length b"
proof -
  have "length (fold (\<lambda>rnd block. mix_block block (g rnd)) rs b) = length b" for g and rs :: "nat list"
    by (induction rs arbitrary: b) simp_all
  then show ?thesis by (simp add: encrypt_rounds_def)
qed

lemma substitute_block_map: "length b = BLOCK_SIZE \<Longrightarrow> substitute_block b = map (\<lambda>x. SBOX ! unat x) b"
  using fold_update_upto[of BLOCK_SIZE b "\<lambda>_ x. SBOX ! unat x"]
  by (simp add: substitute_block_def list_eq_iff_nth_eq del: upt_Suc)

text \<open>The exclusive or of two blocks.\<close>

abbreviation xor_bytes :: "u8 list \<Rightarrow> u8 list \<Rightarrow> u8 list" where
  "xor_bytes \<equiv> map2 (XOR)"

lemma cascade_xor_blocks_map2:
  "length b = n \<Longrightarrow> length c = n \<Longrightarrow> cascade_xor_blocks b c n = xor_bytes b c"
  using fold_update_upto[of n b "\<lambda>i x. x XOR c ! i"]
  by (simp add: cascade_xor_blocks_def list_eq_iff_nth_eq del: upt_Suc)

lemma xor_bytes_twice: "length b = length c \<Longrightarrow> xor_bytes (xor_bytes b c) c = b"
  by (simp add: list_eq_iff_nth_eq xor.assoc)

text \<open>The permutation of bytes is undone by its inverse.\<close>

lemma list16: "length b = 16 \<Longrightarrow> \<exists>b0 b1 b2 b3 b4 b5 b6 b7 b8 b9 b10 b11 b12 b13 b14 b15.
    b = [b0, b1, b2, b3, b4, b5, b6, b7, b8, b9, b10, b11, b12, b13, b14, b15]"
  by (simp add: numeral_eq_Suc length_Suc_conv) blast

lemma upt16: "[0..<16] = [0, 1, 2, 3, 4, 5, 6, 7, 8, 9, 10, 11, 12, 13, 14, 15]"
  by code_simp

lemma permute_roundtrip:
  assumes "length b = BLOCK_SIZE"
  shows "inverse_permute_block (permute_block b) = b" "permute_block (inverse_permute_block b) = b"
  using list16[OF assms] by (elim exE; simp add: permute_block_def inverse_permute_block_def PBOX_def Let_def upt16)+

section \<open>The counter\<close>







section \<open>Modes of operation\<close>

text \<open>The modes as functions on lists of blocks: each block is xored with a mask before and after the cipher. \<open>chain\<close> is the
  initialisation vector of CBC, \<open>ctr\<close> the counter of CTR and \<open>T\<close> the tweak of XTS.\<close>

fun cbc :: "(u8 list \<Rightarrow> u8 list) \<Rightarrow> u8 list \<Rightarrow> u8 list list \<Rightarrow> u8 list list" where
  "cbc E chain [] = []"
| "cbc E chain (b # bs) = (let y = E (xor_bytes b chain) in y # cbc E y bs)"

fun mode_spec :: "(u8 list \<Rightarrow> u8 list) \<Rightarrow> cascade_mode_t \<Rightarrow> u8 list \<Rightarrow> u8 list \<Rightarrow> u8 list \<Rightarrow> u8 list list \<Rightarrow> u8 list list" where
  "mode_spec E CASCADE_MODE_ECB chain ctr T bs = map E bs"
| "mode_spec E CASCADE_MODE_CBC chain ctr T bs = cbc E chain bs"
| "mode_spec E CASCADE_MODE_CTR chain ctr T bs = map (\<lambda>b. E (xor_bytes b ctr)) bs"
| "mode_spec E CASCADE_MODE_XTS chain ctr T bs = map (\<lambda>b. xor_bytes (E (xor_bytes b T)) T) bs"

text \<open>One block: its encryption and the chaining block for the next one.\<close>

fun mode_step :: "(u8 list \<Rightarrow> u8 list) \<Rightarrow> cascade_mode_t \<Rightarrow> u8 list \<Rightarrow> u8 list \<Rightarrow> u8 list \<Rightarrow> u8 list \<Rightarrow> u8 list \<times> u8 list" where
  "mode_step E CASCADE_MODE_ECB chain ctr T b = (E b, chain)"
| "mode_step E CASCADE_MODE_CBC chain ctr T b = (E (xor_bytes b chain), E (xor_bytes b chain))"
| "mode_step E CASCADE_MODE_CTR chain ctr T b = (E (xor_bytes b ctr), ctr)"
| "mode_step E CASCADE_MODE_XTS chain ctr T b = (xor_bytes (E (xor_bytes b T)) T, chain)"

lemma mode_spec_Nil: "mode_spec E mode chain ctr T [] = []"
  by (cases mode) simp_all

lemma mode_spec_Cons:
  "mode_step E mode chain ctr T b = (y, chain') \<Longrightarrow> mode_spec E mode chain ctr T (b # bs) = y # mode_spec E mode chain' ctr T bs"
  by (cases mode) (auto simp: Let_def)

text \<open>A block cipher that keeps the length of blocks; two blocks that it identifies give two messages that a mode
  identifies.\<close>

locale block_cipher =
  fixes E :: "u8 list \<Rightarrow> u8 list"
  assumes length_E: "length (E b) = length b"
begin

lemma mode_step_lengths:
  assumes "length b = n" "length chain = n" "length ctr = n" "length T = n" "mode_step E mode chain ctr T b = (y, chain')"
  shows "length y = n \<and> length chain' = n"
  using assms by (cases mode) (auto simp: length_E)

lemma mode_spec_collides:
  assumes "E x = E y" "x \<noteq> y" "length x = n" "length y = n" "length chain = n" "length ctr = n" "length T = n"
  shows "\<exists>b c. length b = n \<and> length c = n \<and> b \<noteq> c \<and> mode_spec E mode chain ctr T [b] = mode_spec E mode chain ctr T [c]"
proof -
  have *: "\<exists>b c. length b = n \<and> length c = n \<and> b \<noteq> c \<and> E (xor_bytes b m) = E (xor_bytes c m)" if "length m = n" for m
  proof (intro exI conjI)
    show "E (xor_bytes (xor_bytes x m) m) = E (xor_bytes (xor_bytes y m) m)" using assms that by (simp add: xor_bytes_twice)
    show "xor_bytes x m \<noteq> xor_bytes y m" using assms that xor_bytes_twice[of x m] xor_bytes_twice[of y m] by metis
  qed (use assms that in simp_all)
  show ?thesis
  proof (cases mode)
    case CASCADE_MODE_ECB
    with assms show ?thesis by auto
  next
    case CASCADE_MODE_CBC
    with *[OF assms(5)] show ?thesis by (auto simp: Let_def)
  next
    case CASCADE_MODE_CTR
    with *[OF assms(6)] show ?thesis by auto
  next
    case CASCADE_MODE_XTS
    with *[OF assms(7)] show ?thesis by simp metis
  qed
qed

end

interpretation cascade: block_cipher "encrypt_rounds shr key"
  by unfold_locales simp

section \<open>The loop over the buffer\<close>

lemma read_block_at: "length pre = pos \<Longrightarrow> length b = BLOCK_SIZE \<Longrightarrow> read_block pos (pre @ b @ rest) = Some b"
  by (simp add: read_block_def)

lemma write_block_at: "length pre = pos \<Longrightarrow> length b = BLOCK_SIZE \<Longrightarrow> write_block pos c (pre @ b @ rest) = pre @ c @ rest"
  by (simp add: write_block_def)

lemma process_mode_step:
  assumes "length b = BLOCK_SIZE" "length chain = BLOCK_SIZE" "length T = BLOCK_SIZE" "length v = BLOCK_SIZE"
  shows "Option.bind (pre_process mode (Some v) T chain b) (\<lambda>(b, chain). Some (post_process mode T chain (encrypt_rounds shr key b))) =
    Some (mode_step (encrypt_rounds shr key) mode chain (cascade_increment_counter v BLOCK_SIZE) T b)"
  using assms
  by (cases mode) (simp_all add: cascade_xor_blocks_map2 read_block_def cascade_increment_counter_def Let_def)

lemma encrypt_loop_Cons:
  assumes "read_block pos out = Some b"
    and "Option.bind (pre_process mode iv T chain b) (\<lambda>(b, chain). Some (post_process mode T chain (encrypt_rounds shr key b))) = Some (y, chain')"
  shows "encrypt_loop shr key mode iv T (pos # ps) chain out = encrypt_loop shr key mode iv T ps chain' (write_block pos y out)"
  using assms by (auto simp: bind_eq_Some_conv Let_def split: prod.splits)

lemma encrypt_loop_spec:
  assumes "\<forall>b \<in> set bs. length b = BLOCK_SIZE" "length chain = BLOCK_SIZE" "length pre = BLOCK_SIZE * j"
    and T: "length T = BLOCK_SIZE" and v: "length v = BLOCK_SIZE"
  shows "encrypt_loop shr key mode (Some v) T (map (\<lambda>k. BLOCK_SIZE * k) [j..<j + length bs]) chain (pre @ concat bs @ rest) =
    Some (pre @ concat (mode_spec (encrypt_rounds shr key) mode chain (cascade_increment_counter v BLOCK_SIZE) T bs) @ rest)"
  using assms(1-3)
proof (induction bs arbitrary: chain pre j)
  case Nil
  show ?case by (simp add: mode_spec_Nil)
next
  case (Cons b bs)
  let ?ctr = "cascade_increment_counter v BLOCK_SIZE"
  have b: "length b = BLOCK_SIZE" and ctr: "length ?ctr = BLOCK_SIZE"
    using Cons.prems(1) v by (simp_all add: cascade_increment_counter_def)
  obtain y chain' where st: "mode_step (encrypt_rounds shr key) mode chain ?ctr T b = (y, chain')" by fastforce
  have len: "length y = BLOCK_SIZE" "length chain' = BLOCK_SIZE"
    using cascade.mode_step_lengths[OF b Cons.prems(2) ctr T st] by simp_all
  have ps: "map (\<lambda>k. BLOCK_SIZE * k) [j..<j + length (b # bs)] = BLOCK_SIZE * j # map (\<lambda>k. BLOCK_SIZE * k) [Suc j..<Suc j + length bs]"
    by (simp add: upt_conv_Cons del: upt_Suc)
  have "encrypt_loop shr key mode (Some v) T (map (\<lambda>k. BLOCK_SIZE * k) [j..<j + length (b # bs)]) chain (pre @ b @ concat bs @ rest) =
      encrypt_loop shr key mode (Some v) T (map (\<lambda>k. BLOCK_SIZE * k) [Suc j..<Suc j + length bs]) chain' ((pre @ y) @ concat bs @ rest)"
    unfolding ps using encrypt_loop_Cons[OF read_block_at[OF Cons.prems(3) b] process_mode_step[OF b Cons.prems(2) T v, of mode shr key, unfolded st]]
      write_block_at[OF Cons.prems(3) b] by simp
  also have "\<dots> = Some ((pre @ y) @ concat (mode_spec (encrypt_rounds shr key) mode chain' ?ctr T bs) @ rest)"
    using Cons.prems len by (intro Cons.IH) auto
  finally show ?case using mode_spec_Cons[OF st] by simp
qed

section \<open>Messages as lists of blocks\<close>

definition blocks :: "u8 list \<Rightarrow> u8 list list" where
  "blocks xs = map (\<lambda>k. take BLOCK_SIZE (drop (BLOCK_SIZE * k) xs)) [0..<length xs div BLOCK_SIZE]"

lemma blocks_length: "b \<in> set (blocks xs) \<Longrightarrow> length b = BLOCK_SIZE"
proof -
  assume "b \<in> set (blocks xs)"
  then obtain k where "k < length xs div BLOCK_SIZE" "b = take BLOCK_SIZE (drop (BLOCK_SIZE * k) xs)" by (auto simp: blocks_def)
  moreover have "BLOCK_SIZE * Suc k \<le> BLOCK_SIZE * (length xs div BLOCK_SIZE)" if "k < length xs div BLOCK_SIZE" for k
    using that by (intro mult_le_mono2) simp
  ultimately show ?thesis by fastforce
qed

lemma concat_blocks_prefix: "BLOCK_SIZE * n \<le> length xs \<Longrightarrow>
    concat (map (\<lambda>k. take BLOCK_SIZE (drop (BLOCK_SIZE * k) xs)) [0..<n]) = take (BLOCK_SIZE * n) xs"
  by (induction n) (simp_all add: take_add[symmetric] add.commute)

lemma concat_blocks: "BLOCK_SIZE dvd length xs \<Longrightarrow> concat (blocks xs) = xs"
  by (simp add: blocks_def concat_blocks_prefix)

lemma length_blocks: "length (blocks xs) = length xs div BLOCK_SIZE"
  by (simp add: blocks_def)

lemma positions_blocks: "BLOCK_SIZE dvd length xs \<Longrightarrow> positions (length xs) = map (\<lambda>k. BLOCK_SIZE * k) [0..<0 + length (blocks xs)]"
  by (auto simp: positions_def length_blocks elim!: dvdE)

lemma mode_spec_chain: "mode \<noteq> CASCADE_MODE_CBC \<Longrightarrow> mode_spec E mode chain ctr T bs = mode_spec E mode chain' ctr T bs"
  by (cases mode) simp_all

section \<open>The tweak\<close>

definition sector_block :: "u64 \<Rightarrow> u8 list" where
  "sector_block n = map (\<lambda>i. ucast (drop_bit (8 * i) n)) [0..<8] @ replicate 8 0"

text \<open>The key is refused because of its length, and the result is not looked at: the tweak is encrypted with whatever the local
  key structure contains.\<close>

lemma cascade_generate_tweak_junk: "cascade_generate_tweak shr junk key sector_num = Some (encrypt_rounds shr junk (sector_block sector_num))"
proof -
  have len: "length (sector_block sector_num) = BLOCK_SIZE" by (simp add: sector_block_def)
  have "positions BLOCK_SIZE = [0]" by (simp add: positions_def)
  with len show ?thesis
    by (simp add: cascade_generate_tweak_def cascade_init_key_def encrypt_with_def sector_block_def[symmetric] read_block_def write_block_def Let_def)
qed

section \<open>Buffers that are not whole blocks\<close>

lemma pre_process_length: "pre_process mode iv T chain b = Some (b', chain') \<Longrightarrow> length b' = length b"
  by (cases mode) (auto simp: bind_eq_Some_conv Let_def)

lemma post_process_length: "post_process mode T chain b = (b', chain') \<Longrightarrow> length b' = length b"
  by (cases mode) auto

lemma encrypt_loop_overrun:
  "p \<in> set ps \<Longrightarrow> length out < p + BLOCK_SIZE \<Longrightarrow> encrypt_loop shr key mode iv T ps chain out = None"
proof (induction ps arbitrary: chain out)
  case (Cons q ps)
  show ?case
  proof (cases "encrypt_loop shr key mode iv T (q # ps) chain out")
    case (Some r)
    then obtain b c c' where b: "read_block q out = Some b" "pre_process mode iv T chain b = Some (c, c')"
      and *: "encrypt_loop shr key mode iv T ps (snd (post_process mode T c' (encrypt_rounds shr key c)))
        (write_block q (fst (post_process mode T c' (encrypt_rounds shr key c))) out) = Some r"
      by (fastforce simp: bind_eq_Some_conv Let_def case_prod_beta)
    have q: "q + BLOCK_SIZE \<le> length out" and "length b = BLOCK_SIZE" using b(1) by (auto simp: read_block_def split: if_splits)
    then have "length (fst (post_process mode T c' (encrypt_rounds shr key c))) = BLOCK_SIZE"
      using pre_process_length[OF b(2)] post_process_length[of mode T c' "encrypt_rounds shr key c", OF prod.collapse[symmetric]] by simp
    then have "length (write_block q (fst (post_process mode T c' (encrypt_rounds shr key c))) out) = length out"
      using q by (simp add: write_block_def)
    moreover have "p \<in> set ps" using Cons.prems q by auto
    ultimately show ?thesis using Cons.IH Cons.prems(2) * by fastforce
  qed
qed simp

section \<open>Round keys\<close>

text \<open>The first three round keys are the primary key xored with bytes of the seed. From the fourth round on the key depends on
  shifts that C does not define, and every valid key has at least ten rounds.\<close>

lemma generate_round_key_map:
  assumes "BLOCK_SIZE \<le> length (ck_primary_key key)"
  shows "generate_round_key shr key rnd =
    map (\<lambda>i. ck_primary_key key ! i XOR ucast (shr (ck_seed key) (unat (rnd * 8) + i) AND 0xFF)) [0..<BLOCK_SIZE]"
  using fold_update_upto[of BLOCK_SIZE "take BLOCK_SIZE (ck_primary_key key)"
      "\<lambda>i x. x XOR ucast (shr (ck_seed key) (unat (rnd * 8) + i) AND 0xFF)"] assms
  by (simp add: generate_round_key_def del: upt_Suc)

lemma generate_round_key_defined:
  assumes "shifts_right shr" "rnd < 3" "BLOCK_SIZE \<le> length (ck_primary_key key)"
  shows "generate_round_key shr key rnd =
    map (\<lambda>i. ck_primary_key key ! i XOR ucast (drop_bit (8 * unat rnd + i) (ck_seed key) AND 0xFF)) [0..<BLOCK_SIZE]"
proof -
  have r: "unat rnd < 3" using assms(2) by (simp add: word_less_nat_alt)
  then have "unat (rnd * 8) = 8 * unat rnd" by (simp add: unat_word_ariths)
  with r assms(1,3) show ?thesis by (auto simp: generate_round_key_map shifts_right_def)
qed

lemma generate_round_key_undefined:
  assumes "BLOCK_SIZE \<le> length (ck_primary_key key)"
  shows "\<exists>shr shr'. shifts_right shr \<and> shifts_right shr' \<and> generate_round_key shr key 3 \<noteq> generate_round_key shr' key 3"
proof (intro exI conjI)
  let ?shr = "\<lambda>v x n. if n < 32 then drop_bit n x else (v :: u32)"
  show "shifts_right (?shr 0)" "shifts_right (?shr 1)" by (simp_all add: shifts_right_def)
  have b8: "generate_round_key (?shr v) key 3 ! 8 = ck_primary_key key ! 8 XOR ucast (v AND 0xFF)" for v
    using assms by (simp add: generate_round_key_map)
  have "x XOR 1 \<noteq> x" for x :: u8 by (metis xor.assoc xor_self_eq xor.left_neutral zero_neq_one)
  with b8[of 0] b8[of 1] show "generate_round_key (?shr 0) key 3 \<noteq> generate_round_key (?shr 1) key 3" by auto
qed

section \<open>Collisions of the cipher\<close>

lemma encrypt_rounds_collides:
  assumes "ck_rounds key \<noteq> 0" "length b = 15"
  shows "encrypt_rounds shr key (0x30 # b) = encrypt_rounds shr key (0x31 # b)"
proof -
  have "substitute_block (0x30 # b) = substitute_block (0x31 # b)"
    using assms(2) by (simp add: substitute_block_map SBOX_def nth_append)
  then have "mix_block (0x30 # b) k = mix_block (0x31 # b) k" for k by (simp add: mix_block_def)
  moreover have "[0..<unat (ck_rounds key)] = 0 # [1..<unat (ck_rounds key)]" using assms(1) by (simp add: upt_conv_Cons unat_gt_0)
  ultimately show ?thesis by (simp add: encrypt_rounds_def)
qed

lemma cascade_encrypt_invalid:
  "key = None \<or> inp = None \<or> output = None \<or> input_len = 0 \<Longrightarrow>
   cascade_encrypt shr junk key mode inp input_len output output_size iv sector_num = Some (CASCADE_ERROR_INVALID_INPUT, output)"
  by (auto simp: cascade_encrypt_def encrypt_with_def split: option.splits)

text \<open>A message that does not end with a block, in a buffer that does not: the last block is read and written beyond the buffer.\<close>

lemma cascade_encrypt_overruns:
  assumes "\<not> BLOCK_SIZE dvd length inp" "length inp \<le> length out" "length out < BLOCK_SIZE * (length inp div BLOCK_SIZE + 1)" "length iv = BLOCK_SIZE"
  shows "cascade_encrypt shr junk (Some k) mode (Some inp) (length inp) (Some out) (length out) (Some iv) sector_num = None"
proof -
  let ?q = "length inp div BLOCK_SIZE"
  have "0 < length inp mod BLOCK_SIZE" using assms(1) by (simp add: dvd_eq_mod_eq_0)
  then have "?q < (length inp + (BLOCK_SIZE - 1)) div BLOCK_SIZE" by presburger
  then have p: "BLOCK_SIZE * ?q \<in> set (positions (length inp))" by (auto simp: positions_def)
  have "inp \<noteq> []" using assms(1) by auto
  moreover have "length (inp @ drop (length inp) out) < BLOCK_SIZE * ?q + BLOCK_SIZE" using assms(2,3) by simp
  ultimately show ?thesis using assms(2,4) encrypt_loop_overrun[OF p]
    by (auto simp: cascade_encrypt_def encrypt_with_def cascade_generate_tweak_junk bind_eq_None_conv Let_def)
qed

lemma cascade_encrypt_blocks:
  assumes "BLOCK_SIZE dvd length inp" "inp \<noteq> []" "length iv = BLOCK_SIZE"
  shows "cascade_encrypt shr junk (Some k) mode (Some inp) (length inp) (Some out) (length out) (Some iv) sector_num =
    (if length out < length inp then Some (CASCADE_ERROR_BUFFER_TOO_SMALL, Some out)
     else Some (CASCADE_SUCCESS, Some (concat (mode_spec (encrypt_rounds shr k) mode iv (cascade_increment_counter iv BLOCK_SIZE)
       (encrypt_rounds shr junk (sector_block sector_num)) (blocks inp)) @ drop (length inp) out)))"
proof -
  let ?chain = "if mode = CASCADE_MODE_CBC then iv else replicate BLOCK_SIZE 0"
  let ?T = "if mode = CASCADE_MODE_XTS then encrypt_rounds shr junk (sector_block sector_num) else replicate BLOCK_SIZE 0"
  let ?E = "encrypt_rounds shr k" and ?ctr = "cascade_increment_counter iv BLOCK_SIZE"
  have len: "length ?chain = BLOCK_SIZE" "length ?T = BLOCK_SIZE" using assms(3) by (simp_all add: sector_block_def)
  have "encrypt_loop shr k mode (Some iv) ?T (positions (length inp)) ?chain (inp @ drop (length inp) out) =
      Some (concat (mode_spec ?E mode ?chain ?ctr ?T (blocks inp)) @ drop (length inp) out)"
    using encrypt_loop_spec[of "blocks inp" ?chain "[]" 0 ?T iv shr k mode "drop (length inp) out"] len assms
    by (simp add: blocks_length concat_blocks positions_blocks del: if_split)
  moreover have "mode_spec ?E mode ?chain ?ctr ?T (blocks inp) =
      mode_spec ?E mode iv ?ctr (encrypt_rounds shr junk (sector_block sector_num)) (blocks inp)"
    by (cases mode) simp_all
  moreover have "read_block 0 iv = Some iv" using assms(3) by (simp add: read_block_def)
  ultimately show ?thesis
    using assms(2) by (cases "mode = CASCADE_MODE_CBC"; cases "mode = CASCADE_MODE_XTS")
      (simp_all add: cascade_encrypt_def encrypt_with_def cascade_generate_tweak_junk)
qed

section \<open>Properties\<close>


definition ex_cascade_key :: cascade_key_t where
  "ex_cascade_key = \<lparr>ck_primary_key = map of_nat [0..<32], ck_tweak_key = map of_nat [0..<16], ck_rounds = 10, ck_seed = 0x12345678\<rparr>"


text \<open>C39: \<open>cascade_encrypt\<close> cannot be undone: whatever the key, the machine's shift, the mode and the initialisation vector, two
  different messages have the same encryption, because 208 entries of \<open>SBOX\<close> are missing and therefore 0.\<close>

theorem cascade_encrypt_not_invertible:
  assumes "ck_rounds k \<noteq> 0" "length iv = BLOCK_SIZE" "BLOCK_SIZE \<le> length out"
  shows "\<exists>x y z. length x = BLOCK_SIZE \<and> length y = BLOCK_SIZE \<and> x \<noteq> y \<and>
    cascade_encrypt shr junk (Some k) mode (Some x) BLOCK_SIZE (Some out) (length out) (Some iv) sector_num = Some (CASCADE_SUCCESS, Some z) \<and>
    cascade_encrypt shr junk (Some k) mode (Some y) BLOCK_SIZE (Some out) (length out) (Some iv) sector_num = Some (CASCADE_SUCCESS, Some z)"
proof -
  let ?ctr = "cascade_increment_counter iv BLOCK_SIZE" and ?T = "encrypt_rounds shr junk (sector_block sector_num)"
  let ?b = "replicate 15 0 :: u8 list"
  have len: "length ?ctr = BLOCK_SIZE" "length ?T = BLOCK_SIZE" using assms(2) by (simp_all add: cascade_increment_counter_def sector_block_def)
  have "\<exists>x y. length x = BLOCK_SIZE \<and> length y = BLOCK_SIZE \<and> x \<noteq> y \<and>
      mode_spec (encrypt_rounds shr k) mode iv ?ctr ?T [x] = mode_spec (encrypt_rounds shr k) mode iv ?ctr ?T [y]"
    using encrypt_rounds_collides[OF assms(1), of ?b] assms(2) len
    by (intro cascade.mode_spec_collides[of _ _ "0x30 # ?b" "0x31 # ?b"]) simp_all
  then obtain x y where xy: "length x = BLOCK_SIZE" "length y = BLOCK_SIZE" "x \<noteq> y"
      "mode_spec (encrypt_rounds shr k) mode iv ?ctr ?T [x] = mode_spec (encrypt_rounds shr k) mode iv ?ctr ?T [y]" by blast
  have one: "blocks u = [u]" "u \<noteq> []" if "length u = BLOCK_SIZE" for u using that by (auto simp: blocks_def)
  show ?thesis
    using cascade_encrypt_blocks[of x iv shr junk k mode out sector_num] cascade_encrypt_blocks[of y iv shr junk k mode out sector_num] xy one assms(2,3)
    by (intro exI[of _ x] exI[of _ y] exI[of _ "concat (mode_spec (encrypt_rounds shr k) mode iv ?ctr ?T [y]) @ drop BLOCK_SIZE out"]) simp
qed

theorem cascade_encrypt_not_invertible_witness:
  "\<exists>x y. x \<noteq> y \<and>
    cascade_encrypt (\<lambda>x n. drop_bit n x) ex_cascade_key (Some ex_cascade_key) CASCADE_MODE_XTS (Some x) 16 (Some (replicate 16 0)) 16 (Some (replicate 16 0)) 5 =
    cascade_encrypt (\<lambda>x n. drop_bit n x) ex_cascade_key (Some ex_cascade_key) CASCADE_MODE_XTS (Some y) 16 (Some (replicate 16 0)) 16 (Some (replicate 16 0)) 5"
proof -
  have r: "ck_rounds ex_cascade_key \<noteq> 0" by (simp add: ex_cascade_key_def)
  have l: "length (replicate 16 (0 :: u8)) = 16" by simp
  note cascade_encrypt_not_invertible[OF r l eq_refl[OF l[symmetric]], of "\<lambda>x n. drop_bit n x" ex_cascade_key CASCADE_MODE_XTS 5, unfolded l]
  then show ?thesis by metis
qed

end
