(* ===== verification/Kernel_List.thy ===== *)
theory Kernel_List
  imports Simulation
begin

text \<open>
  The doubly linked lists of the Linux kernel (\<open>linux/list.h\<close>), which the kernel modules of the repository use and the repository does
  not contain: their operations are a parameter of the models, and what the modules rely on is the hypothesis
  \<open>kernel_list_laws\<close>. \<open>kl_elems\<close> is the order in which \<open>list_for_each_entry\<close> visits the entries; an entry is on one list at most, so
  that \<open>list_del\<close> is given the list the entry is on.
\<close>

record ('l, 'a) kernel_list =
  INIT_LIST_HEAD :: 'l
  list_add_tail :: "'a \<Rightarrow> 'l \<Rightarrow> 'l"
  list_del :: "'a \<Rightarrow> 'l \<Rightarrow> 'l"
  list_empty :: "'l \<Rightarrow> bool"
  list_first_entry :: "'l \<Rightarrow> 'a"
  kl_elems :: "'l \<Rightarrow> 'a list"
  list_add :: "'a \<Rightarrow> 'l \<Rightarrow> 'l"

definition kernel_list_laws :: "('l, 'a) kernel_list \<Rightarrow> bool" where
  "kernel_list_laws K \<longleftrightarrow>
     kl_elems K (INIT_LIST_HEAD K) = [] \<and>
     (\<forall>x l. x \<notin> set (kl_elems K l) \<longrightarrow> kl_elems K (list_add_tail K x l) = kl_elems K l @ [x]) \<and>
     (\<forall>x l. x \<in> set (kl_elems K l) \<longrightarrow> kl_elems K (list_del K x l) = remove1 x (kl_elems K l)) \<and>
     (\<forall>l. list_empty K l \<longleftrightarrow> kl_elems K l = []) \<and>
     (\<forall>l. kl_elems K l \<noteq> [] \<longrightarrow> list_first_entry K l = hd (kl_elems K l)) \<and>
     (\<forall>x l. x \<notin> set (kl_elems K l) \<longrightarrow> kl_elems K (list_add K x l) = x # kl_elems K l)"

lemma kernel_list_simps:
  assumes "kernel_list_laws K"
  shows "kl_elems K (INIT_LIST_HEAD K) = []"
    and "x \<notin> set (kl_elems K l) \<Longrightarrow> kl_elems K (list_add_tail K x l) = kl_elems K l @ [x]"
    and "x \<in> set (kl_elems K l) \<Longrightarrow> kl_elems K (list_del K x l) = remove1 x (kl_elems K l)"
    and "list_empty K l \<longleftrightarrow> kl_elems K l = []"
    and "kl_elems K l \<noteq> [] \<Longrightarrow> list_first_entry K l = hd (kl_elems K l)"
    and "x \<notin> set (kl_elems K l) \<Longrightarrow> kl_elems K (list_add K x l) = x # kl_elems K l"
  using assms by (auto simp: kernel_list_laws_def)

text \<open>The laws can hold: lists of HOL satisfy them.\<close>

definition hol_list :: "('a list, 'a) kernel_list" where
  "hol_list = \<lparr>INIT_LIST_HEAD = [], list_add_tail = (\<lambda>x l. l @ [x]), list_del = remove1, list_empty = (\<lambda>l. l = []),
     list_first_entry = hd, kl_elems = (\<lambda>l. l), list_add = (#)\<rparr>"

lemma hol_list_laws: "kernel_list_laws hol_list"
  by (simp add: kernel_list_laws_def hol_list_def)

end
