(* ===== verification/Memory_Pool.thy ===== *)
theory Memory_Pool
  imports Kernel_List
begin

text \<open>
  Model of \<open>memory_pool.c\<close>: a pool of elements with a list of free and a list of used ones, that grows up to a maximum, and an emergency
  pool. \<open>K\<close> are the lists of the kernel, the results of the kernel's allocator are arguments, \<open>now\<close> is \<open>jiffies\<close>; the addresses
  passed to \<open>kfree\<close> are collected in \<open>pm_freed\<close>. A \<open>pool\<close> argument of 0 is the null pointer.

  \<open>mempool_alloc\<close> drops the lock of the pool while it allocates a new element. Its sections under the lock are separate
  definitions, composed to \<open>mempool_alloc\<close> for one thread, and steps of \<open>pool_step\<close> for threads that run at the same time.
\<close>

section \<open>Data\<close>

record mempool_elem =
  me_size :: u64
  me_data :: addr
  me_node_id :: int
  me_flags :: u64
  me_last_used :: u64

record mempool_stats =
  ms_alloc_count :: u32
  ms_free_count :: u32
  ms_failed_allocs :: u32
  ms_emergency_allocs :: u32

record emergency_pool =
  ep_elements :: "addr list"
  ep_nr_elements :: u64
  ep_in_use :: u32

record 'l mempool_config =
  mp_elem_size :: u64
  mp_min_nr :: u64
  mp_max_nr :: u64
  mp_curr_nr :: u64
  mp_flags :: u32
  mp_free_list :: 'l
  mp_used_list :: 'l
  mp_node_usage :: addr
  mp_stats :: mempool_stats
  mp_pool_data :: "emergency_pool option"
  mp_state :: u32

record 'l pool_mem =
  pm_pool :: "'l mempool_config"
  pm_elem :: "addr \<Rightarrow> mempool_elem"
  pm_freed :: "addr list"

type_synonym 'l lists = "('l, addr) kernel_list"

abbreviation (input) MEMPOOL_NUMA_AWARE :: u32 where "MEMPOOL_NUMA_AWARE \<equiv> 0x04"
abbreviation (input) MEMPOOL_PREALLOC :: u32 where "MEMPOOL_PREALLOC \<equiv> 0x08"
abbreviation (input) MEMPOOL_EMERGENCY :: u32 where "MEMPOOL_EMERGENCY \<equiv> 0x10"
abbreviation (input) POOL_STATE_ACTIVE :: u32 where "POOL_STATE_ACTIVE \<equiv> 0x01"
abbreviation (input) NUMA_NO_NODE :: int where "NUMA_NO_NODE \<equiv> - 1"
abbreviation (input) EINVAL :: int where "EINVAL \<equiv> 22"
abbreviation (input) ENOMEM :: int where "ENOMEM \<equiv> 12"

abbreviation upd_pool :: "('l mempool_config \<Rightarrow> 'l mempool_config) \<Rightarrow> 'l pool_mem \<Rightarrow> 'l pool_mem" where
  "upd_pool f s \<equiv> s\<lparr>pm_pool := f (pm_pool s)\<rparr>"

abbreviation upd_stats :: "(mempool_stats \<Rightarrow> mempool_stats) \<Rightarrow> 'l pool_mem \<Rightarrow> 'l pool_mem" where
  "upd_stats f \<equiv> upd_pool (\<lambda>p. p\<lparr>mp_stats := f (mp_stats p)\<rparr>)"

abbreviation kfree :: "addr \<Rightarrow> 'l pool_mem \<Rightarrow> 'l pool_mem" where
  "kfree a s \<equiv> s\<lparr>pm_freed := pm_freed s @ [a]\<rparr>"

section \<open>Allocation\<close>

text \<open>The first section under the lock: an element of the free list, or whether the pool may grow.\<close>

datatype alloc_outcome = Alloc_Got addr | Alloc_Grow | Alloc_Full

definition alloc_locked :: "'l lists \<Rightarrow> u64 \<Rightarrow> 'l pool_mem \<Rightarrow> alloc_outcome \<times> 'l pool_mem" where
  "alloc_locked K now s =
     (let p = pm_pool s in
      if \<not> list_empty K (mp_free_list p) then
        let elem = list_first_entry K (mp_free_list p);
            s = upd_pool (\<lambda>p. p\<lparr>mp_free_list := list_del K elem (mp_free_list p)\<rparr>) s;
            s = upd_pool (\<lambda>p. p\<lparr>mp_used_list := list_add_tail K elem (mp_used_list p)\<rparr>) s;
            s = s\<lparr>pm_elem := (pm_elem s)(elem := (pm_elem s elem)\<lparr>me_last_used := now\<rparr>)\<rparr>
        in (Alloc_Got (me_data (pm_elem s elem)), upd_stats (\<lambda>st. st\<lparr>ms_alloc_count := ms_alloc_count st + 1\<rparr>) s)
      else if mp_curr_nr p < mp_max_nr p then (Alloc_Grow, s)
      else (Alloc_Full, s))"

text \<open>The element made of the two blocks of memory \<open>elem\<close> and \<open>data\<close>, and the second section under the lock, which adds it.\<close>

definition new_elem :: "u64 \<Rightarrow> addr \<Rightarrow> 'l mempool_config \<Rightarrow> mempool_elem" where
  "new_elem now data p = \<lparr>me_size = mp_elem_size p, me_data = data, me_node_id = NUMA_NO_NODE, me_flags = 0, me_last_used = now\<rparr>"

definition alloc_add :: "'l lists \<Rightarrow> u64 \<Rightarrow> addr \<Rightarrow> addr \<Rightarrow> 'l pool_mem \<Rightarrow> 'l pool_mem" where
  "alloc_add K now elem data s =
     (let s = s\<lparr>pm_elem := (pm_elem s)(elem := new_elem now data (pm_pool s))\<rparr>;
          s = upd_pool (\<lambda>p. p\<lparr>mp_used_list := list_add_tail K elem (mp_used_list p), mp_curr_nr := mp_curr_nr p + 1\<rparr>) s
      in upd_stats (\<lambda>st. st\<lparr>ms_alloc_count := ms_alloc_count st + 1\<rparr>) s)"

definition mempool_alloc_emergency :: "addr \<Rightarrow> 'l pool_mem \<Rightarrow> addr \<times> 'l pool_mem" where
  "mempool_alloc_emergency pool s =
     (if pool = NULL then (NULL, s)
      else case mp_pool_data (pm_pool s) of
        None \<Rightarrow> (NULL, s)
      | Some ep \<Rightarrow>
          let idx = ep_in_use ep in
          if unat idx < unat (ep_nr_elements ep)
          then (ep_elements ep ! unat idx, upd_pool (\<lambda>p. p\<lparr>mp_pool_data := Some (ep\<lparr>ep_in_use := idx + 1\<rparr>)\<rparr>) s)
          else (NULL, s))"

text \<open>From the label \<open>try_emergency\<close> on.\<close>

definition try_emergency :: "addr \<Rightarrow> 'l pool_mem \<Rightarrow> addr \<times> 'l pool_mem" where
  "try_emergency pool s =
     (let (ptr, s) = (if mp_flags (pm_pool s) AND MEMPOOL_EMERGENCY \<noteq> 0 then mempool_alloc_emergency pool s else (NULL, s)) in
      if ptr \<noteq> NULL then (ptr, upd_stats (\<lambda>st. st\<lparr>ms_emergency_allocs := ms_emergency_allocs st + 1\<rparr>) s)
      else (NULL, upd_stats (\<lambda>st. st\<lparr>ms_failed_allocs := ms_failed_allocs st + 1\<rparr>) s))"

text \<open>\<open>elem\<close> and \<open>data\<close> are the results of the two calls of \<open>kmalloc\<close>.\<close>

definition mempool_alloc :: "'l lists \<Rightarrow> u64 \<Rightarrow> addr \<Rightarrow> addr \<Rightarrow> addr \<Rightarrow> 'l pool_mem \<Rightarrow> addr \<times> 'l pool_mem" where
  "mempool_alloc K now elem data pool s =
     (if pool = NULL then (NULL, s)
      else case alloc_locked K now s of
        (Alloc_Got ptr, s) \<Rightarrow> (ptr, s)
      | (Alloc_Grow, s) \<Rightarrow>
          if elem = NULL then try_emergency pool s
          else if data = NULL then try_emergency pool (kfree elem s)
          else (data, alloc_add K now elem data s)
      | (Alloc_Full, s) \<Rightarrow> try_emergency pool s)"

definition mempool_free :: "'l lists \<Rightarrow> addr \<Rightarrow> addr \<Rightarrow> 'l pool_mem \<Rightarrow> 'l pool_mem" where
  "mempool_free K element pool s =
     (if pool = NULL \<or> element = NULL then s
      else case find (\<lambda>e. me_data (pm_elem s e) = element) (kl_elems K (mp_used_list (pm_pool s))) of
        None \<Rightarrow> s
      | Some found \<Rightarrow>
          let s = upd_pool (\<lambda>p. p\<lparr>mp_used_list := list_del K found (mp_used_list p)\<rparr>) s;
              s = upd_pool (\<lambda>p. p\<lparr>mp_free_list := list_add_tail K found (mp_free_list p)\<rparr>) s
          in upd_stats (\<lambda>st. st\<lparr>ms_free_count := ms_free_count st + 1\<rparr>) s)"

section \<open>Creation and destruction\<close>

text \<open>\<open>ep\<close>, \<open>arr\<close> and \<open>ds\<close> are the results of the allocations of the structure, the array and its elements.\<close>

definition mempool_init_emergency :: "addr \<Rightarrow> addr \<Rightarrow> addr list \<Rightarrow> addr \<Rightarrow> 'l pool_mem \<Rightarrow> int \<times> 'l pool_mem" where
  "mempool_init_emergency ep arr ds pool s =
     (if pool = NULL then (- EINVAL, s)
      else if ep = NULL then (- ENOMEM, s)
      else
        let nr = mp_min_nr (pm_pool s) div 4 in
        if arr = NULL then (- ENOMEM, kfree ep s)
        else
          let ds = take (unat nr) ds; got = takeWhile (\<lambda>d. d \<noteq> NULL) ds in
          if NULL \<in> set ds then (- ENOMEM, kfree ep (kfree arr (fold kfree (rev got) s)))
          else (0, upd_pool (\<lambda>p. p\<lparr>mp_pool_data := Some \<lparr>ep_elements = ds, ep_nr_elements = nr, ep_in_use = 0\<rparr>\<rparr>) s))"

definition free_elem :: "addr \<Rightarrow> 'l pool_mem \<Rightarrow> 'l pool_mem" where
  "free_elem elem s = kfree elem (kfree (me_data (pm_elem s elem)) s)"

definition mempool_destroy :: "'l lists \<Rightarrow> addr \<Rightarrow> 'l pool_mem \<Rightarrow> 'l pool_mem" where
  "mempool_destroy K pool s =
     (if pool = NULL then s
      else
        let s = fold (\<lambda>e s. free_elem e (upd_pool (\<lambda>p. p\<lparr>mp_free_list := list_del K e (mp_free_list p)\<rparr>) s))
                  (kl_elems K (mp_free_list (pm_pool s))) s;
            s = fold (\<lambda>e s. free_elem e (upd_pool (\<lambda>p. p\<lparr>mp_used_list := list_del K e (mp_used_list p)\<rparr>) s))
                  (kl_elems K (mp_used_list (pm_pool s))) s
        in kfree pool (kfree (mp_node_usage (pm_pool s)) s))"

text \<open>The loop of the preallocation; \<open>es\<close> are the results of the two allocations in each round. The result tells whether all of them succeeded.\<close>

fun prealloc_loop :: "'l lists \<Rightarrow> u64 \<Rightarrow> (addr \<times> addr) list \<Rightarrow> 'l pool_mem \<Rightarrow> bool \<times> 'l pool_mem" where
  "prealloc_loop K now [] s = (True, s)"
| "prealloc_loop K now ((elem, data) # es) s =
     (if elem = NULL then (False, s)
      else if data = NULL then (False, kfree elem s)
      else
        let s = s\<lparr>pm_elem := (pm_elem s)(elem := new_elem now data (pm_pool s))\<rparr> in
        prealloc_loop K now es
          (upd_pool (\<lambda>p. p\<lparr>mp_free_list := list_add_tail K elem (mp_free_list p), mp_curr_nr := mp_curr_nr p + 1\<rparr>) s))"

text \<open>Memory from \<open>kzalloc\<close> is zero; the name and the allocation flags of the pool are only stored.\<close>

definition new_pool :: "'l lists \<Rightarrow> u64 \<Rightarrow> u64 \<Rightarrow> u64 \<Rightarrow> u32 \<Rightarrow> (addr \<Rightarrow> mempool_elem) \<Rightarrow> 'l pool_mem" where
  "new_pool K elem_size min_nr max_nr flags m =
     \<lparr>pm_pool = \<lparr>mp_elem_size = elem_size, mp_min_nr = min_nr, mp_max_nr = max_nr, mp_curr_nr = 0, mp_flags = flags,
        mp_free_list = INIT_LIST_HEAD K, mp_used_list = INIT_LIST_HEAD K, mp_node_usage = NULL,
        mp_stats = \<lparr>ms_alloc_count = 0, ms_free_count = 0, ms_failed_allocs = 0, ms_emergency_allocs = 0\<rparr>,
        mp_pool_data = None, mp_state = POOL_STATE_ACTIVE\<rparr>, pm_elem = m, pm_freed = []\<rparr>"

text \<open>\<open>pool\<close>, \<open>usage\<close>, \<open>es\<close> and \<open>ep\<close>, \<open>arr\<close>, \<open>ds\<close> are the results of the allocations.\<close>

definition mempool_create :: "'l lists \<Rightarrow> u64 \<Rightarrow> addr \<Rightarrow> addr \<Rightarrow> (addr \<times> addr) list \<Rightarrow> addr \<Rightarrow> addr \<Rightarrow> addr list \<Rightarrow>
    addr \<Rightarrow> u64 \<Rightarrow> u64 \<Rightarrow> u64 \<Rightarrow> u32 \<Rightarrow> (addr \<Rightarrow> mempool_elem) \<Rightarrow> addr \<times> 'l pool_mem" where
  "mempool_create K now pool usage es ep arr ds name elem_size min_nr max_nr flags m =
     (let s = new_pool K elem_size min_nr max_nr flags m in
      if name = NULL \<or> elem_size = 0 \<or> min_nr > max_nr then (NULL, s)
      else if pool = NULL then (NULL, s)
      else if flags AND MEMPOOL_NUMA_AWARE \<noteq> 0 \<and> usage = NULL then (NULL, kfree pool s)
      else
        let s = (if flags AND MEMPOOL_NUMA_AWARE \<noteq> 0 then upd_pool (\<lambda>p. p\<lparr>mp_node_usage := usage\<rparr>) s else s);
            (ok, s) = (if flags AND MEMPOOL_PREALLOC \<noteq> 0 then prealloc_loop K now (take (unat min_nr) es) s else (True, s)) in
        if \<not> ok then (NULL, mempool_destroy K pool s)
        else if flags AND MEMPOOL_EMERGENCY \<noteq> 0 then
          let (err, s) = mempool_init_emergency ep arr ds pool s in
          if err \<noteq> 0 then (NULL, mempool_destroy K pool s) else (pool, s)
        else (pool, s))"

section \<open>Maintenance\<close>

definition drop_free :: "'l lists \<Rightarrow> addr \<Rightarrow> 'l pool_mem \<Rightarrow> 'l pool_mem" where
  "drop_free K elem s =
     upd_pool (\<lambda>p. p\<lparr>mp_curr_nr := mp_curr_nr p - 1\<rparr>)
       (free_elem elem (upd_pool (\<lambda>p. p\<lparr>mp_free_list := list_del K elem (mp_free_list p)\<rparr>) s))"

fun compact_loop :: "'l lists \<Rightarrow> addr list \<Rightarrow> int \<Rightarrow> 'l pool_mem \<Rightarrow> int \<times> 'l pool_mem" where
  "compact_loop K [] compacted s = (compacted, s)"
| "compact_loop K (elem # es) compacted s =
     (if mp_curr_nr (pm_pool s) \<le> mp_min_nr (pm_pool s) then (compacted, s)
      else compact_loop K es (compacted + 1) (drop_free K elem s))"

definition mempool_compact :: "'l lists \<Rightarrow> addr \<Rightarrow> 'l pool_mem \<Rightarrow> int \<times> 'l pool_mem" where
  "mempool_compact K pool s =
     (if pool = NULL then (- EINVAL, s)
      else if mp_curr_nr (pm_pool s) > mp_min_nr (pm_pool s) then compact_loop K (kl_elems K (mp_free_list (pm_pool s))) 0 s
      else (0, s))"

fun age_loop :: "'l lists \<Rightarrow> u64 \<Rightarrow> addr list \<Rightarrow> 'l pool_mem \<Rightarrow> 'l pool_mem" where
  "age_loop K age_threshold [] s = s"
| "age_loop K age_threshold (elem # es) s =
     age_loop K age_threshold es (if me_last_used (pm_elem s elem) < age_threshold then drop_free K elem s else s)"

text \<open>\<open>hz\<close> is the number of ticks in a second, \<open>HZ\<close>.\<close>

definition mempool_age_elements :: "'l lists \<Rightarrow> u64 \<Rightarrow> u64 \<Rightarrow> addr \<Rightarrow> 'l pool_mem \<Rightarrow> 'l pool_mem" where
  "mempool_age_elements K hz now pool s =
     (if pool = NULL then s else age_loop K (now - hz * 60) (kl_elems K (mp_free_list (pm_pool s))) s)"

definition mempool_is_full :: "'l pool_mem \<Rightarrow> bool" where
  "mempool_is_full s \<longleftrightarrow> mp_curr_nr (pm_pool s) \<ge> mp_max_nr (pm_pool s)"

definition mempool_is_empty :: "'l pool_mem \<Rightarrow> bool" where
  "mempool_is_empty s \<longleftrightarrow> mp_curr_nr (pm_pool s) = 0"

definition mempool_is_depleted :: "'l pool_mem \<Rightarrow> bool" where
  "mempool_is_depleted s \<longleftrightarrow> mp_state (pm_pool s) AND 0x02 \<noteq> 0"

definition mempool_available :: "'l pool_mem \<Rightarrow> u64" where
  "mempool_available s = mp_max_nr (pm_pool s) - mp_curr_nr (pm_pool s)"

section \<open>Threads\<close>

text \<open>A thread in \<open>mempool_alloc\<close> that has dropped the lock: before its calls of \<open>kmalloc\<close>, with the two blocks, before the emergency
  pool.\<close>

datatype pool_pc = Pool_out | Pool_grow | Pool_have addr addr | Pool_emergency

record 'l pool_sys =
  py_mem :: "'l pool_mem"
  py_pc :: "tid \<Rightarrow> pool_pc"

abbreviation at_pool :: "tid \<Rightarrow> pool_pc \<Rightarrow> 'l pool_mem \<Rightarrow> 'l pool_sys \<Rightarrow> 'l pool_sys" where
  "at_pool t pc m s \<equiv> s\<lparr>py_mem := m, py_pc := (py_pc s)(t := pc)\<rparr>"

datatype pool_event = Ev_Alloc tid addr | Ev_Free tid addr | Ev_Internal tid

text \<open>The memory in use: elements with their data, the emergency pool, and the blocks that threads are about to add. \<open>kmalloc\<close> returns
  memory that is not in use.\<close>

definition pool_elems :: "'l lists \<Rightarrow> 'l pool_mem \<Rightarrow> addr list" where
  "pool_elems K s = kl_elems K (mp_free_list (pm_pool s)) @ kl_elems K (mp_used_list (pm_pool s))"

definition emergency_blocks :: "'l pool_mem \<Rightarrow> addr list" where
  "emergency_blocks s = (case mp_pool_data (pm_pool s) of None \<Rightarrow> [] | Some ep \<Rightarrow> ep_elements ep)"

definition in_use :: "'l lists \<Rightarrow> 'l pool_sys \<Rightarrow> addr set" where
  "in_use K s = set (pool_elems K (py_mem s)) \<union> (\<lambda>e. me_data (pm_elem (py_mem s) e)) ` set (pool_elems K (py_mem s)) \<union>
     set (emergency_blocks (py_mem s)) \<union> {a. \<exists>t e d. py_pc s t = Pool_have e d \<and> (a = e \<or> a = d)}"

inductive pool_step :: "'l lists \<Rightarrow> 'l pool_sys \<Rightarrow> pool_event \<Rightarrow> 'l pool_sys \<Rightarrow> bool" for K :: "'l lists" where
  pool_got: "py_pc s t = Pool_out \<Longrightarrow> alloc_locked K now (py_mem s) = (Alloc_Got ptr, m) \<Longrightarrow>
    pool_step K s (Ev_Alloc t ptr) (at_pool t Pool_out m s)"
| pool_grow: "py_pc s t = Pool_out \<Longrightarrow> alloc_locked K now (py_mem s) = (Alloc_Grow, m) \<Longrightarrow>
    pool_step K s (Ev_Internal t) (at_pool t Pool_grow m s)"
| pool_full: "py_pc s t = Pool_out \<Longrightarrow> alloc_locked K now (py_mem s) = (Alloc_Full, m) \<Longrightarrow>
    pool_step K s (Ev_Internal t) (at_pool t Pool_emergency m s)"
| pool_kmalloc: "py_pc s t = Pool_grow \<Longrightarrow> elem \<noteq> NULL \<Longrightarrow> data \<noteq> NULL \<Longrightarrow> elem \<notin> in_use K s \<Longrightarrow> data \<notin> in_use K s \<Longrightarrow> elem \<noteq> data \<Longrightarrow>
    pool_step K s (Ev_Internal t) (at_pool t (Pool_have elem data) (py_mem s) s)"
| pool_kmalloc_fails: "py_pc s t = Pool_grow \<Longrightarrow> m = py_mem s \<or> (\<exists>elem. elem \<noteq> NULL \<and> elem \<notin> in_use K s \<and> m = kfree elem (py_mem s)) \<Longrightarrow>
    pool_step K s (Ev_Internal t) (at_pool t Pool_emergency m s)"
| pool_add: "py_pc s t = Pool_have elem data \<Longrightarrow>
    pool_step K s (Ev_Alloc t data) (at_pool t Pool_out (alloc_add K now elem data (py_mem s)) s)"
| pool_emergency: "py_pc s t = Pool_emergency \<Longrightarrow> pool \<noteq> NULL \<Longrightarrow> try_emergency pool (py_mem s) = (ptr, m) \<Longrightarrow> ptr \<noteq> NULL \<Longrightarrow>
    pool_step K s (Ev_Alloc t ptr) (at_pool t Pool_out m s)"
| pool_emergency_fails: "py_pc s t = Pool_emergency \<Longrightarrow> pool \<noteq> NULL \<Longrightarrow> try_emergency pool (py_mem s) = (NULL, m) \<Longrightarrow>
    pool_step K s (Ev_Internal t) (at_pool t Pool_out m s)"
| pool_free: "py_pc s t = Pool_out \<Longrightarrow> pool_step K s (Ev_Free t ptr) (at_pool t Pool_out (mempool_free K ptr pool (py_mem s)) s)"
| pool_compact: "py_pc s t = Pool_out \<Longrightarrow> mempool_compact K pool (py_mem s) = (n, m) \<Longrightarrow>
    pool_step K s (Ev_Internal t) (at_pool t Pool_out m s)"
| pool_age: "py_pc s t = Pool_out \<Longrightarrow> pool_step K s (Ev_Internal t) (at_pool t Pool_out (mempool_age_elements K hz now pool (py_mem s)) s)"

end
