(* ===== verification/Memory_Pool_Spec.thy ===== *)
theory Memory_Pool_Spec
  imports Memory_Pool
begin

text \<open>
  The pool of \<^verbatim>\<open>memory_pool.c\<close> as lists of elements and blocks, every operation on them, concurrent calls as a simulation of an
  allocator that hands out a block once, and the size of the pool.
\<close>

section \<open>The pool as lists\<close>

abbreviation free_elems :: "'l lists \<Rightarrow> 'l pool_mem \<Rightarrow> addr list" where
  "free_elems K m \<equiv> kl_elems K (mp_free_list (pm_pool m))"

abbreviation used_elems :: "'l lists \<Rightarrow> 'l pool_mem \<Rightarrow> addr list" where
  "used_elems K m \<equiv> kl_elems K (mp_used_list (pm_pool m))"

abbreviation data_of :: "'l pool_mem \<Rightarrow> addr \<Rightarrow> addr" where
  "data_of m e \<equiv> me_data (pm_elem m e)"

text \<open>The blocks the pool can hand out, and those it has handed out.\<close>

definition pool_blocks :: "'l lists \<Rightarrow> 'l pool_mem \<Rightarrow> addr list" where
  "pool_blocks K m = map (data_of m) (pool_elems K m) @ emergency_blocks m"

definition emergency_used :: "'l pool_mem \<Rightarrow> nat" where
  "emergency_used m = (case mp_pool_data (pm_pool m) of None \<Rightarrow> 0 | Some ep \<Rightarrow> unat (ep_in_use ep))"

definition handed_out :: "'l lists \<Rightarrow> 'l pool_mem \<Rightarrow> addr set" where
  "handed_out K m = data_of m ` set (used_elems K m) \<union> set (take (emergency_used m) (emergency_blocks m))"

text \<open>Elements and blocks are different from each other, and the emergency pool has as many blocks as it says.\<close>

definition mem_inv :: "'l lists \<Rightarrow> 'l pool_mem \<Rightarrow> bool" where
  "mem_inv K m \<longleftrightarrow> distinct (pool_elems K m) \<and> distinct (pool_blocks K m) \<and> NULL \<notin> set (pool_blocks K m) \<and>
     (\<forall>ep. mp_pool_data (pm_pool m) = Some ep \<longrightarrow>
        length (ep_elements ep) = unat (ep_nr_elements ep) \<and> unat (ep_nr_elements ep) < 2 ^ 31 \<and> unat (ep_in_use ep) \<le> unat (ep_nr_elements ep))"

lemmas mem_defs = mem_inv_def pool_blocks_def pool_elems_def handed_out_def

text \<open>What an operation may do to the blocks that are not handed out: remove some of them.\<close>

definition shrinks :: "'l lists \<Rightarrow> 'l pool_mem \<Rightarrow> 'l pool_mem \<Rightarrow> bool" where
  "shrinks K m m' \<longleftrightarrow> mem_inv K m' \<and> set (pool_elems K m') \<subseteq> set (pool_elems K m) \<and> set (pool_blocks K m') \<subseteq> set (pool_blocks K m)"

lemma shrinks_refl: "mem_inv K m \<Longrightarrow> shrinks K m m"
  by (simp add: shrinks_def)

lemma shrinks_trans: "shrinks K m m' \<Longrightarrow> shrinks K m' m'' \<Longrightarrow> shrinks K m m''"
  by (auto simp: shrinks_def)

lemma emergency_cong:
  "mp_pool_data (pm_pool m') = mp_pool_data (pm_pool m) \<Longrightarrow> emergency_blocks m' = emergency_blocks m \<and> emergency_used m' = emergency_used m"
  by (simp add: emergency_blocks_def emergency_used_def)

section \<open>Operations\<close>

lemma alloc_locked_got:
  assumes K: "kernel_list_laws K" and inv: "mem_inv K m" and al: "alloc_locked K now m = (Alloc_Got p, m')"
  shows "shrinks K m m' \<and> p \<noteq> NULL \<and> p \<notin> handed_out K m \<and> handed_out K m' = insert p (handed_out K m)"
proof -
  obtain e es where fl: "free_elems K m = e # es"
    using al kernel_list_simps(4)[OF K] by (cases "free_elems K m") (auto simp: alloc_locked_def Let_def split: if_splits)
  note ks = kernel_list_simps[OF K]
  have "e \<notin> set (used_elems K m)" using inv fl by (auto simp: mem_defs)
  with al fl ks have m': "free_elems K m' = es" "used_elems K m' = used_elems K m @ [e]" "p = data_of m e" "\<And>x. data_of m' x = data_of m x"
    "mp_pool_data (pm_pool m') = mp_pool_data (pm_pool m)"
    by (auto simp: alloc_locked_def Let_def)
  note ec = emergency_cong[OF m'(5)]
  have "shrinks K m m'" using inv fl m' ec by (auto simp: shrinks_def mem_defs)
  moreover have "p \<noteq> NULL" using inv fl m'(3) by (auto simp: mem_defs)
  moreover have "p \<notin> handed_out K m" using inv fl m'(3) by (auto simp: mem_defs dest: in_set_takeD)
  moreover have "handed_out K m' = insert p (handed_out K m)" using m' ec by (simp add: handed_out_def)
  ultimately show ?thesis by blast
qed

lemma alloc_locked_other:
  "alloc_locked K now m = (out, m') \<Longrightarrow> out = Alloc_Grow \<or> out = Alloc_Full \<Longrightarrow> m' = m"
  by (auto simp: alloc_locked_def Let_def split: if_splits)

lemma alloc_add_inv:
  assumes K: "kernel_list_laws K" and inv: "mem_inv K m" and e: "e \<notin> set (pool_elems K m)" and d: "d \<notin> set (pool_blocks K m)" "d \<noteq> NULL"
  shows "mem_inv K (alloc_add K now e d m) \<and> set (pool_elems K (alloc_add K now e d m)) = insert e (set (pool_elems K m)) \<and>
    set (pool_blocks K (alloc_add K now e d m)) = insert d (set (pool_blocks K m)) \<and>
    handed_out K (alloc_add K now e d m) = insert d (handed_out K m)"
proof -
  let ?m = "alloc_add K now e d m"
  have e': "e \<notin> set (free_elems K m)" "e \<notin> set (used_elems K m)" using e by (auto simp: pool_elems_def)
  have m': "free_elems K ?m = free_elems K m" "used_elems K ?m = used_elems K m @ [e]" "mp_pool_data (pm_pool ?m) = mp_pool_data (pm_pool m)"
    and dat: "\<And>x. data_of ?m x = (if x = e then d else data_of m x)"
    using kernel_list_simps(2)[OF K e'(2)] by (simp_all add: alloc_add_def new_elem_def Let_def)
  note ec = emergency_cong[OF m'(3)]
  have mp: "map (data_of ?m) (free_elems K m) = map (data_of m) (free_elems K m)" "map (data_of ?m) (used_elems K m) = map (data_of m) (used_elems K m)"
    using e' dat by auto
  have im: "data_of ?m ` set (used_elems K m) = data_of m ` set (used_elems K m)" "data_of ?m ` set (free_elems K m) = data_of m ` set (free_elems K m)"
    using arg_cong[OF mp(1), of set] arg_cong[OF mp(2), of set] by simp_all
  have pb: "pool_blocks K ?m = map (data_of m) (free_elems K m) @ map (data_of m) (used_elems K m) @ d # emergency_blocks m"
    unfolding pool_blocks_def pool_elems_def m' map_append mp by (simp add: dat ec)
  have "distinct (pool_blocks K ?m)" using inv d unfolding pb by (auto simp: mem_inv_def pool_blocks_def pool_elems_def)
  moreover have "handed_out K ?m = insert d (handed_out K m)"
    unfolding handed_out_def m'(2) set_append image_Un im by (simp add: dat ec)
  moreover have "set (pool_blocks K ?m) = insert d (set (pool_blocks K m))"
    unfolding pb by (auto simp: pool_blocks_def pool_elems_def)
  ultimately show ?thesis using inv e' m' d by (auto simp: mem_inv_def pool_elems_def)
qed

lemma mempool_free_inv:
  assumes K: "kernel_list_laws K" and inv: "mem_inv K m"
  shows "shrinks K m (mempool_free K p pool m) \<and> handed_out K m \<subseteq> insert p (handed_out K (mempool_free K p pool m))"
proof (cases "pool = NULL \<or> p = NULL \<or> find (\<lambda>e. data_of m e = p) (used_elems K m) = None")
  case True
  then have "mempool_free K p pool m = m" by (auto simp: mempool_free_def)
  then show ?thesis using shrinks_refl[OF inv] by auto
next
  case False
  then obtain e where f: "find (\<lambda>e. data_of m e = p) (used_elems K m) = Some e" by auto
  let ?m = "mempool_free K p pool m"
  note ks = kernel_list_simps[OF K]
  have e: "e \<in> set (used_elems K m)" "data_of m e = p" using f by (auto simp: find_Some_iff)
  have ne: "e \<notin> set (free_elems K m)" "distinct (used_elems K m)" using inv e by (auto simp: mem_defs)
  have m': "free_elems K ?m = free_elems K m @ [e]" "used_elems K ?m = remove1 e (used_elems K m)" "pm_elem ?m = pm_elem m"
    "mp_pool_data (pm_pool ?m) = mp_pool_data (pm_pool m)"
    using False f e ne ks by (auto simp: mempool_free_def Let_def)
  note ec = emergency_cong[OF m'(4)]
  have "set (pool_elems K ?m) = set (pool_elems K m)" using m' ne e by (auto simp: pool_elems_def)
  moreover have "distinct (pool_elems K ?m)" using inv m' ne e by (auto simp: mem_defs)
  moreover have "set (pool_blocks K ?m) = set (pool_blocks K m)" using m' ne e ec by (auto simp: pool_blocks_def pool_elems_def)
  moreover have "distinct (pool_blocks K ?m)" using inv calculation m' ec by (auto simp: mem_inv_def pool_blocks_def distinct_map)
  ultimately have "shrinks K m ?m" using inv m'(4) by (simp add: shrinks_def mem_inv_def)
  moreover have "handed_out K m \<subseteq> insert p (handed_out K ?m)" using m' ne e ec by (auto simp: handed_out_def)
  ultimately show ?thesis by blast
qed

lemma drop_free_shrinks:
  assumes K: "kernel_list_laws K" and inv: "mem_inv K m" and e: "e \<in> set (free_elems K m)"
  shows "shrinks K m (drop_free K e m) \<and> handed_out K (drop_free K e m) = handed_out K m \<and>
    free_elems K (drop_free K e m) = remove1 e (free_elems K m)"
proof -
  let ?m = "drop_free K e m"
  have m': "free_elems K ?m = remove1 e (free_elems K m)" "used_elems K ?m = used_elems K m" "pm_elem ?m = pm_elem m"
    "mp_pool_data (pm_pool ?m) = mp_pool_data (pm_pool m)"
    using kernel_list_simps(3)[OF K e] by (simp_all add: drop_free_def free_elem_def)
  note ec = emergency_cong[OF m'(4)]
  have sub: "set (remove1 e (free_elems K m)) \<subseteq> set (free_elems K m)" by (rule set_remove1_subset)
  then have "distinct (pool_blocks K ?m)" using inv m' ec
    by (auto simp: mem_inv_def pool_blocks_def pool_elems_def distinct_map intro: inj_on_subset)
  moreover have "handed_out K ?m = handed_out K m" using m' ec by (simp add: handed_out_def)
  ultimately show ?thesis using inv m' ec sub by (auto simp: shrinks_def mem_inv_def pool_blocks_def pool_elems_def)
qed

text \<open>Loops that drop free elements, under any condition.\<close>

lemma compact_loop_shrinks:
  assumes K: "kernel_list_laws K"
  shows "compact_loop K es n m = (n', m') \<Longrightarrow> mem_inv K m \<Longrightarrow> set es \<subseteq> set (free_elems K m) \<Longrightarrow> distinct es \<Longrightarrow>
    shrinks K m m' \<and> handed_out K m' = handed_out K m"
proof (induction es arbitrary: n m)
  case (Cons e es)
  show ?case
  proof (cases "mp_curr_nr (pm_pool m) \<le> mp_min_nr (pm_pool m)")
    case False
    have d: "shrinks K m (drop_free K e m)" "handed_out K (drop_free K e m) = handed_out K m" "free_elems K (drop_free K e m) = remove1 e (free_elems K m)"
      using drop_free_shrinks[OF K Cons.prems(2), of e] Cons.prems(3) by auto
    have "distinct (free_elems K m)" using Cons.prems(2) by (simp add: mem_inv_def pool_elems_def)
    then have "set es \<subseteq> set (free_elems K (drop_free K e m))" using Cons.prems(3,4) d(3) by auto
    with Cons.IH[of "n + 1" "drop_free K e m"] Cons.prems False d shrinks_trans show ?thesis by (auto simp: shrinks_def)
  qed (use Cons.prems shrinks_refl in auto)
qed (simp add: shrinks_refl)

lemma age_loop_shrinks:
  assumes K: "kernel_list_laws K"
  shows "mem_inv K m \<Longrightarrow> set es \<subseteq> set (free_elems K m) \<Longrightarrow> distinct es \<Longrightarrow>
    shrinks K m (age_loop K th es m) \<and> handed_out K (age_loop K th es m) = handed_out K m"
proof (induction es arbitrary: m)
  case (Cons e es)
  show ?case
  proof (cases "me_last_used (pm_elem m e) < th")
    case True
    have d: "shrinks K m (drop_free K e m)" "handed_out K (drop_free K e m) = handed_out K m" "free_elems K (drop_free K e m) = remove1 e (free_elems K m)"
      using drop_free_shrinks[OF K Cons.prems(1), of e] Cons.prems(2) by auto
    have "distinct (free_elems K m)" using Cons.prems(1) by (simp add: mem_inv_def pool_elems_def)
    then have "set es \<subseteq> set (free_elems K (drop_free K e m))" using Cons.prems(2,3) d(3) by auto
    with Cons.IH[of "drop_free K e m"] Cons.prems True d shrinks_trans show ?thesis by (auto simp: shrinks_def)
  qed (use Cons.prems Cons.IH in auto)
qed (simp add: shrinks_refl)

lemma maintenance_shrinks:
  assumes K: "kernel_list_laws K" and inv: "mem_inv K m"
  shows "mempool_compact K pool m = (n, m') \<Longrightarrow> shrinks K m m' \<and> handed_out K m' = handed_out K m"
    and "shrinks K m (mempool_age_elements K hz now pool m) \<and> handed_out K (mempool_age_elements K hz now pool m) = handed_out K m"
proof -
  have d: "distinct (free_elems K m)" using inv by (simp add: mem_inv_def pool_elems_def)
  show "shrinks K m m' \<and> handed_out K m' = handed_out K m" if "mempool_compact K pool m = (n, m')"
    using that compact_loop_shrinks[OF K _ inv, of "free_elems K m" 0 n m'] d shrinks_refl[OF inv] by (auto simp: mempool_compact_def split: if_splits)
  show "shrinks K m (mempool_age_elements K hz now pool m) \<and> handed_out K (mempool_age_elements K hz now pool m) = handed_out K m"
    using age_loop_shrinks[OF K inv, of "free_elems K m"] d shrinks_refl[OF inv] by (simp add: mempool_age_elements_def)
qed

lemma shrinks_stats: "mem_inv K m \<Longrightarrow> shrinks K m (upd_stats f m) \<and> handed_out K (upd_stats f m) = handed_out K m"
  by (simp add: shrinks_def mem_inv_def handed_out_def pool_blocks_def pool_elems_def emergency_blocks_def emergency_used_def)

lemma shrinks_kfree: "mem_inv K m \<Longrightarrow> shrinks K m (kfree a m) \<and> handed_out K (kfree a m) = handed_out K m"
  by (simp add: shrinks_def mem_inv_def handed_out_def pool_blocks_def pool_elems_def emergency_blocks_def emergency_used_def)

lemma mempool_alloc_emergency_inv:
  assumes inv: "mem_inv K m" and al: "mempool_alloc_emergency pool m = (p, m')"
  shows "shrinks K m m' \<and> (if p = NULL then m' = m else p \<notin> handed_out K m \<and> handed_out K m' = insert p (handed_out K m))"
proof (cases "p = NULL")
  case True
  have "NULL \<notin> set (emergency_blocks m)" using inv by (auto simp: mem_inv_def pool_blocks_def)
  with True al inv shrinks_refl[OF inv] show ?thesis
    by (auto simp: mempool_alloc_emergency_def Let_def emergency_blocks_def mem_inv_def in_set_conv_nth split: if_splits option.splits)
next
  case False
  then obtain ep where ep: "mp_pool_data (pm_pool m) = Some ep" "unat (ep_in_use ep) < unat (ep_nr_elements ep)"
      "p = ep_elements ep ! unat (ep_in_use ep)" "m' = upd_pool (\<lambda>q. q\<lparr>mp_pool_data := Some (ep\<lparr>ep_in_use := ep_in_use ep + 1\<rparr>)\<rparr>) m"
    using al by (auto simp: mempool_alloc_emergency_def Let_def split: if_splits option.splits)
  have bd: "length (ep_elements ep) = unat (ep_nr_elements ep)" "unat (ep_nr_elements ep) < 2 ^ 31" using inv ep(1) by (auto simp: mem_inv_def)
  have inc: "unat (ep_in_use ep + 1) = Suc (unat (ep_in_use ep))" using ep(2) bd(2) by (simp add: unat_plus_if')
  have same: "pool_elems K m' = pool_elems K m" "pool_blocks K m' = pool_blocks K m"
    using ep(1,4) by (simp_all add: pool_elems_def pool_blocks_def emergency_blocks_def)
  then have "shrinks K m m'" using inv ep bd inc by (auto simp: shrinks_def mem_inv_def)
  moreover have "handed_out K m' = insert p (handed_out K m)"
    using ep bd inc by (auto simp: handed_out_def emergency_used_def emergency_blocks_def take_Suc_conv_app_nth)
  moreover have "p \<notin> handed_out K m"
  proof -
    have "distinct (ep_elements ep)" "p \<in> set (ep_elements ep)" using inv ep bd by (auto simp: mem_inv_def pool_blocks_def emergency_blocks_def)
    moreover have "p \<notin> set (take (unat (ep_in_use ep)) (ep_elements ep))"
      using calculation ep(2,3) bd(1) by (auto simp: in_set_conv_nth nth_eq_iff_index_eq)
    moreover have "p \<notin> data_of m ` set (used_elems K m)"
      using inv calculation(2) ep(1) by (auto simp: mem_inv_def pool_blocks_def pool_elems_def emergency_blocks_def)
    ultimately show ?thesis using ep(1) by (simp add: handed_out_def emergency_used_def emergency_blocks_def)
  qed
  ultimately show ?thesis using False by simp
qed

lemma try_emergency_inv:
  assumes inv: "mem_inv K m" and te: "try_emergency pool m = (p, m')"
  shows "shrinks K m m' \<and> (if p = NULL then handed_out K m' = handed_out K m else p \<notin> handed_out K m \<and> handed_out K m' = insert p (handed_out K m))"
proof -
  obtain q m1 where q: "(if mp_flags (pm_pool m) AND MEMPOOL_EMERGENCY \<noteq> 0 then mempool_alloc_emergency pool m else (NULL, m)) = (q, m1)" by fastforce
  have 1: "shrinks K m m1 \<and> (if q = NULL then m1 = m else q \<notin> handed_out K m \<and> handed_out K m1 = insert q (handed_out K m))"
    using q mempool_alloc_emergency_inv[OF inv, of pool q m1] shrinks_refl[OF inv] by (auto split: if_splits)
  then have i1: "mem_inv K m1" by (simp add: shrinks_def)
  have "p = q" "\<exists>f. m' = upd_stats f m1" using te q by (auto simp: try_emergency_def Let_def split: if_splits)
  with 1 shrinks_stats[OF i1] shrinks_trans show ?thesis by (metis (no_types, lifting))
qed

section \<open>A new pool\<close>

definition prealloc_add :: "'l lists \<Rightarrow> u64 \<Rightarrow> addr \<Rightarrow> addr \<Rightarrow> 'l pool_mem \<Rightarrow> 'l pool_mem" where
  "prealloc_add K now e d m =
     (let m = m\<lparr>pm_elem := (pm_elem m)(e := new_elem now d (pm_pool m))\<rparr>
      in upd_pool (\<lambda>p. p\<lparr>mp_free_list := list_add_tail K e (mp_free_list p), mp_curr_nr := mp_curr_nr p + 1\<rparr>) m)"

lemma prealloc_add_inv:
  assumes K: "kernel_list_laws K" and inv: "mem_inv K m" and e: "e \<notin> set (pool_elems K m)" and d: "d \<notin> set (pool_blocks K m)" "d \<noteq> NULL"
  shows "mem_inv K (prealloc_add K now e d m) \<and> set (pool_elems K (prealloc_add K now e d m)) = insert e (set (pool_elems K m)) \<and>
    set (pool_blocks K (prealloc_add K now e d m)) = insert d (set (pool_blocks K m)) \<and> used_elems K (prealloc_add K now e d m) = used_elems K m \<and>
    mp_pool_data (pm_pool (prealloc_add K now e d m)) = mp_pool_data (pm_pool m) \<and>
    mp_min_nr (pm_pool (prealloc_add K now e d m)) = mp_min_nr (pm_pool m)"
proof -
  let ?m = "prealloc_add K now e d m"
  have e': "e \<notin> set (free_elems K m)" "e \<notin> set (used_elems K m)" using e by (auto simp: pool_elems_def)
  have m': "free_elems K ?m = free_elems K m @ [e]" "used_elems K ?m = used_elems K m" "mp_pool_data (pm_pool ?m) = mp_pool_data (pm_pool m)"
      "mp_min_nr (pm_pool ?m) = mp_min_nr (pm_pool m)"
    and dat: "\<And>x. data_of ?m x = (if x = e then d else data_of m x)"
    using kernel_list_simps(2)[OF K e'(1)] by (simp_all add: prealloc_add_def new_elem_def Let_def)
  note ec = emergency_cong[OF m'(3)]
  have mp: "map (data_of ?m) (free_elems K m) = map (data_of m) (free_elems K m)" "map (data_of ?m) (used_elems K m) = map (data_of m) (used_elems K m)"
    using e' dat by auto
  have pb: "pool_blocks K ?m = map (data_of m) (free_elems K m) @ d # map (data_of m) (used_elems K m) @ emergency_blocks m"
    unfolding pool_blocks_def pool_elems_def m' map_append mp by (simp add: dat ec)
  have "distinct (pool_blocks K ?m)" using inv d unfolding pb by (auto simp: mem_inv_def pool_blocks_def pool_elems_def)
  moreover have "set (pool_blocks K ?m) = insert d (set (pool_blocks K m))" unfolding pb by (auto simp: pool_blocks_def pool_elems_def)
  ultimately show ?thesis using inv e' m' d by (auto simp: mem_inv_def pool_elems_def)
qed

lemma prealloc_loop_inv:
  assumes K: "kernel_list_laws K"
  shows "prealloc_loop K now es m = (True, m') \<Longrightarrow> mem_inv K m \<Longrightarrow> distinct (map fst es) \<Longrightarrow> distinct (map snd es) \<Longrightarrow>
    set (map fst es) \<inter> set (pool_elems K m) = {} \<Longrightarrow> set (map snd es) \<inter> set (pool_blocks K m) = {} \<Longrightarrow>
    mem_inv K m' \<and> used_elems K m' = used_elems K m \<and> mp_pool_data (pm_pool m') = mp_pool_data (pm_pool m) \<and>
    mp_min_nr (pm_pool m') = mp_min_nr (pm_pool m) \<and> set (pool_blocks K m') \<subseteq> set (pool_blocks K m) \<union> set (map snd es)"
proof (induction es arbitrary: m)
  case (Cons ed es)
  obtain e d where ed: "ed = (e, d)" by fastforce
  have ok: "e \<noteq> NULL" "d \<noteq> NULL" "prealloc_loop K now es (prealloc_add K now e d m) = (True, m')"
    using Cons.prems(1) by (auto simp: ed prealloc_add_def Let_def split: if_splits)
  have p: "mem_inv K (prealloc_add K now e d m)" "set (pool_elems K (prealloc_add K now e d m)) = insert e (set (pool_elems K m))"
      "set (pool_blocks K (prealloc_add K now e d m)) = insert d (set (pool_blocks K m))" "used_elems K (prealloc_add K now e d m) = used_elems K m"
      "mp_pool_data (pm_pool (prealloc_add K now e d m)) = mp_pool_data (pm_pool m)"
      "mp_min_nr (pm_pool (prealloc_add K now e d m)) = mp_min_nr (pm_pool m)"
    using prealloc_add_inv[OF K Cons.prems(2), of e d now] Cons.prems(5,6) ok by (auto simp: ed)
  from Cons.IH[OF ok(3) p(1)] Cons.prems p show ?case by (auto simp: ed)
qed simp

text \<open>A pool that was created hands out nothing yet. The allocator of the kernel returned different addresses.\<close>

lemma mempool_create_inv:
  assumes K: "kernel_list_laws K"
    and cr: "mempool_create K now pool usage es ep arr ds name elem_size min_nr max_nr flags mem = (p, m)" "p \<noteq> NULL"
    and fresh: "distinct (map fst es)" "distinct (map snd es @ ds)" "length ds = unat (min_nr div 4)" "length ds < 2 ^ 31"
  shows "mem_inv K m \<and> handed_out K m = {}"
proof -
  let ?new = "new_pool K elem_size min_nr max_nr flags mem :: 'a pool_mem"
  define m0 where "m0 = (if flags AND MEMPOOL_NUMA_AWARE \<noteq> 0 then upd_pool (\<lambda>p. p\<lparr>mp_node_usage := usage\<rparr>) ?new else ?new)"
  have f0: "mp_free_list (pm_pool m0) = INIT_LIST_HEAD K" "mp_used_list (pm_pool m0) = INIT_LIST_HEAD K" "mp_pool_data (pm_pool m0) = None"
    "mp_min_nr (pm_pool m0) = min_nr" by (simp_all add: m0_def new_pool_def)
  then have i0: "mem_inv K m0" "used_elems K m0 = []" "pool_elems K m0 = []" "pool_blocks K m0 = []"
    using kernel_list_simps(1)[OF K] by (simp_all add: mem_inv_def pool_elems_def pool_blocks_def emergency_blocks_def)
  obtain ok m1 where m1: "(if flags AND MEMPOOL_PREALLOC \<noteq> 0 then prealloc_loop K now (take (unat min_nr) es) m0 else (True, m0)) = (ok, m1)"
    by fastforce
  obtain err m2 where m2: "mempool_init_emergency ep arr ds pool m1 = (err, m2)" by fastforce
  have ok: "ok" "if flags AND MEMPOOL_EMERGENCY \<noteq> 0 then err = 0 \<and> m = m2 else m = m1"
    using cr m1 m2 unfolding mempool_create_def Let_def m0_def[symmetric] by (auto split: if_splits)
  have i1: "mem_inv K m1 \<and> used_elems K m1 = [] \<and> mp_pool_data (pm_pool m1) = None \<and> mp_min_nr (pm_pool m1) = min_nr \<and>
      set (pool_blocks K m1) \<subseteq> set (map snd es)"
  proof (cases "flags AND MEMPOOL_PREALLOC \<noteq> 0")
    case True
    have d: "distinct (map fst (take (unat min_nr) es))" "distinct (map snd (take (unat min_nr) es))"
      "set (map snd (take (unat min_nr) es)) \<subseteq> set (map snd es)"
      using fresh(1,2) by (auto simp: take_map[symmetric] dest: in_set_takeD)
    from prealloc_loop_inv[OF K _ i0(1) d(1,2), of now m1] True m1 ok(1) i0 f0 d(3) show ?thesis by auto
  qed (use m1 i0 f0 in auto)
  show ?thesis
  proof (cases "flags AND MEMPOOL_EMERGENCY \<noteq> 0")
    case True
    have "m = upd_pool (\<lambda>p. p\<lparr>mp_pool_data := Some \<lparr>ep_elements = ds, ep_nr_elements = min_nr div 4, ep_in_use = 0\<rparr>\<rparr>) m1" "NULL \<notin> set ds"
      using True ok(2) m2 i1 fresh(3) by (auto simp: mempool_init_emergency_def Let_def split: if_splits)
    moreover have "set (pool_blocks K m1) \<inter> set ds = {}" using i1 fresh(2) by fastforce
    ultimately show ?thesis using i1 fresh
      by (auto simp: mem_inv_def handed_out_def pool_blocks_def pool_elems_def emergency_blocks_def emergency_used_def)
  qed (use i1 ok(2) in \<open>auto simp: handed_out_def emergency_blocks_def emergency_used_def\<close>)
qed

section \<open>Blocks are handed out once\<close>

text \<open>The specification: a block that is handed out is not handed out a second time before it is given back.\<close>

inductive once_step :: "addr set \<Rightarrow> pool_event \<Rightarrow> addr set \<Rightarrow> bool" where
  once_alloc: "ptr \<noteq> NULL \<Longrightarrow> ptr \<notin> A \<Longrightarrow> once_step A (Ev_Alloc t ptr) (insert ptr A)"
| once_free: "once_step A (Ev_Free t ptr) (A - {ptr})"
| once_internal: "once_step A (Ev_Internal t) A"

definition pending :: "'l pool_sys \<Rightarrow> tid \<Rightarrow> addr \<Rightarrow> addr \<Rightarrow> bool" where
  "pending s t e d \<longleftrightarrow> py_pc s t = Pool_have e d"

definition sys_inv :: "'l lists \<Rightarrow> 'l pool_sys \<Rightarrow> bool" where
  "sys_inv K s \<longleftrightarrow> mem_inv K (py_mem s) \<and>
     (\<forall>t e d. pending s t e d \<longrightarrow> d \<noteq> NULL \<and> e \<notin> set (pool_elems K (py_mem s)) \<and> d \<notin> set (pool_blocks K (py_mem s))) \<and>
     (\<forall>t u e d e' d'. pending s t e d \<and> pending s u e' d' \<and> t \<noteq> u \<longrightarrow> e \<noteq> e' \<and> d \<noteq> d')"

definition once_sim :: "'l lists \<Rightarrow> 'l pool_sys \<Rightarrow> addr set \<Rightarrow> bool" where
  "once_sim K s A \<longleftrightarrow> kernel_list_laws K \<and> sys_inv K s \<and> A \<subseteq> handed_out K (py_mem s)"

lemma sys_invI:
  assumes "mem_inv K (py_mem s)"
    and "\<And>t e d. pending s t e d \<Longrightarrow> d \<noteq> NULL \<and> e \<notin> set (pool_elems K (py_mem s)) \<and> d \<notin> set (pool_blocks K (py_mem s))"
    and "\<And>t u e d e' d'. pending s t e d \<Longrightarrow> pending s u e' d' \<Longrightarrow> t \<noteq> u \<Longrightarrow> e \<noteq> e' \<and> d \<noteq> d'"
  shows "sys_inv K s"
  unfolding sys_inv_def using assms(1) by (intro conjI allI impI; (elim conjE)?) (auto dest: assms(2,3))

lemma sys_invD:
  assumes "sys_inv K s"
  shows "mem_inv K (py_mem s)"
    and "pending s t e d \<Longrightarrow> d \<noteq> NULL \<and> e \<notin> set (pool_elems K (py_mem s)) \<and> d \<notin> set (pool_blocks K (py_mem s))"
    and "pending s t e d \<Longrightarrow> pending s u e' d' \<Longrightarrow> t \<noteq> u \<Longrightarrow> e \<noteq> e' \<and> d \<noteq> d'"
  using assms unfolding sys_inv_def by blast+

lemma pending_at_pool:
  "pending (at_pool t pc m s) u e d \<longleftrightarrow> (if u = t then pc = Pool_have e d else pending s u e d)"
  by (simp add: pending_def)

lemma sys_inv_shrinks:
  assumes inv: "sys_inv K s" and sh: "shrinks K (py_mem s) m" and pc: "\<And>e d. pc \<noteq> Pool_have e d"
  shows "sys_inv K (at_pool t pc m s)"
proof (rule sys_invI)
  have p: "u \<noteq> t \<and> pending s u e d" if "pending (at_pool t pc m s) u e d" for u e d
    using that pc by (auto simp: pending_at_pool split: if_splits)
  show "mem_inv K (py_mem (at_pool t pc m s))" using sh by (simp add: shrinks_def)
  show "d \<noteq> NULL \<and> e \<notin> set (pool_elems K (py_mem (at_pool t pc m s))) \<and> d \<notin> set (pool_blocks K (py_mem (at_pool t pc m s)))"
    if "pending (at_pool t pc m s) u e d" for u e d
    using sys_invD(2)[OF inv, of u e d] p[OF that] sh by (auto simp: shrinks_def)
  show "e \<noteq> e' \<and> d \<noteq> d'" if "pending (at_pool t pc m s) u e d" "pending (at_pool t pc m s) v e' d'" "u \<noteq> v" for u v e d e' d'
    using sys_invD(3)[OF inv, of u e d v e' d'] p[OF that(1)] p[OF that(2)] that(3) by simp
qed

lemma handed_out_blocks: "handed_out K m \<subseteq> set (pool_blocks K m)"
  by (auto simp: handed_out_def pool_blocks_def pool_elems_def dest: in_set_takeD)

lemma sys_inv_kmalloc:
  assumes inv: "sys_inv K s" and d: "d \<noteq> NULL" and fresh: "e \<notin> in_use K s" "d \<notin> in_use K s"
  shows "sys_inv K (at_pool t (Pool_have e d) (py_mem s) s)"
proof (rule sys_invI)
  let ?s = "at_pool t (Pool_have e d) (py_mem s) s"
  have f: "e \<notin> set (pool_elems K (py_mem s))" "d \<notin> set (pool_blocks K (py_mem s))" using fresh by (auto simp: in_use_def pool_blocks_def)
  have o: "e' \<noteq> e \<and> d' \<noteq> d" if "pending s u e' d'" for u e' d' using that fresh unfolding in_use_def pending_def by blast
  show "mem_inv K (py_mem ?s)" using sys_invD(1)[OF inv] by simp
  show "d' \<noteq> NULL \<and> e' \<notin> set (pool_elems K (py_mem ?s)) \<and> d' \<notin> set (pool_blocks K (py_mem ?s))" if "pending ?s u e' d'" for u e' d'
    using that[unfolded pending_at_pool] d f sys_invD(2)[OF inv, of u e' d'] by (auto split: if_splits)
  show "e1 \<noteq> e2 \<and> d1 \<noteq> d2" if "pending ?s u e1 d1" "pending ?s v e2 d2" "u \<noteq> v" for u v e1 d1 e2 d2
    using that(3) that(1,2)[unfolded pending_at_pool] o[of u e1 d1] o[of v e2 d2] sys_invD(3)[OF inv, of u e1 d1 v e2 d2] by (auto split: if_splits)
qed

lemma sys_inv_add:
  assumes K: "kernel_list_laws K" and inv: "sys_inv K s" and pc: "py_pc s t = Pool_have e d"
  shows "sys_inv K (at_pool t Pool_out (alloc_add K now e d (py_mem s)) s) \<and> d \<noteq> NULL \<and> d \<notin> handed_out K (py_mem s) \<and>
    handed_out K (alloc_add K now e d (py_mem s)) = insert d (handed_out K (py_mem s))"
proof -
  let ?m = "alloc_add K now e d (py_mem s)"
  let ?s = "at_pool t Pool_out ?m s"
  have pt: "pending s t e d" using pc by (simp add: pending_def)
  then have ed: "e \<notin> set (pool_elems K (py_mem s))" "d \<notin> set (pool_blocks K (py_mem s))" "d \<noteq> NULL" using sys_invD(2)[OF inv] by auto
  note add = alloc_add_inv[OF K sys_invD(1)[OF inv] ed, of now]
  have p: "u \<noteq> t \<and> pending s u e' d' \<and> e' \<noteq> e \<and> d' \<noteq> d" if "pending ?s u e' d'" for u e' d'
    using that sys_invD(3)[OF inv pt, of u e' d'] by (auto simp: pending_at_pool split: if_splits)
  have "sys_inv K ?s"
  proof (rule sys_invI)
    show "mem_inv K (py_mem ?s)" using add by simp
    show "d' \<noteq> NULL \<and> e' \<notin> set (pool_elems K (py_mem ?s)) \<and> d' \<notin> set (pool_blocks K (py_mem ?s))" if "pending ?s u e' d'" for u e' d'
      using p[OF that] add sys_invD(2)[OF inv, of u e' d'] by auto
    show "e1 \<noteq> e2 \<and> d1 \<noteq> d2" if "pending ?s u e1 d1" "pending ?s v e2 d2" "u \<noteq> v" for u v e1 d1 e2 d2
      using p[OF that(1)] p[OF that(2)] that(3) sys_invD(3)[OF inv, of u e1 d1 v e2 d2] by simp
  qed
  then show ?thesis using add ed handed_out_blocks[of K "py_mem s"] by auto
qed

lemma once_sim_step:
  assumes sim: "once_sim K s A" and st: "pool_step K s ev s'"
  shows "\<exists>A'. once_step A ev A' \<and> once_sim K s' A'"
proof -
  have K: "kernel_list_laws K" and inv: "sys_inv K s" and A: "A \<subseteq> handed_out K (py_mem s)" using sim by (simp_all add: once_sim_def)
  note mi = sys_invD(1)[OF inv]
  note sh = sys_inv_shrinks[OF inv]
  have alloc: ?thesis if "ev = Ev_Alloc t ptr" "ptr \<noteq> NULL" "ptr \<notin> handed_out K (py_mem s)" "sys_inv K s'"
    "handed_out K (py_mem s') = insert ptr (handed_out K (py_mem s))" for t ptr
    using that A K by (intro exI[of _ "insert ptr A"]) (auto simp: once_sim_def intro!: once_alloc)
  have internal: ?thesis if "ev = Ev_Internal t" "sys_inv K s'" "handed_out K (py_mem s') = handed_out K (py_mem s)" for t
    using that A K by (intro exI[of _ A]) (auto simp: once_sim_def intro: once_internal)
  have keep: ?thesis if "ev = Ev_Internal t" "s' = at_pool t pc m s" "shrinks K (py_mem s) m" "handed_out K m = handed_out K (py_mem s)"
    "\<And>e d. pc \<noteq> Pool_have e d" for t pc m
    using internal[OF that(1)] sh[OF that(3,5), of t] that(2,4) by simp
  from st show ?thesis
  proof cases
    case (pool_got t now ptr m)
    then show ?thesis using alloc_locked_got[OF K mi, of now ptr m] by (intro alloc[of t ptr]) (auto intro!: sh)
  next
    case (pool_grow t now m)
    then show ?thesis using alloc_locked_other[of K now "py_mem s" Alloc_Grow m] shrinks_refl[OF mi] by (intro keep[of t Pool_grow m]) auto
  next
    case (pool_full t now m)
    then show ?thesis using alloc_locked_other[of K now "py_mem s" Alloc_Full m] shrinks_refl[OF mi] by (intro keep[of t Pool_emergency m]) auto
  next
    case (pool_kmalloc t e d)
    then show ?thesis using sys_inv_kmalloc[OF inv, of d e t] by (intro internal[of t]) auto
  next
    case (pool_kmalloc_fails t m)
    then show ?thesis using shrinks_refl[OF mi] shrinks_kfree[OF mi] by (intro keep[of t Pool_emergency m]) auto
  next
    case (pool_add t e d now)
    then show ?thesis using sys_inv_add[OF K inv, of t e d now] by (intro alloc[of t d]) auto
  next
    case (pool_emergency t pool ptr m)
    then show ?thesis using try_emergency_inv[OF mi, of pool ptr m] by (intro alloc[of t ptr]) (auto intro!: sh)
  next
    case (pool_emergency_fails t pool m)
    then show ?thesis using try_emergency_inv[OF mi, of pool NULL m] by (intro keep[of t Pool_out m]) auto
  next
    case (pool_free t ptr pool)
    have fr: "shrinks K (py_mem s) (py_mem s')" "handed_out K (py_mem s) \<subseteq> insert ptr (handed_out K (py_mem s'))"
      using mempool_free_inv[OF K mi, of ptr pool] pool_free by auto
    then have "sys_inv K s'" using pool_free sh[of "py_mem s'" Pool_out t] by simp
    with fr(2) A K pool_free show ?thesis by (intro exI[of _ "A - {ptr}"]) (auto simp: once_sim_def intro: once_free)
  next
    case (pool_compact t pool n m)
    then show ?thesis using maintenance_shrinks(1)[OF K mi, of pool n m] by (intro keep[of t Pool_out m]) auto
  next
    case (pool_age t hz now pool)
    then show ?thesis using maintenance_shrinks(2)[OF K mi, of hz now pool] by (intro keep[of t Pool_out "mempool_age_elements K hz now pool (py_mem s)"]) auto
  qed
qed

interpretation pool_once: simulation "pool_step K" once_step "once_sim K"
  by unfold_locales (rule once_sim_step)

section \<open>One thread: the size of the pool\<close>

text \<open>The counter of elements is right and within the maximum.\<close>

definition size_inv :: "'l lists \<Rightarrow> 'l pool_mem \<Rightarrow> bool" where
  "size_inv K m \<longleftrightarrow> unat (mp_curr_nr (pm_pool m)) = length (pool_elems K m) \<and> mp_curr_nr (pm_pool m) \<le> mp_max_nr (pm_pool m)"

lemma size_inv_stats: "size_inv K (upd_stats f m) = size_inv K m"
  by (simp add: size_inv_def pool_elems_def)

lemma size_inv_kfree: "size_inv K (kfree a m) = size_inv K m"
  by (simp add: size_inv_def pool_elems_def)

lemma size_inv_emergency: "try_emergency pool m = (p, m') \<Longrightarrow> size_inv K m \<Longrightarrow> size_inv K m'"
  by (auto simp: try_emergency_def mempool_alloc_emergency_def size_inv_def pool_elems_def Let_def split: if_splits option.splits)

lemma size_inv_alloc:
  assumes K: "kernel_list_laws K" and inv: "mem_inv K m" "size_inv K m" and fresh: "e \<notin> set (pool_elems K m)"
    and al: "mempool_alloc K now e d pool m = (p, m')"
  shows "size_inv K m'"
proof (cases "pool = NULL")
  case False
  obtain out m1 where o: "alloc_locked K now m = (out, m1)" by fastforce
  note ks = kernel_list_simps[OF K]
  show ?thesis
  proof (cases out)
    case (Alloc_Got q)
    then obtain x xs where fl: "free_elems K m = x # xs"
      using o ks(4) by (cases "free_elems K m") (auto simp: alloc_locked_def Let_def split: if_splits)
    then have "x \<notin> set (used_elems K m)" using inv(1) by (auto simp: mem_defs)
    with fl ks o Alloc_Got inv(2) False al show ?thesis by (auto simp: mempool_alloc_def alloc_locked_def size_inv_def pool_elems_def Let_def)
  next
    case Alloc_Grow
    then have m1: "m1 = m" "mp_curr_nr (pm_pool m) < mp_max_nr (pm_pool m)" using o by (auto simp: alloc_locked_def Let_def split: if_splits)
    have lt: "unat (mp_curr_nr (pm_pool m)) < unat (mp_max_nr (pm_pool m))" using m1(2) by (simp add: word_less_nat_alt)
    have inc: "unat (mp_curr_nr (pm_pool m) + 1) = Suc (unat (mp_curr_nr (pm_pool m)))"
      using lt unsigned_less[of "mp_max_nr (pm_pool m)", where 'a = nat] by (simp add: unat_plus_if')
    with lt have inc2: "mp_curr_nr (pm_pool m) + 1 \<le> mp_max_nr (pm_pool m)" by (simp add: word_le_nat_alt)
    have "size_inv K (alloc_add K now e d m)"
      using inv(2) inc inc2 ks(2)[of e] fresh by (simp add: alloc_add_def size_inv_def pool_elems_def Let_def)
    with Alloc_Grow m1 o False al size_inv_emergency[of pool m p m' K] size_inv_emergency[of pool "kfree e m" p m' K] inv(2) show ?thesis
      by (auto simp: mempool_alloc_def size_inv_kfree split: if_splits)
  next
    case Alloc_Full
    then have "m1 = m" using o alloc_locked_other by blast
    with Alloc_Full o False al size_inv_emergency inv(2) show ?thesis by (auto simp: mempool_alloc_def)
  qed
qed (use al inv in \<open>auto simp: mempool_alloc_def\<close>)

section \<open>Properties\<close>

text \<open>C26: in every interleaving of \<open>mempool_alloc\<close>, \<open>mempool_free\<close>, \<open>mempool_compact\<close> and \<open>mempool_age_elements\<close> calls of any number of
  threads on a pool that \<open>mempool_create\<close> returned, a block that was handed out is not handed out again before it is given back.\<close>

theorem mempool_hands_out_once:
  assumes "kernel_list_laws K"
    and "mempool_create K now pool usage es ep arr ds name elem_size min_nr max_nr flags mem = (p, py_mem s)" "p \<noteq> NULL"
    and "distinct (map fst es)" "distinct (map snd es @ ds)" "length ds = unat (min_nr div 4)" "length ds < 2 ^ 31"
    and "\<forall>t. py_pc s t = Pool_out" "steps (pool_step K) s evs s'"
  shows "\<exists>A. steps once_step {} evs A"
proof -
  have "mem_inv K (py_mem s)" using mempool_create_inv[OF assms(1-7)] by simp
  then have "sys_inv K s" using assms(8) by (intro sys_invI) (auto simp: pending_def)
  then have "once_sim K s {}" using assms(1) by (simp add: once_sim_def)
  from pool_once.sim_steps[OF assms(9) this] show ?thesis by blast
qed

text \<open>A pool with two elements of at most three, on lists of HOL, for the witnesses.\<close>

definition ex_elem :: mempool_elem where
  "ex_elem = \<lparr>me_size = 0, me_data = 0, me_node_id = 0, me_flags = 0, me_last_used = 0\<rparr>"

definition ex_pool :: "addr list pool_mem" where
  "ex_pool = snd (mempool_create hol_list 0 5 NULL [(10, 11), (20, 21)] NULL NULL [] 1 64 2 3 MEMPOOL_PREALLOC (\<lambda>_. ex_elem))"

lemma ex_pool_created: "mempool_create hol_list 0 5 NULL [(10, 11), (20, 21)] NULL NULL [] 1 64 2 3 MEMPOOL_PREALLOC (\<lambda>_. ex_elem) = (5, ex_pool)"
  unfolding ex_pool_def prod_eq_iff by (simp add: mempool_create_def Let_def)

lemma ex_pool_alloc: "\<exists>m. alloc_locked hol_list 7 ex_pool = (Alloc_Got 11, m)"
  by (simp add: ex_pool_def mempool_create_def new_pool_def new_elem_def hol_list_def alloc_locked_def Let_def)

theorem mempool_hands_out_once_witness:
  "\<exists>s'. steps (pool_step hol_list) \<lparr>py_mem = ex_pool, py_pc = (\<lambda>_. Pool_out)\<rparr> [Ev_Alloc 3 11] s' \<and> (\<exists>A. steps once_step {} [Ev_Alloc 3 11] A)"
proof -
  let ?s = "\<lparr>py_mem = ex_pool, py_pc = (\<lambda>_. Pool_out)\<rparr>"
  obtain m where "alloc_locked hol_list 7 ex_pool = (Alloc_Got 11, m)" using ex_pool_alloc by blast
  then have "pool_step hol_list ?s (Ev_Alloc 3 11) (at_pool 3 Pool_out m ?s)" by (intro pool_got) simp_all
  then have run: "steps (pool_step hol_list) ?s [Ev_Alloc 3 11] (at_pool 3 Pool_out m ?s)" by (rule steps_Cons[OF _ steps_Nil])
  have cr: "mempool_create hol_list 0 5 NULL [(10, 11), (20, 21)] NULL NULL [] 1 64 2 3 MEMPOOL_PREALLOC (\<lambda>_. ex_elem) = (5, py_mem ?s)"
    using ex_pool_created by simp
  have "\<exists>A. steps once_step {} [Ev_Alloc 3 11] A"
    by (rule mempool_hands_out_once[OF hol_list_laws cr _ _ _ _ _ _ run]) simp_all
  with run show ?thesis by blast
qed

lemma in_use_at: "in_use K (at_pool t pc (py_mem s) s) \<subseteq> in_use K s \<union> (case pc of Pool_have e d \<Rightarrow> {e, d} | _ \<Rightarrow> {})"
  unfolding in_use_def by (auto split: if_splits)

text \<open>The maximum is not kept: two threads that find the pool one element below its maximum both pass the test before either of them
  has added an element.\<close>

theorem mempool_exceeds_max:
  assumes "kernel_list_laws K" "py_pc s t = Pool_out" "py_pc s u = Pool_out" "t \<noteq> u"
    and "free_elems K (py_mem s) = []" "unat (mp_max_nr (pm_pool (py_mem s))) = Suc (unat (mp_curr_nr (pm_pool (py_mem s))))"
    and "distinct [e, d, e', d']" "NULL \<notin> {e, d, e', d'}" "{e, d, e', d'} \<inter> in_use K s = {}"
  shows "\<exists>evs s'. steps (pool_step K) s evs s' \<and> mp_max_nr (pm_pool (py_mem s')) = mp_max_nr (pm_pool (py_mem s)) \<and>
    mp_curr_nr (pm_pool (py_mem s')) = mp_max_nr (pm_pool (py_mem s)) + 1"
proof -
  let ?m = "py_mem s"
  let ?s1 = "at_pool t Pool_grow ?m s"
  let ?s2 = "at_pool u Pool_grow ?m ?s1"
  let ?s3 = "at_pool t (Pool_have e d) ?m ?s2"
  let ?s4 = "at_pool u (Pool_have e' d') ?m ?s3"
  let ?s5 = "at_pool t Pool_out (alloc_add K 0 e d ?m) ?s4"
  let ?s6 = "at_pool u Pool_out (alloc_add K 0 e' d' (alloc_add K 0 e d ?m)) ?s5"
  have lk: "alloc_locked K 0 ?m = (Alloc_Grow, ?m)"
    using assms(1,5,6) by (simp add: alloc_locked_def Let_def kernel_list_simps word_less_nat_alt)
  have fresh: "x \<notin> in_use K ?s2" if "x \<in> {e, d, e', d'}" for x using that assms(9) in_use_at[where K = K and t = u and pc = Pool_grow and s = ?s1] in_use_at[where K = K and t = t and pc = Pool_grow and s = s] by auto
  have fresh': "x \<notin> in_use K ?s3" if "x \<in> {e', d'}" for x
    using that fresh[of x] assms(7) in_use_at[where K = K and t = t and pc = "Pool_have e d" and s = ?s2] by auto
  have "pool_step K s (Ev_Internal t) ?s1" using assms(2) lk by (intro pool_grow) simp_all
  moreover have "pool_step K ?s1 (Ev_Internal u) ?s2" using assms(3,4) lk by (intro pool_grow) simp_all
  moreover have "pool_step K ?s2 (Ev_Internal t) ?s3"
    using assms(4,7,8) fresh pool_kmalloc[of ?s2 t e d K] by simp
  moreover have "pool_step K ?s3 (Ev_Internal u) ?s4"
    using assms(4,7,8) fresh' pool_kmalloc[of ?s3 u e' d' K] by simp
  moreover have "pool_step K ?s4 (Ev_Alloc t d) ?s5" using assms(4) pool_add[of ?s4 t e d K 0] by simp
  moreover have "pool_step K ?s5 (Ev_Alloc u d') ?s6" using assms(4) pool_add[of ?s5 u e' d' K 0] by simp
  ultimately have run: "steps (pool_step K) s [Ev_Internal t, Ev_Internal u, Ev_Internal t, Ev_Internal u, Ev_Alloc t d, Ev_Alloc u d'] ?s6"
    by (iprover intro: steps_Cons steps_Nil)
  have "mp_max_nr (pm_pool ?m) = mp_curr_nr (pm_pool ?m) + 1"
    using assms(6) unsigned_less[of "mp_max_nr (pm_pool ?m)", where 'a = nat] by (simp add: word_unat_eq_iff unat_plus_if')
  then have "mp_max_nr (pm_pool (py_mem ?s6)) = mp_max_nr (pm_pool ?m) \<and> mp_curr_nr (pm_pool (py_mem ?s6)) = mp_max_nr (pm_pool ?m) + 1"
    by (simp add: alloc_add_def Let_def)
  with run show ?thesis by blast
qed

theorem mempool_exceeds_max_witness:
  "\<exists>evs s'. steps (pool_step hol_list) \<lparr>py_mem = new_pool hol_list 64 0 1 0 (\<lambda>_. ex_elem), py_pc = (\<lambda>_. Pool_out)\<rparr> evs s' \<and>
     mp_max_nr (pm_pool (py_mem s')) = 1 \<and> mp_curr_nr (pm_pool (py_mem s')) = 2"
proof -
  let ?s = "\<lparr>py_mem = new_pool hol_list 64 0 1 0 (\<lambda>_. ex_elem), py_pc = (\<lambda>_. Pool_out)\<rparr>"
  have "{100, 101, 200, 201} \<inter> in_use hol_list ?s = {}" by (simp add: in_use_def pool_elems_def emergency_blocks_def new_pool_def hol_list_def)
  then have "\<exists>evs s'. steps (pool_step hol_list) ?s evs s' \<and> mp_max_nr (pm_pool (py_mem s')) = mp_max_nr (pm_pool (py_mem ?s)) \<and>
      mp_curr_nr (pm_pool (py_mem s')) = mp_max_nr (pm_pool (py_mem ?s)) + 1"
    by (intro mempool_exceeds_max[OF hol_list_laws, of ?s 0 1 100 101 200 201]) (simp_all add: new_pool_def hol_list_def)
  then show ?thesis by (simp add: new_pool_def)
qed

text \<open>\<open>mempool_alloc\<close> of one thread returns a block that was not handed out, or \<open>NULL\<close> only when there is no free element and the pool is at its
  maximum or memory is short; it keeps the elements apart, their number right and below the maximum.\<close>

theorem mempool_alloc_correct:
  assumes "kernel_list_laws K" "mem_inv K m" "size_inv K m" "pool \<noteq> NULL"
    and "e \<notin> set (pool_elems K m)" "d \<notin> set (pool_blocks K m)" "mempool_alloc K now e d pool m = (p, m')"
  shows "mem_inv K m' \<and> size_inv K m' \<and>
    (if p = NULL then handed_out K m' = handed_out K m \<and> free_elems K m = [] \<and>
       (e = NULL \<or> d = NULL \<or> mp_curr_nr (pm_pool m) = mp_max_nr (pm_pool m))
     else p \<notin> handed_out K m \<and> handed_out K m' = insert p (handed_out K m))"
proof -
  have sz: "size_inv K m'" using size_inv_alloc[OF assms(1-3,5,7)] .
  obtain out m1 where o: "alloc_locked K now m = (out, m1)" by fastforce
  have te: "try_emergency pool x = (p, m') \<Longrightarrow> mem_inv K x \<Longrightarrow> mem_inv K m' \<and>
      (if p = NULL then handed_out K m' = handed_out K x else p \<notin> handed_out K x \<and> handed_out K m' = insert p (handed_out K x))" for x
    using try_emergency_inv[of K x pool p m'] by (auto simp: shrinks_def)
  show ?thesis
  proof (cases out)
    case (Alloc_Got q)
    then have "p = q" "m' = m1" using o assms(4,7) by (auto simp: mempool_alloc_def)
    with alloc_locked_got[OF assms(1,2), of now q m1] o Alloc_Got sz show ?thesis by (auto simp: shrinks_def)
  next
    case Alloc_Grow
    then have m1: "m1 = m" "free_elems K m = []" using o assms(1) by (auto simp: alloc_locked_def Let_def kernel_list_simps split: if_splits)
    consider "e = NULL" "try_emergency pool m = (p, m')" | "d = NULL" "try_emergency pool (kfree e m) = (p, m')"
      | "d \<noteq> NULL" "p = d" "m' = alloc_add K now e d m"
      using assms(4,7) o Alloc_Grow m1(1) by (auto simp: mempool_alloc_def split: if_splits)
    then show ?thesis
    proof cases
      case 2
      with te[of "kfree e m"] shrinks_kfree[OF assms(2), of e] sz m1 show ?thesis by (auto simp: shrinks_def)
    next
      case 3
      with alloc_add_inv[OF assms(1,2,5,6), of now] handed_out_blocks[of K m] assms(6) sz show ?thesis by auto
    qed (use te[of m] assms(2) sz m1 in auto)
  next
    case Alloc_Full
    then have "m1 = m" "free_elems K m = []" "mp_curr_nr (pm_pool m) = mp_max_nr (pm_pool m)"
      using o assms(1,3) by (auto simp: alloc_locked_def Let_def kernel_list_simps size_inv_def split: if_splits)
    moreover have "try_emergency pool m = (p, m')" using Alloc_Full o calculation(1) assms(4,7) by (simp add: mempool_alloc_def)
    ultimately show ?thesis using te[of m] assms(2) sz by auto
  qed
qed

theorem mempool_alloc_correct_witness:
  "\<exists>m'. mempool_alloc hol_list 9 100 101 5 (new_pool hol_list 64 0 1 0 (\<lambda>_. ex_elem)) = (101, m') \<and> size_inv hol_list m' \<and> handed_out hol_list m' = {101}"
proof -
  let ?m = "new_pool hol_list 64 0 1 0 (\<lambda>_. ex_elem)"
  have i: "mem_inv hol_list ?m" "size_inv hol_list ?m" "pool_elems hol_list ?m = []" "pool_blocks hol_list ?m = []" "handed_out hol_list ?m = {}"
    by (simp_all add: mem_inv_def size_inv_def handed_out_def pool_blocks_def pool_elems_def emergency_blocks_def new_pool_def hol_list_def)
  obtain m' where m': "mempool_alloc hol_list 9 100 101 5 ?m = (101, m')"
    by (simp add: mempool_alloc_def alloc_locked_def new_pool_def hol_list_def)
  with mempool_alloc_correct[OF hol_list_laws i(1,2) _ _ _ m'] i(3-5) show ?thesis by auto
qed

end
