(* ===== verification/Task_Scheduler.thy ===== *)
theory Task_Scheduler
  imports Kernel_List Linked_List "HOL-Library.Signed_Division"
begin

text \<open>
  Model of \<open>task_scheduler.c\<close>, a scheduler of tasks in groups with quotas on several processors, written against the Linux kernel. The
  red-black trees of the kernel are the parameter \<open>R\<close> (\<open>kernel_rbtree_laws\<close>), its lists the parameter \<open>K\<close>. The file inserts
  with \<open>rb_link_node(&task->node, NULL, &root.rb_node)\<close>, which stores the node in the root pointer of the tree, and
  \<open>rb_insert_color\<close>; the two calls are the operation \<open>rb_link_root\<close>.

  Tasks and groups live in memories, run queues in a list indexed by the processor. Results of the allocator and readings of the clock are
  arguments, as is \<open>calc_weight\<close>, which no file defines. \<open>None\<close> is undefined behaviour or a loop that does not end. \<open>rb_entry\<close> of
  the null pointer is not the null pointer, so that the tests of its result always succeed and the accesses through it are undefined.
\<close>

section \<open>Red-black trees of the kernel\<close>

record 'r kernel_rbtree =
  RB_ROOT :: 'r
  rb_first :: "'r \<Rightarrow> addr option"
  rb_erase :: "addr \<Rightarrow> 'r \<Rightarrow> 'r"
  rb_link_root :: "addr \<Rightarrow> 'r \<Rightarrow> 'r"
  rb_inorder :: "'r \<Rightarrow> addr list"

definition kernel_rbtree_laws :: "'r kernel_rbtree \<Rightarrow> bool" where
  "kernel_rbtree_laws R \<longleftrightarrow>
     rb_inorder R (RB_ROOT R) = [] \<and>
     (\<forall>r. rb_first R r = (case rb_inorder R r of [] \<Rightarrow> None | x # _ \<Rightarrow> Some x)) \<and>
     (\<forall>x r. x \<in> set (rb_inorder R r) \<longrightarrow> rb_inorder R (rb_erase R x r) = remove1 x (rb_inorder R r)) \<and>
     (\<forall>x r. rb_inorder R (rb_link_root R x r) = [x])"

section \<open>Data\<close>

record custom_task =
  cs_pid :: int
  cs_state :: int
  cs_nice :: int
  cs_weight :: u32
  cs_vruntime :: u64
  cs_exec_start :: u64
  cs_sum_exec_runtime :: u64
  cs_group :: addr
  cs_cpu :: int
  cs_deadline :: u64
  cs_runtime_left :: u64

record ('r, 'l) task_group =
  tg_tasks_tree :: 'r
  tg_weight :: u32
  tg_vruntime :: u64
  tg_quota :: u64
  tg_runtime :: u64
  tg_period :: u64
  tg_parent :: addr
  tg_children :: 'l
  tg_cpu_preferred :: int

record 'r cpu_rq =
  rq_timeline :: 'r
  rq_nr_running :: u64
  rq_cpu_load :: u64
  rq_cpu :: nat
  rq_curr :: addr
  rq_min_vruntime :: u64
  rq_capacity :: u64

record ('r, 'l) cfs =
  cf_task :: "addr \<Rightarrow> custom_task"
  cf_group :: "addr \<Rightarrow> ('r, 'l) task_group"
  cf_rqs :: "'r cpu_rq list"

abbreviation (input) CS_RUNNING :: int where "CS_RUNNING \<equiv> 0"
abbreviation (input) CS_READY :: int where "CS_READY \<equiv> 1"
abbreviation (input) FAIR_LATENCY :: u64 where "FAIR_LATENCY \<equiv> 6000000"
abbreviation (input) MAX_CPU_CAPACITY :: u64 where "MAX_CPU_CAPACITY \<equiv> 1024"
abbreviation (input) BANDWIDTH_PERIOD :: u64 where "BANDWIDTH_PERIOD \<equiv> 100000000"
abbreviation (input) NICE_0_WEIGHT :: u64 where "NICE_0_WEIGHT \<equiv> 20"

abbreviation upd_cs :: "(custom_task \<Rightarrow> custom_task) \<Rightarrow> addr \<Rightarrow> ('r, 'l) cfs \<Rightarrow> ('r, 'l) cfs" where
  "upd_cs f t s \<equiv> s\<lparr>cf_task := (cf_task s)(t := f (cf_task s t))\<rparr>"

abbreviation upd_rq :: "('r cpu_rq \<Rightarrow> 'r cpu_rq) \<Rightarrow> nat \<Rightarrow> ('r, 'l) cfs \<Rightarrow> ('r, 'l) cfs" where
  "upd_rq f c s \<equiv> s\<lparr>cf_rqs := (cf_rqs s)[c := f (cf_rqs s ! c)]\<rparr>"

section \<open>Run queues and groups\<close>

definition new_rq :: "'r kernel_rbtree \<Rightarrow> nat \<Rightarrow> 'r cpu_rq" where
  "new_rq R i = \<lparr>rq_timeline = RB_ROOT R, rq_nr_running = 0, rq_cpu_load = 0, rq_cpu = i, rq_curr = NULL, rq_min_vruntime = 0,
     rq_capacity = MAX_CPU_CAPACITY\<rparr>"

text \<open>\<open>arr\<close> is the result of the allocation of the array, which is not tested.\<close>

definition init_cpu_rqs :: "'r kernel_rbtree \<Rightarrow> addr \<Rightarrow> nat \<Rightarrow> ('r, 'l) cfs \<Rightarrow> ('r, 'l) cfs option" where
  "init_cpu_rqs R arr nr_cpus s =
     (if arr = NULL \<and> nr_cpus > 0 then None else Some (s\<lparr>cf_rqs := map (new_rq R) [0..<nr_cpus]\<rparr>))"

text \<open>\<open>(BANDWIDTH_PERIOD * DEFAULT_GROUP_QUOTA) / 100\<close> is computed in 32 bits with a sign; the kernel is built so that such sums wrap.\<close>

definition default_quota :: u64 where
  "default_quota = word_of_int (sint (100000000 * 70 :: 32 word) sdiv 100)"

definition create_task_group :: "'r kernel_rbtree \<Rightarrow> ('l, addr) kernel_list \<Rightarrow> addr \<Rightarrow> addr \<Rightarrow> ('r, 'l) cfs \<Rightarrow> addr \<times> ('r, 'l) cfs" where
  "create_task_group R K grp parent s =
     (if grp = NULL then (NULL, s)
      else
        let s = s\<lparr>cf_group := (cf_group s)(grp := \<lparr>tg_tasks_tree = RB_ROOT R, tg_weight = 20, tg_vruntime = 0,
                    tg_quota = default_quota, tg_runtime = 0, tg_period = BANDWIDTH_PERIOD,
                    tg_parent = parent, tg_children = INIT_LIST_HEAD K, tg_cpu_preferred = - 1\<rparr>)\<rparr>;
            s = (if parent \<noteq> NULL
                 then s\<lparr>cf_group := (cf_group s)(parent := (cf_group s parent)\<lparr>tg_children := list_add_tail K grp (tg_children (cf_group s parent))\<rparr>)\<rparr>
                 else s)
        in (grp, s))"

definition calc_cpu_load :: "'r cpu_rq \<Rightarrow> u64" where
  "calc_cpu_load rq = rq_nr_running rq * NICE_0_WEIGHT"

text \<open>The loops over the processors from \<open>cpu\<close> on; \<open>rqs\<close> are their run queues.\<close>

fun busiest_loop :: "'r cpu_rq list \<Rightarrow> nat \<Rightarrow> nat \<Rightarrow> u64 \<Rightarrow> nat" where
  "busiest_loop [] cpu busiest_cpu max_load = busiest_cpu"
| "busiest_loop (rq # rqs) cpu busiest_cpu max_load =
     (let ld = calc_cpu_load rq in
      if ld > max_load then busiest_loop rqs (cpu + 1) cpu ld else busiest_loop rqs (cpu + 1) busiest_cpu max_load)"

definition find_busiest_cpu :: "('r, 'l) cfs \<Rightarrow> nat" where
  "find_busiest_cpu s = busiest_loop (cf_rqs s) 0 0 0"

fun idlest_loop :: "'r cpu_rq list \<Rightarrow> nat \<Rightarrow> nat \<Rightarrow> u64 \<Rightarrow> nat" where
  "idlest_loop [] cpu idlest_cpu min_load = idlest_cpu"
| "idlest_loop (rq # rqs) cpu idlest_cpu min_load =
     (let ld = calc_cpu_load rq in
      if ld < min_load then idlest_loop rqs (cpu + 1) cpu ld else idlest_loop rqs (cpu + 1) idlest_cpu min_load)"

definition find_idlest_cpu :: "('r, 'l) cfs \<Rightarrow> nat" where
  "find_idlest_cpu s = idlest_loop (cf_rqs s) 0 0 (- 1)"

text \<open>The walk from a group to the root of its hierarchy.\<close>

partial_function (option) group_runtime_loop :: "u64 \<Rightarrow> addr \<Rightarrow> (addr \<Rightarrow> ('r, 'l) task_group) \<Rightarrow> (bool \<times> (addr \<Rightarrow> ('r, 'l) task_group)) option" where
  "group_runtime_loop now grp m =
     (if grp = NULL then Some (True, m)
      else
        let m = (if now - tg_runtime (m grp) \<ge> tg_period (m grp) then m(grp := (m grp)\<lparr>tg_runtime := 0\<rparr>) else m) in
        if tg_runtime (m grp) \<ge> tg_quota (m grp) then Some (False, m)
        else group_runtime_loop now (tg_parent (m grp)) m)"

definition check_group_runtime :: "u64 \<Rightarrow> addr \<Rightarrow> ('r, 'l) cfs \<Rightarrow> (bool \<times> ('r, 'l) cfs) option" where
  "check_group_runtime now task s =
     map_option (\<lambda>(b, m). (b, s\<lparr>cf_group := m\<rparr>)) (group_runtime_loop now (cs_group (cf_task s task)) (cf_group s))"

partial_function (option) update_group_loop :: "u64 \<Rightarrow> addr \<Rightarrow> (addr \<Rightarrow> ('r, 'l) task_group) \<Rightarrow> (addr \<Rightarrow> ('r, 'l) task_group) option" where
  "update_group_loop delta grp m =
     (if grp = NULL then Some m
      else
        let m = m(grp := (m grp)\<lparr>tg_runtime := tg_runtime (m grp) + delta, tg_vruntime := tg_vruntime (m grp) + delta\<rparr>)
        in update_group_loop delta (tg_parent (m grp)) m)"

definition update_group_runtime :: "u64 \<Rightarrow> addr \<Rightarrow> ('r, 'l) cfs \<Rightarrow> ('r, 'l) cfs option" where
  "update_group_runtime delta task s =
     map_option (\<lambda>m. s\<lparr>cf_group := m\<rparr>) (update_group_loop delta (cs_group (cf_task s task)) (cf_group s))"

section \<open>Balancing and scheduling\<close>

definition load_balance :: "'r kernel_rbtree \<Rightarrow> ('r, 'l) cfs \<Rightarrow> ('r, 'l) cfs" where
  "load_balance R s =
     (let busiest = find_busiest_cpu s; idlest = find_idlest_cpu s in
      if busiest = idlest then s
      else case rb_first R (rq_timeline (cf_rqs s ! busiest)) of
        None \<Rightarrow> s
      | Some task \<Rightarrow>
          let s = upd_rq (\<lambda>rq. rq\<lparr>rq_timeline := rb_erase R task (rq_timeline rq), rq_nr_running := rq_nr_running rq - 1\<rparr>) busiest s;
              s = upd_cs (\<lambda>t. t\<lparr>cs_cpu := int idlest\<rparr>) task s
          in upd_rq (\<lambda>rq. rq\<lparr>rq_timeline := rb_link_root R task (rq_timeline rq), rq_nr_running := rq_nr_running rq + 1\<rparr>) idlest s)"

text \<open>\<open>clock i\<close> is the \<open>i\<close>-th reading of the clock.\<close>

definition should_preempt :: "(nat \<Rightarrow> u64) \<Rightarrow> addr \<Rightarrow> addr \<Rightarrow> ('r, 'l) cfs \<Rightarrow> (bool \<times> ('r, 'l) cfs) option" where
  "should_preempt clock cur nxt s =
     (if cur = NULL then Some (True, s)
      else
        Option.bind (check_group_runtime (clock 0) cur s) (\<lambda>(ok, s).
        Option.bind (if \<not> ok then check_group_runtime (clock 1) nxt s else Some (False, s)) (\<lambda>(ok', s).
          if \<not> ok \<and> ok' then Some (True, s)
          else
            let c = cf_task s cur; n = cf_task s nxt in
            Some (cs_vruntime n + FAIR_LATENCY < cs_vruntime c \<or>
                  cs_deadline n \<noteq> 0 \<and> cs_deadline c \<noteq> 0 \<and> cs_deadline n < cs_deadline c, s))))"

definition update_curr_advanced :: "u64 \<Rightarrow> addr \<Rightarrow> nat \<Rightarrow> ('r, 'l) cfs \<Rightarrow> ('r, 'l) cfs option" where
  "update_curr_advanced now task cpu s =
     (if cs_exec_start (cf_task s task) = 0 then Some s
      else
        let delta_exec = now - cs_exec_start (cf_task s task);
            s = upd_cs (\<lambda>t. t\<lparr>cs_sum_exec_runtime := cs_sum_exec_runtime t + delta_exec\<rparr>) task s in
        Option.bind (update_group_runtime delta_exec task s) (\<lambda>s.
          let s = upd_cs (\<lambda>t. if cs_runtime_left t \<le> delta_exec
                              then t\<lparr>cs_runtime_left := 0, cs_deadline := now + BANDWIDTH_PERIOD\<rparr>
                              else t\<lparr>cs_runtime_left := cs_runtime_left t - delta_exec\<rparr>) task s in
          if cs_weight (cf_task s task) = 0 then None
          else
            let s = upd_cs (\<lambda>t. t\<lparr>cs_vruntime := cs_vruntime t + delta_exec * NICE_0_WEIGHT div ucast (cs_weight t)\<rparr>) task s;
                v = cs_vruntime (cf_task s task)
            in Some (if v < rq_min_vruntime (cf_rqs s ! cpu) then upd_rq (\<lambda>rq. rq\<lparr>rq_min_vruntime := v\<rparr>) cpu s else s)))"

text \<open>Putting the previous task back, if it still runs.\<close>

definition put_prev :: "'r kernel_rbtree \<Rightarrow> u64 \<Rightarrow> nat \<Rightarrow> ('r, 'l) cfs \<Rightarrow> ('r, 'l) cfs option" where
  "put_prev R now cpu s =
     (let prev = rq_curr (cf_rqs s ! cpu) in
      if prev = NULL then Some s
      else Option.bind (update_curr_advanced now prev cpu s) (\<lambda>s.
        if cs_state (cf_task s prev) = CS_RUNNING
        then Some (upd_rq (\<lambda>rq. rq\<lparr>rq_timeline := rb_link_root R prev (rq_timeline rq)\<rparr>) cpu (upd_cs (\<lambda>t. t\<lparr>cs_state := CS_READY\<rparr>) prev s))
        else Some s))"

text \<open>Making the next task current.\<close>

definition set_next :: "'r kernel_rbtree \<Rightarrow> u64 \<Rightarrow> nat \<Rightarrow> addr \<Rightarrow> ('r, 'l) cfs \<Rightarrow> ('r, 'l) cfs option" where
  "set_next R now cpu nxt s =
     (let s = upd_rq (\<lambda>rq. rq\<lparr>rq_timeline := rb_erase R nxt (rq_timeline rq)\<rparr>) cpu s;
          s = upd_cs (\<lambda>t. t\<lparr>cs_exec_start := now, cs_state := CS_RUNNING\<rparr>) nxt s in
      if now \<ge> cs_deadline (cf_task s nxt) \<and> cs_group (cf_task s nxt) = NULL then None
      else
        let s = (if now \<ge> cs_deadline (cf_task s nxt)
                 then upd_cs (\<lambda>t. t\<lparr>cs_runtime_left := tg_quota (cf_group s (cs_group t)) * BANDWIDTH_PERIOD div 100,
                                    cs_deadline := now + BANDWIDTH_PERIOD\<rparr>) nxt s
                 else s)
        in Some (upd_rq (\<lambda>rq. rq\<lparr>rq_curr := nxt, rq_nr_running := (if rb_first R (rq_timeline rq) = None then 0 else 1)\<rparr>) cpu s))"

definition schedule :: "'r kernel_rbtree \<Rightarrow> (nat \<Rightarrow> u64) \<Rightarrow> nat \<Rightarrow> ('r, 'l) cfs \<Rightarrow> ('r, 'l) cfs option" where
  "schedule R clock cpu s =
     (let prev = rq_curr (cf_rqs s ! cpu) in
      Option.bind (put_prev R (clock 0) cpu s) (\<lambda>s.
        let s = (if rq_nr_running (cf_rqs s ! cpu) > rq_capacity (cf_rqs s ! cpu) div NICE_0_WEIGHT then load_balance R s else s) in
        Option.bind (rb_first R (rq_timeline (cf_rqs s ! cpu))) (\<lambda>nxt.
        Option.bind (should_preempt (\<lambda>i. clock (1 + i)) prev nxt s) (\<lambda>(b, s).
          if \<not> b then Some s else set_next R (clock 3) cpu nxt s))))"

section \<open>Tasks\<close>

definition create_task :: "(int \<Rightarrow> u32) \<Rightarrow> u64 \<Rightarrow> addr \<Rightarrow> int \<Rightarrow> int \<Rightarrow> addr \<Rightarrow> ('r, 'l) cfs \<Rightarrow> addr \<times> ('r, 'l) cfs" where
  "create_task calc_weight now task pid nice grp s =
     (if task = NULL then (NULL, s)
      else (task, s\<lparr>cf_task := (cf_task s)(task := \<lparr>cs_pid = pid, cs_state = CS_READY, cs_nice = nice, cs_weight = calc_weight nice,
              cs_vruntime = 0, cs_exec_start = 0, cs_sum_exec_runtime = 0, cs_group = grp, cs_cpu = - 1,
              cs_deadline = now + BANDWIDTH_PERIOD, cs_runtime_left = tg_quota (cf_group s grp) * BANDWIDTH_PERIOD div 100\<rparr>)\<rparr>))"

definition custom_create_task :: "'r kernel_rbtree \<Rightarrow> (int \<Rightarrow> u32) \<Rightarrow> u64 \<Rightarrow> addr \<Rightarrow> int \<Rightarrow> int \<Rightarrow> addr \<Rightarrow> ('r, 'l) cfs \<Rightarrow> int \<times> ('r, 'l) cfs" where
  "custom_create_task R calc_weight now mem pid nice grp s =
     (if nice < - 20 \<or> nice > 19 then (- 22, s)
      else if grp = NULL then (- 22, s)
      else
        let (task, s) = create_task calc_weight now mem pid nice grp s in
        if task = NULL then (- 12, s)
        else
          let cpu = find_idlest_cpu s;
              s = upd_cs (\<lambda>t. t\<lparr>cs_cpu := int cpu\<rparr>) task s
          in (0, upd_rq (\<lambda>rq. rq\<lparr>rq_timeline := rb_link_root R task (rq_timeline rq), rq_nr_running := rq_nr_running rq + 1\<rparr>) cpu s))"

text \<open>The loop of the clean-up over one tree: the tasks it frees.\<close>

partial_function (option) free_tasks :: "'r kernel_rbtree \<Rightarrow> 'r \<Rightarrow> addr list option" where
  "free_tasks R r =
     (case rb_first R r of
        None \<Rightarrow> Some []
      | Some task \<Rightarrow> Option.bind (free_tasks R (rb_erase R task r)) (\<lambda>ts. Some (task # ts)))"

fun custom_scheduler_exit :: "'r kernel_rbtree \<Rightarrow> 'r cpu_rq list \<Rightarrow> addr list option" where
  "custom_scheduler_exit R [] = Some []"
| "custom_scheduler_exit R (rq # rqs) =
     Option.bind (free_tasks R (rq_timeline rq)) (\<lambda>ts. Option.bind (custom_scheduler_exit R rqs) (\<lambda>us. Some (ts @ us)))"

declare group_runtime_loop.simps [code] update_group_loop.simps [code] free_tasks.simps [code]

end
