(* ===== verification/Task_Scheduler_Spec.thy ===== *)
theory Task_Scheduler_Spec
  imports Task_Scheduler
begin

text \<open>
  The scanning loops of \<^verbatim>\<open>task_scheduler.c\<close> as one contract, the quota of groups, the tasks in the run queues, and the choice of the
  next task.
\<close>

section \<open>Trees of the kernel\<close>

lemma kernel_rbtree_simps:
  assumes "kernel_rbtree_laws R"
  shows "rb_inorder R (RB_ROOT R) = []"
    and "rb_first R r = (case rb_inorder R r of [] \<Rightarrow> None | x # _ \<Rightarrow> Some x)"
    and "x \<in> set (rb_inorder R r) \<Longrightarrow> rb_inorder R (rb_erase R x r) = remove1 x (rb_inorder R r)"
    and "rb_inorder R (rb_link_root R x r) = [x]"
  using assms by (auto simp: kernel_rbtree_laws_def)

text \<open>The laws can hold: a tree as the list of its nodes.\<close>

definition list_rbtree :: "addr list kernel_rbtree" where
  "list_rbtree = \<lparr>RB_ROOT = [], rb_first = (\<lambda>r. case r of [] \<Rightarrow> None | x # _ \<Rightarrow> Some x), rb_erase = remove1, rb_link_root = (\<lambda>x r. [x]), rb_inorder = (\<lambda>r. r)\<rparr>"

lemma list_rbtree_laws: "kernel_rbtree_laws list_rbtree"
  by (simp add: kernel_rbtree_laws_def list_rbtree_def)

section \<open>Loads\<close>

abbreviation cpu_load :: "('r, 'l) cfs \<Rightarrow> nat \<Rightarrow> u64" where
  "cpu_load s i \<equiv> calc_cpu_load (cf_rqs s ! i)"

text \<open>A loop over the processors that keeps the number of the best one so far: it ends with one that no other betters.\<close>

locale best_scan =
  fixes loop :: "'x list \<Rightarrow> nat \<Rightarrow> nat \<Rightarrow> 'v \<Rightarrow> nat"
    and cost :: "'x \<Rightarrow> 'v"
    and better :: "'v \<Rightarrow> 'v \<Rightarrow> bool"
  assumes best_Nil: "loop [] k b m = b"
    and best_Cons: "loop (x # xs) k b m = (if better (cost x) m then loop xs (k + 1) k (cost x) else loop xs (k + 1) b m)"
    and better_irrefl: "\<not> better v v"
    and better_trans: "better v w \<Longrightarrow> \<not> better u w \<Longrightarrow> \<not> better u v"
    and better_chain: "better u v \<Longrightarrow> better v w \<Longrightarrow> better u w"
begin

lemma scan_best:
  "loop xs k b m = b \<and> (\<forall>x \<in> set xs. \<not> better (cost x) m) \<or>
   (\<exists>j < length xs. loop xs k b m = k + j \<and> better (cost (xs ! j)) m \<and> (\<forall>x \<in> set xs. \<not> better (cost x) (cost (xs ! j))))"
proof (induction xs arbitrary: k b m)
  case Nil
  show ?case by (simp add: best_Nil)
next
  case (Cons x xs)
  show ?case
  proof (cases "better (cost x) m")
    case True
    from Cons.IH[of "k + 1" k "cost x"] show ?thesis
    proof
      assume a: "loop xs (k + 1) k (cost x) = k \<and> (\<forall>y \<in> set xs. \<not> better (cost y) (cost x))"
      with True better_irrefl show ?thesis by (intro disjI2 exI[of _ 0]) (auto simp: best_Cons)
    next
      assume "\<exists>j < length xs. loop xs (k + 1) k (cost x) = k + 1 + j \<and> better (cost (xs ! j)) (cost x) \<and> (\<forall>y \<in> set xs. \<not> better (cost y) (cost (xs ! j)))"
      then obtain j where j: "j < length xs" "loop xs (k + 1) k (cost x) = k + 1 + j" "better (cost (xs ! j)) (cost x)"
        "\<forall>y \<in> set xs. \<not> better (cost y) (cost (xs ! j))" by blast
      with True better_trans[OF j(3) better_irrefl] better_chain[OF j(3) True] show ?thesis by (intro disjI2 exI[of _ "Suc j"]) (auto simp: best_Cons)
    qed
  next
    case False
    from Cons.IH[of "k + 1" b m] show ?thesis
    proof
      assume "loop xs (k + 1) b m = b \<and> (\<forall>y \<in> set xs. \<not> better (cost y) m)"
      with False show ?thesis by (intro disjI1) (auto simp: best_Cons)
    next
      assume "\<exists>j < length xs. loop xs (k + 1) b m = k + 1 + j \<and> better (cost (xs ! j)) m \<and> (\<forall>y \<in> set xs. \<not> better (cost y) (cost (xs ! j)))"
      then obtain j where j: "j < length xs" "loop xs (k + 1) b m = k + 1 + j" "better (cost (xs ! j)) m"
        "\<forall>y \<in> set xs. \<not> better (cost y) (cost (xs ! j))" by blast
      with False better_trans[OF j(3) False] show ?thesis by (intro disjI2 exI[of _ "Suc j"]) (auto simp: best_Cons)
    qed
  qed
qed

end

interpretation busiest: best_scan busiest_loop calc_cpu_load "(>)"
  by unfold_locales (auto simp: Let_def)

interpretation idlest: best_scan idlest_loop calc_cpu_load "(<)"
  by unfold_locales (auto simp: Let_def)

lemma find_busiest_cpu_max:
  assumes "cf_rqs s \<noteq> []"
  shows "find_busiest_cpu s < length (cf_rqs s) \<and> (\<forall>i < length (cf_rqs s). cpu_load s i \<le> cpu_load s (find_busiest_cpu s))"
proof -
  let ?r = "busiest_loop (cf_rqs s) 0 0 0"
  have "?r = 0 \<and> (\<forall>x \<in> set (cf_rqs s). calc_cpu_load x = 0) \<or>
      ?r < length (cf_rqs s) \<and> (\<forall>x \<in> set (cf_rqs s). calc_cpu_load x \<le> calc_cpu_load (cf_rqs s ! ?r))"
    using busiest.scan_best[of "cf_rqs s" 0 0 0] by (auto simp: not_less word_gt_0)
  then show ?thesis using assms by (auto simp: find_busiest_cpu_def)
qed

lemma find_idlest_cpu_min:
  assumes "cf_rqs s \<noteq> []"
  shows "find_idlest_cpu s < length (cf_rqs s) \<and> (\<forall>i < length (cf_rqs s). cpu_load s (find_idlest_cpu s) \<le> cpu_load s i)"
proof -
  let ?r = "idlest_loop (cf_rqs s) 0 0 (- 1)"
  have "?r = 0 \<and> (\<forall>x \<in> set (cf_rqs s). calc_cpu_load x = - 1) \<or>
      ?r < length (cf_rqs s) \<and> (\<forall>x \<in> set (cf_rqs s). calc_cpu_load (cf_rqs s ! ?r) \<le> calc_cpu_load x)"
    using idlest.scan_best[of "cf_rqs s" 0 0 "- 1"] by (auto simp: not_less word_order.extremum_unique)
  then show ?thesis using assms by (auto simp: find_idlest_cpu_def)
qed

section \<open>Groups\<close>

lemma default_quota_value: "unat default_quota = 18446744073693652271"
  by (simp add: default_quota_def signed_divide_int_def)

text \<open>The runtime of a group after the test for a new period.\<close>

definition runtime_at :: "u64 \<Rightarrow> ('r, 'l) task_group \<Rightarrow> u64" where
  "runtime_at now g = (if now - tg_runtime g \<ge> tg_period g then 0 else tg_runtime g)"

lemma group_runtime_loop_spec:
  "chain (\<lambda>g. tg_parent (m g)) grp gs \<Longrightarrow>
   \<exists>m'. group_runtime_loop now grp m = Some (\<forall>g \<in> set gs. runtime_at now (m g) < tg_quota (m g), m') \<and>
     (\<forall>g. m' g = m g \<or> g \<in> set gs \<and> m' g = (m g)\<lparr>tg_runtime := runtime_at now (m g)\<rparr>)"
proof (induction gs arbitrary: grp m)
  case Nil
  then show ?case by (simp add: group_runtime_loop.simps)
next
  case (Cons g gs)
  define m1 where "m1 = m(g := (m g)\<lparr>tg_runtime := runtime_at now (m g)\<rparr>)"
  have g: "grp = g" "g \<noteq> NULL" "chain (\<lambda>g. tg_parent (m g)) (tg_parent (m g)) gs" using Cons.prems by auto
  have gn: "g \<notin> set gs" using chain_distinct[OF Cons.prems] by simp
  have upd: "(if now - tg_runtime (m g) \<ge> tg_period (m g) then m(g := (m g)\<lparr>tg_runtime := 0\<rparr>) else m) = m1"
    by (simp add: m1_def runtime_at_def)
  have sel: "tg_runtime (m1 g) = runtime_at now (m g)" "tg_quota (m1 g) = tg_quota (m g)" "tg_parent (m1 g) = tg_parent (m g)"
    by (simp_all add: m1_def)
  have lp: "group_runtime_loop now grp m = (if runtime_at now (m g) \<ge> tg_quota (m g) then Some (False, m1) else group_runtime_loop now (tg_parent (m g)) m1)"
    by (subst group_runtime_loop.simps) (simp only: g(1) g(2) upd sel Let_def if_False)
  have "chain (\<lambda>g. tg_parent (m1 g)) (tg_parent (m g)) gs" using g(3) chain_cong[of gs "\<lambda>g. tg_parent (m1 g)" "\<lambda>g. tg_parent (m g)"] by (simp add: m1_def)
  from Cons.IH[OF this] obtain m' where m': "group_runtime_loop now (tg_parent (m g)) m1 = Some (\<forall>h \<in> set gs. runtime_at now (m1 h) < tg_quota (m1 h), m')"
    "\<forall>h. m' h = m1 h \<or> h \<in> set gs \<and> m' h = (m1 h)\<lparr>tg_runtime := runtime_at now (m1 h)\<rparr>" by blast
  have same: "m1 h = m h" if "h \<in> set gs" for h using that gn by (auto simp: m1_def)
  show ?case
  proof (cases "runtime_at now (m g) \<ge> tg_quota (m g)")
    case True
    then show ?thesis using lp by (intro exI[of _ m1]) (auto simp: m1_def)
  next
    case False
    have "\<forall>h. m' h = m h \<or> h \<in> set (g # gs) \<and> m' h = (m h)\<lparr>tg_runtime := runtime_at now (m h)\<rparr>"
    proof
      fix h show "m' h = m h \<or> h \<in> set (g # gs) \<and> m' h = (m h)\<lparr>tg_runtime := runtime_at now (m h)\<rparr>"
        using m'(2)[rule_format, of h] gn same[of h] by (cases "h = g") (auto simp: m1_def)
    qed
    with False lp m'(1) same show ?thesis by (intro exI[of _ m']) auto
  qed
qed

lemma free_tasks_all:
  assumes R: "kernel_rbtree_laws R"
  shows "free_tasks R r = Some (rb_inorder R r)"
proof (induction "rb_inorder R r" arbitrary: r)
  case Nil
  then show ?case by (simp add: free_tasks.simps kernel_rbtree_simps(2)[OF R] flip: Nil)
next
  case (Cons x xs)
  have "rb_inorder R (rb_erase R x r) = xs" using kernel_rbtree_simps(3)[OF R, of x r] Cons.hyps(2) by (metis list.set_intros(1) remove1.simps(2))
  with Cons.hyps(1)[of "rb_erase R x r"] show ?case
    by (subst free_tasks.simps) (simp add: kernel_rbtree_simps(2)[OF R] flip: Cons.hyps(2))
qed

section \<open>Creating tasks\<close>

type_synonym request = "u64 \<times> addr \<times> int \<times> int \<times> addr"

fun valid_request :: "request \<Rightarrow> bool" where
  "valid_request (now, mem, pid, nice, grp) \<longleftrightarrow> mem \<noteq> NULL \<and> - 20 \<le> nice \<and> nice \<le> 19 \<and> grp \<noteq> NULL"

fun create_all :: "'r kernel_rbtree \<Rightarrow> (int \<Rightarrow> u32) \<Rightarrow> request list \<Rightarrow> ('r, 'l) cfs \<Rightarrow> ('r, 'l) cfs" where
  "create_all R cw [] s = s"
| "create_all R cw ((now, mem, pid, nice, grp) # rs) s = create_all R cw rs (snd (custom_create_task R cw now mem pid nice grp s))"

lemma find_idlest_cong: "cf_rqs s = cf_rqs s' \<Longrightarrow> find_idlest_cpu s = find_idlest_cpu s'"
  by (simp add: find_idlest_cpu_def)

lemma custom_create_task_rqs:
  assumes "valid_request (now, mem, pid, nice, grp)"
  shows "fst (custom_create_task R cw now mem pid nice grp s) = 0 \<and>
    cf_rqs (snd (custom_create_task R cw now mem pid nice grp s)) =
      (let c = find_idlest_cpu s; rq = cf_rqs s ! c in
       (cf_rqs s)[c := rq\<lparr>rq_timeline := rb_link_root R mem (rq_timeline rq), rq_nr_running := rq_nr_running rq + 1\<rparr>])"
proof -
  define s1 where "s1 = snd (create_task cw now mem pid nice grp s)"
  have s1: "create_task cw now mem pid nice grp s = (mem, s1)" "cf_rqs s1 = cf_rqs s" using assms by (simp_all add: s1_def create_task_def)
  then show ?thesis using assms find_idlest_cong[OF s1(2)] by (simp add: custom_create_task_def Let_def)
qed

lemma create_all_counts:
  assumes R: "kernel_rbtree_laws R"
  shows "cf_rqs s \<noteq> [] \<Longrightarrow> \<forall>r \<in> set rs. valid_request r \<Longrightarrow>
    \<forall>rq \<in> set (cf_rqs s). length (rb_inorder R (rq_timeline rq)) \<le> 1 \<Longrightarrow>
    sum_list (map (\<lambda>rq. unat (rq_nr_running rq)) (cf_rqs s)) + length rs < 2 ^ 64 \<Longrightarrow>
    length (cf_rqs (create_all R cw rs s)) = length (cf_rqs s) \<and>
    (\<forall>rq \<in> set (cf_rqs (create_all R cw rs s)). length (rb_inorder R (rq_timeline rq)) \<le> 1) \<and>
    sum_list (map (\<lambda>rq. unat (rq_nr_running rq)) (cf_rqs (create_all R cw rs s))) =
      sum_list (map (\<lambda>rq. unat (rq_nr_running rq)) (cf_rqs s)) + length rs"
proof (induction rs arbitrary: s)
  case (Cons r rs)
  obtain now mem pid nice grp where r: "r = (now, mem, pid, nice, grp)" by (cases r)
  define s' where "s' = snd (custom_create_task R cw now mem pid nice grp s)"
  let ?c = "find_idlest_cpu s" and ?n = "\<lambda>rq. unat (rq_nr_running rq)"
  let ?rq = "cf_rqs s ! ?c"
  have c: "?c < length (cf_rqs s)" using find_idlest_cpu_min[OF Cons.prems(1)] by simp
  have "valid_request (now, mem, pid, nice, grp)" using Cons.prems(2) by (simp add: r)
  from custom_create_task_rqs[OF this, of R cw s]
  have rqs: "cf_rqs s' = (cf_rqs s)[?c := ?rq\<lparr>rq_timeline := rb_link_root R mem (rq_timeline ?rq), rq_nr_running := rq_nr_running ?rq + 1\<rparr>]"
    by (simp add: s'_def Let_def)
  have "?n ?rq \<le> sum_list (map ?n (cf_rqs s))" using elem_le_sum_list[of ?c "map ?n (cf_rqs s)"] c by simp
  then have inc: "unat (rq_nr_running ?rq + 1) = Suc (?n ?rq)" using Cons.prems(4) by (simp add: unat_plus_if')
  have sum: "sum_list (map ?n (cf_rqs s')) = Suc (sum_list (map ?n (cf_rqs s)))"
    using c inc \<open>?n ?rq \<le> sum_list (map ?n (cf_rqs s))\<close> by (simp add: rqs map_update sum_list_update)
  have one: "\<forall>rq \<in> set (cf_rqs s'). length (rb_inorder R (rq_timeline rq)) \<le> 1"
    using Cons.prems(3) kernel_rbtree_simps(4)[OF R] by (auto simp: rqs dest!: set_update_subset_insert[THEN subsetD])
  have "length (cf_rqs s') = length (cf_rqs s)" by (simp add: rqs)
  moreover have "cf_rqs s' \<noteq> []" using Cons.prems(1) by (simp add: rqs)
  moreover have "\<forall>r \<in> set rs. valid_request r" using Cons.prems(2) by simp
  ultimately show ?case using Cons.IH[of s'] sum one Cons.prems(4) by (simp add: r s'_def)
qed simp

section \<open>Properties\<close>

text \<open>The run queues forget tasks: after any number of successful calls of \<open>custom_create_task\<close> on a new system, the tree of each
  processor contains one task at most, whereas the counters of running tasks add up to the number of calls.\<close>

theorem cfs_forgets_tasks:
  assumes "kernel_rbtree_laws R" "init_cpu_rqs R arr n s = Some s0" "0 < n" "\<forall>r \<in> set rs. valid_request r" "length rs < 2 ^ 64"
  shows "length (cf_rqs (create_all R cw rs s0)) = n \<and>
    (\<forall>rq \<in> set (cf_rqs (create_all R cw rs s0)). length (rb_inorder R (rq_timeline rq)) \<le> 1) \<and>
    sum_list (map (\<lambda>rq. unat (rq_nr_running rq)) (cf_rqs (create_all R cw rs s0))) = length rs"
proof -
  have rqs: "cf_rqs s0 = map (new_rq R) [0..<n]" using assms(2) by (auto simp: init_cpu_rqs_def split: if_splits)
  have z: "sum_list (map (\<lambda>rq. unat (rq_nr_running rq)) (cf_rqs s0)) = 0" by (simp add: rqs new_rq_def comp_def)
  have one: "\<forall>rq \<in> set (cf_rqs s0). length (rb_inorder R (rq_timeline rq)) \<le> 1" using kernel_rbtree_simps(1)[OF assms(1)] by (simp add: rqs new_rq_def)
  have len: "length (cf_rqs s0) = n" "cf_rqs s0 \<noteq> []" using assms(3) by (simp_all add: rqs)
  from create_all_counts[OF assms(1) len(2) assms(4) one, of cw] assms(5) show ?thesis unfolding z len(1) by simp
qed

definition ex_task :: custom_task where
  "ex_task = \<lparr>cs_pid = 0, cs_state = 1, cs_nice = 0, cs_weight = 20, cs_vruntime = 0, cs_exec_start = 0, cs_sum_exec_runtime = 0, cs_group = 50,
     cs_cpu = 0, cs_deadline = 0, cs_runtime_left = 0\<rparr>"

definition ex_group :: "addr \<Rightarrow> (addr list, addr list) task_group" where
  "ex_group p = \<lparr>tg_tasks_tree = [], tg_weight = 20, tg_vruntime = 0, tg_quota = 70000000, tg_runtime = 90000000, tg_period = 100000000, tg_parent = p,
     tg_children = [], tg_cpu_preferred = - 1\<rparr>"

definition ex_cfs :: "(addr list, addr list) cfs" where
  "ex_cfs = \<lparr>cf_task = (\<lambda>_. ex_task), cf_group = (\<lambda>g. if g = 50 then ex_group 60 else ex_group NULL), cf_rqs = []\<rparr>"

theorem cfs_forgets_tasks_witness:
  "\<exists>s0. init_cpu_rqs list_rbtree 1 2 ex_cfs = Some s0 \<and>
     (\<forall>rq \<in> set (cf_rqs (create_all list_rbtree (\<lambda>_. 20) [(0, 10, 1, 0, 50), (0, 20, 2, 0, 50), (0, 30, 3, 0, 50)] s0)). length (rq_timeline rq) \<le> 1)"
proof -
  obtain s0 where s0: "init_cpu_rqs list_rbtree 1 2 ex_cfs = Some s0" by (simp add: init_cpu_rqs_def)
  have "\<forall>rq \<in> set (cf_rqs (create_all list_rbtree (\<lambda>_. 20) [(0, 10, 1, 0, 50), (0, 20, 2, 0, 50), (0, 30, 3, 0, 50)] s0)). length (rb_inorder list_rbtree (rq_timeline rq)) \<le> 1"
    by (rule cfs_forgets_tasks[OF list_rbtree_laws s0, THEN conjunct2, THEN conjunct1]) simp_all
  moreover have "rb_inorder list_rbtree = (\<lambda>r. r)" by (simp add: list_rbtree_def)
  ultimately show ?thesis using s0 by (metis (no_types, lifting))
qed

text \<open>C27: \<open>check_group_runtime\<close> ends and answers whether the group of the task and all groups above it are below their quota, with the
  runtime of a group taken as 0 when the current time is further than a period away from the \<^emph>\<open>runtime\<close>, not from the
  start of the period. It changes nothing but such runtimes. In particular, once the system has run longer than a period and the runtimes together, no task is
  ever found over its quota.\<close>

theorem check_group_runtime_correct:
  assumes "chain (\<lambda>g. tg_parent (cf_group s g)) (cs_group (cf_task s task)) gs"
  shows "\<exists>m. check_group_runtime now task s = Some (\<forall>g \<in> set gs. runtime_at now (cf_group s g) < tg_quota (cf_group s g), s\<lparr>cf_group := m\<rparr>) \<and>
    (\<forall>g. m g = cf_group s g \<or> g \<in> set gs \<and> m g = (cf_group s g)\<lparr>tg_runtime := runtime_at now (cf_group s g)\<rparr>) \<and>
    ((\<forall>g \<in> set gs. 0 < tg_quota (cf_group s g) \<and> unat (tg_runtime (cf_group s g)) + unat (tg_period (cf_group s g)) \<le> unat now) \<longrightarrow>
      fst (the (check_group_runtime now task s)))"
proof -
  from group_runtime_loop_spec[OF assms, of now] obtain m where m:
    "group_runtime_loop now (cs_group (cf_task s task)) (cf_group s) = Some (\<forall>g \<in> set gs. runtime_at now (cf_group s g) < tg_quota (cf_group s g), m)"
    "\<forall>g. m g = cf_group s g \<or> g \<in> set gs \<and> m g = (cf_group s g)\<lparr>tg_runtime := runtime_at now (cf_group s g)\<rparr>" by blast
  have "runtime_at now g = 0" if "unat (tg_runtime g) + unat (tg_period g) \<le> unat now" for g :: "('a, 'b) task_group"
    using that by (auto simp: runtime_at_def word_le_nat_alt unat_sub)
  with m show ?thesis by (intro exI[of _ m]) (auto simp: check_group_runtime_def)
qed

theorem check_group_runtime_correct_witness:
  "\<exists>s'. check_group_runtime 1000000000 1 ex_cfs = Some (True, s')"
proof -
  have ch: "chain (\<lambda>g. tg_parent (cf_group ex_cfs g)) (cs_group (cf_task ex_cfs 1)) [50, 60]" by (simp add: ex_cfs_def ex_task_def ex_group_def)
  have "\<forall>g \<in> set [50, 60]. runtime_at 1000000000 (cf_group ex_cfs g) < tg_quota (cf_group ex_cfs g)"
    by (simp add: runtime_at_def ex_cfs_def ex_group_def)
  with check_group_runtime_correct[OF ch, of 1000000000] show ?thesis by auto
qed

text \<open>\<open>schedule\<close> on a processor that runs nothing and is not overloaded: it makes the first task of the tree current and takes it out of
  the tree; the counter of running tasks becomes 1 or 0, whatever the number of tasks that are left. When the tree is empty, the
  behaviour is undefined, because the test for a missing task does not recognise it.\<close>

theorem schedule_idle_cpu:
  assumes "kernel_rbtree_laws R" "cpu < length (cf_rqs s)" "rq_curr (cf_rqs s ! cpu) = NULL" "rq_nr_running (cf_rqs s ! cpu) \<le> rq_capacity (cf_rqs s ! cpu) div 20"
    and "\<forall>t \<in> set (rb_inorder R (rq_timeline (cf_rqs s ! cpu))). cs_group (cf_task s t) \<noteq> NULL"
  shows "case rb_inorder R (rq_timeline (cf_rqs s ! cpu)) of
      [] \<Rightarrow> schedule R clock cpu s = None
    | t # ts \<Rightarrow> \<exists>s'. schedule R clock cpu s = Some s' \<and> rq_curr (cf_rqs s' ! cpu) = t \<and> cs_state (cf_task s' t) = CS_RUNNING \<and>
        cs_exec_start (cf_task s' t) = clock 3 \<and> rb_inorder R (rq_timeline (cf_rqs s' ! cpu)) = ts \<and>
        rq_nr_running (cf_rqs s' ! cpu) = (if ts = [] then 0 else 1) \<and> (\<forall>u. u \<noteq> t \<longrightarrow> cf_task s' u = cf_task s u)"
proof -
  let ?r = "rq_timeline (cf_rqs s ! cpu)"
  have pp: "put_prev R (clock 0) cpu s = Some s" using assms(3) by (simp add: put_prev_def)
  have sp: "should_preempt c NULL nxt s = Some (True, s)" for c nxt by (simp add: should_preempt_def)
  have sch: "schedule R clock cpu s = Option.bind (rb_first R ?r) (\<lambda>nxt. set_next R (clock 3) cpu nxt s)"
    using assms(3,4) by (simp add: schedule_def pp sp not_less[symmetric])
  show ?thesis
  proof (cases "rb_inorder R ?r")
    case Nil
    then show ?thesis using kernel_rbtree_simps(2)[OF assms(1), of ?r] by (simp add: sch)
  next
    case (Cons t ts)
    have g: "cs_group (cf_task s t) \<noteq> NULL" using assms(5) Cons by simp
    have er: "rb_inorder R (rb_erase R t ?r) = ts" using kernel_rbtree_simps(3)[OF assms(1), of t ?r] Cons by simp
    then have fr: "rb_first R (rb_erase R t ?r) = None \<longleftrightarrow> ts = []" using kernel_rbtree_simps(2)[OF assms(1), of "rb_erase R t ?r"] by (simp split: list.splits)
    have "schedule R clock cpu s = set_next R (clock 3) cpu t s" using kernel_rbtree_simps(2)[OF assms(1), of ?r] Cons by (simp add: sch)
    then show ?thesis using g er fr assms(2) Cons by (cases "cs_deadline (cf_task s t) \<le> clock 3") (simp_all add: set_next_def Let_def)
  qed
qed

theorem schedule_idle_cpu_witness:
  "\<exists>s0 s'. init_cpu_rqs list_rbtree 1 1 ex_cfs = Some s0 \<and> schedule list_rbtree (\<lambda>_. 5) 0 (create_all list_rbtree (\<lambda>_. 20) [(0, 10, 1, 0, 50)] s0) = Some s' \<and>
     rq_curr (cf_rqs s' ! 0) = 10 \<and> cs_state (cf_task s' 10) = CS_RUNNING"
proof -
  obtain s0 where s0: "init_cpu_rqs list_rbtree 1 1 ex_cfs = Some s0" by (simp add: init_cpu_rqs_def)
  define s where "s = create_all list_rbtree (\<lambda>_. 20) [(0, 10, 1, 0, 50)] s0"
  have s: "cf_rqs s = [\<lparr>rq_timeline = [10], rq_nr_running = 1, rq_cpu_load = 0, rq_cpu = 0, rq_curr = NULL, rq_min_vruntime = 0, rq_capacity = 1024\<rparr>]"
    "cs_group (cf_task s 10) = 50"
    using s0 by (auto simp: s_def init_cpu_rqs_def new_rq_def list_rbtree_def custom_create_task_def create_task_def find_idlest_cpu_def calc_cpu_load_def Let_def)
  have io: "rb_inorder list_rbtree (rq_timeline (cf_rqs s ! 0)) = [10]" by (simp add: s list_rbtree_def)
  have "case rb_inorder list_rbtree (rq_timeline (cf_rqs s ! 0)) of
      [] \<Rightarrow> schedule list_rbtree (\<lambda>_. 5) 0 s = None
    | t # ts \<Rightarrow> \<exists>s'. schedule list_rbtree (\<lambda>_. 5) 0 s = Some s' \<and> rq_curr (cf_rqs s' ! 0) = t \<and> cs_state (cf_task s' t) = CS_RUNNING \<and>
        cs_exec_start (cf_task s' t) = 5 \<and> rb_inorder list_rbtree (rq_timeline (cf_rqs s' ! 0)) = ts \<and>
        rq_nr_running (cf_rqs s' ! 0) = (if ts = [] then 0 else 1) \<and> (\<forall>u. u \<noteq> t \<longrightarrow> cf_task s' u = cf_task s u)"
    by (rule schedule_idle_cpu[OF list_rbtree_laws]) (simp_all add: io, simp_all add: s)
  then obtain s' where "schedule list_rbtree (\<lambda>_. 5) 0 s = Some s'" "rq_curr (cf_rqs s' ! 0) = 10" "cs_state (cf_task s' 10) = CS_RUNNING"
    unfolding io by auto
  with s0 show ?thesis unfolding s_def by blast
qed

end
