(* ===== verification/Kernel_Rbtree.thy ===== *)
theory Kernel_Rbtree
  imports Prelude "HOL-Library.Tree"
begin

text \<open>
  The red-black trees of the Linux kernel (\<^verbatim>\<open>linux/rbtree.h\<close>), as the modules of the repository that follow the links themselves see them: the
  links can be read, and the operations of the kernel are a parameter. What the modules rely on is the hypothesis \<open>link_tree_laws\<close>. A place
  for a new node is a node without a child on one side, or the root of an empty tree. \<open>rb_link_node\<close> puts a node there, that is next to its
  parent in the order of the tree; \<open>rb_insert_color\<close> rebalances and keeps the order; \<open>rb_erase\<close> takes a node out, and \<open>rb_next\<close> is the
  successor in the order. A structure and the node in it have the same address here.
\<close>

record 'r link_tree =
  RB_ROOT :: 'r
  rb_node :: "'r \<Rightarrow> addr"
  rb_left :: "'r \<Rightarrow> addr \<Rightarrow> addr"
  rb_right :: "'r \<Rightarrow> addr \<Rightarrow> addr"
  rb_link_node :: "addr \<Rightarrow> addr \<Rightarrow> bool \<Rightarrow> 'r \<Rightarrow> 'r"
  rb_insert_color :: "addr \<Rightarrow> 'r \<Rightarrow> 'r"
  rb_erase :: "addr \<Rightarrow> 'r \<Rightarrow> 'r"
  rb_next :: "addr \<Rightarrow> 'r \<Rightarrow> addr"

fun rb_linked :: "(addr \<Rightarrow> addr) \<Rightarrow> (addr \<Rightarrow> addr) \<Rightarrow> addr \<Rightarrow> addr tree \<Rightarrow> bool" where
  "rb_linked lft rgt n Leaf \<longleftrightarrow> n = NULL"
| "rb_linked lft rgt n (Node a x b) \<longleftrightarrow> n = x \<and> x \<noteq> NULL \<and> rb_linked lft rgt (lft x) a \<and> rb_linked lft rgt (rgt x) b"

definition tree_of :: "'r link_tree \<Rightarrow> 'r \<Rightarrow> addr tree \<Rightarrow> bool" where
  "tree_of T r t \<longleftrightarrow> rb_linked (rb_left T r) (rb_right T r) (rb_node T r) t \<and> distinct (inorder t)"

definition beside :: "addr \<Rightarrow> bool \<Rightarrow> addr \<Rightarrow> addr list \<Rightarrow> addr list" where
  "beside parent side node xs = concat (map (\<lambda>x. if x = parent then (if side then [node, x] else [x, node]) else [x]) xs)"

fun next_in :: "addr list \<Rightarrow> addr \<Rightarrow> addr" where
  "next_in (x # y # ys) a = (if x = a then y else next_in (y # ys) a)"
| "next_in _ a = NULL"

definition link_tree_laws :: "'r link_tree \<Rightarrow> bool" where
  "link_tree_laws T \<longleftrightarrow>
     tree_of T (RB_ROOT T) Leaf \<and>
     (\<forall>node r. node \<noteq> NULL \<longrightarrow> tree_of T r Leaf \<longrightarrow> (\<exists>t'. tree_of T (rb_link_node T node NULL False r) t' \<and> inorder t' = [node])) \<and>
     (\<forall>node parent side r t. node \<noteq> NULL \<longrightarrow> tree_of T r t \<longrightarrow> node \<notin> set_tree t \<longrightarrow> parent \<in> set_tree t \<longrightarrow>
        (if side then rb_left T r parent else rb_right T r parent) = NULL \<longrightarrow>
        (\<exists>t'. tree_of T (rb_link_node T node parent side r) t' \<and> inorder t' = beside parent side node (inorder t))) \<and>
     (\<forall>node r t. tree_of T r t \<longrightarrow> (\<exists>t'. tree_of T (rb_insert_color T node r) t' \<and> inorder t' = inorder t)) \<and>
     (\<forall>node r t. tree_of T r t \<longrightarrow> node \<in> set_tree t \<longrightarrow> (\<exists>t'. tree_of T (rb_erase T node r) t' \<and> inorder t' = remove1 node (inorder t))) \<and>
     (\<forall>node r t. tree_of T r t \<longrightarrow> node \<in> set_tree t \<longrightarrow> rb_next T node r = next_in (inorder t) node)"

section \<open>The search for a place\<close>

text \<open>The loop by which the modules search for the place of a new node with key \<open>d\<close>: the parent of the new node and whether it becomes the left
  child. \<open>key\<close>, \<open>lft\<close> and \<open>rgt\<close> are the memory of the nodes.\<close>

partial_function (option) rb_descend :: "(addr \<Rightarrow> u64) \<Rightarrow> (addr \<Rightarrow> addr) \<Rightarrow> (addr \<Rightarrow> addr) \<Rightarrow> u64 \<Rightarrow> addr \<Rightarrow> addr \<Rightarrow> bool \<Rightarrow> (addr \<times> bool) option" where
  "rb_descend key lft rgt d node parent side =
     (if node = NULL then Some (parent, side)
      else if d < key node then rb_descend key lft rgt d (lft node) node True
      else rb_descend key lft rgt d (rgt node) node False)"

declare rb_descend.simps [code]

lemma beside_simps [simp]:
  "beside p s node [] = []"
  "beside p s node (xs @ ys) = beside p s node xs @ beside p s node ys"
  "beside p s node (x # xs) = (if x = p then (if s then [node, x] else [x, node]) else [x]) @ beside p s node xs"
  by (simp_all add: beside_def)

lemma beside_other [simp]: "p \<notin> set xs \<Longrightarrow> beside p s node xs = xs"
  by (induction xs) auto

lemma rb_linked_NULL [simp]: "rb_linked lft rgt NULL t \<longleftrightarrow> t = Leaf"
  by (cases t) auto

text \<open>A list sorted by key with a new node behind those whose key is not greater.\<close>

definition key_insert :: "(addr \<Rightarrow> u64) \<Rightarrow> addr \<Rightarrow> addr list \<Rightarrow> addr list" where
  "key_insert key node xs = takeWhile (\<lambda>x. key x \<le> key node) xs @ node # dropWhile (\<lambda>x. key x \<le> key node) xs"

lemma key_insert_Nil [simp]: "key_insert key node [] = [node]"
  by (simp add: key_insert_def)

lemma key_insert_before: "key node < key x \<Longrightarrow> key_insert key node (xs @ x # ys) = key_insert key node xs @ x # ys"
  by (simp add: key_insert_def takeWhile_tail dropWhile_append3)

lemma key_insert_after:
  assumes "key x \<le> key node" "\<forall>y \<in> set xs. key y \<le> key x"
  shows "key_insert key node (xs @ x # ys) = xs @ x # key_insert key node ys"
proof -
  have "\<And>y. y \<in> set xs \<Longrightarrow> key y \<le> key node" using assms order.trans by blast
  with assms(1) show ?thesis by (simp add: key_insert_def takeWhile_append2 dropWhile_append2)
qed

lemma key_insert_sorted: "sorted (map key xs) \<Longrightarrow> sorted (map key (key_insert key node xs))"
proof (induction xs)
  case (Cons x xs)
  then show ?case
    by (auto simp: key_insert_def not_le dest: set_takeWhileD set_dropWhileD intro: order.trans less_imp_le)
qed (simp add: key_insert_def)

lemma rb_descend_spec:
  assumes "rb_linked lft rgt n t" "sorted (map key (inorder t))" "distinct (inorder t)"
  shows "\<exists>p s. rb_descend key lft rgt (key node) n parent side = Some (p, s) \<and>
    (if t = Leaf then p = parent \<and> s = side
     else p \<in> set_tree t \<and> (if s then lft p else rgt p) = NULL \<and> beside p s node (inorder t) = key_insert key node (inorder t))"
  using assms
proof (induction t arbitrary: n parent side)
  case Leaf
  then show ?case by (simp add: rb_descend.simps)
next
  case (Node a x b)
  from Node.prems have n: "n = x" "x \<noteq> NULL" "rb_linked lft rgt (lft x) a" "rb_linked lft rgt (rgt x) b" by auto
  from Node.prems(2) have so: "sorted (map key (inorder a))" "sorted (map key (inorder b))" "\<forall>y \<in> set (inorder a). key y \<le> key x"
    by (auto simp: sorted_append)
  from Node.prems(3) have di: "distinct (inorder a)" "distinct (inorder b)" "x \<notin> set_tree a" "x \<notin> set_tree b" "set_tree a \<inter> set_tree b = {}" by auto
  show ?case
  proof (cases "key node < key x")
    case True
    obtain p s where ps: "rb_descend key lft rgt (key node) (lft x) x True = Some (p, s)"
      "if a = Leaf then p = x \<and> s = True else p \<in> set_tree a \<and> (if s then lft p else rgt p) = NULL \<and> beside p s node (inorder a) = key_insert key node (inorder a)"
      using Node.IH(1)[OF n(3) so(1) di(1), of x True] by blast
    have "p \<noteq> x \<and> p \<notin> set_tree b" if "a \<noteq> Leaf" using ps(2) di that by auto
    with ps True n di show ?thesis
      by (subst rb_descend.simps) (auto simp: key_insert_before split: if_splits)
  next
    case False
    obtain p s where ps: "rb_descend key lft rgt (key node) (rgt x) x False = Some (p, s)"
      "if b = Leaf then p = x \<and> s = False else p \<in> set_tree b \<and> (if s then lft p else rgt p) = NULL \<and> beside p s node (inorder b) = key_insert key node (inorder b)"
      using Node.IH(2)[OF n(4) so(2) di(2), of x False] by blast
    have "p \<noteq> x \<and> p \<notin> set_tree a" if "b \<noteq> Leaf" using ps(2) di that by auto
    with ps False n di key_insert_after[of key x node "inorder a" "inorder b"] so(3) show ?thesis
      by (subst rb_descend.simps) (auto split: if_splits)
  qed
qed

text \<open>The search, the link and the rebalancing together.\<close>

lemma rb_add_spec:
  assumes T: "link_tree_laws T" and t: "tree_of T r t" and so: "sorted (map key (inorder t))" and node: "node \<noteq> NULL" "node \<notin> set_tree t"
  shows "\<exists>p s t'. rb_descend key (rb_left T r) (rb_right T r) (key node) (rb_node T r) NULL False = Some (p, s) \<and>
    tree_of T (rb_insert_color T node (rb_link_node T node p s r)) t' \<and> inorder t' = key_insert key node (inorder t)"
proof -
  have li: "rb_linked (rb_left T r) (rb_right T r) (rb_node T r) t" "distinct (inorder t)" using t by (simp_all add: tree_of_def)
  from rb_descend_spec[OF li(1) so li(2), of node NULL False] obtain p s where
    ps: "rb_descend key (rb_left T r) (rb_right T r) (key node) (rb_node T r) NULL False = Some (p, s)"
      "if t = Leaf then p = NULL \<and> s = False
       else p \<in> set_tree t \<and> (if s then rb_left T r p else rb_right T r p) = NULL \<and> beside p s node (inorder t) = key_insert key node (inorder t)"
    by blast
  have "\<exists>t1. tree_of T (rb_link_node T node p s r) t1 \<and> inorder t1 = key_insert key node (inorder t)"
  proof (cases "t = Leaf")
    case True
    with T t node(1) ps(2) show ?thesis by (simp add: link_tree_laws_def)
  next
    case False
    with ps(2) have "p \<in> set_tree t" "(if s then rb_left T r p else rb_right T r p) = NULL" "beside p s node (inorder t) = key_insert key node (inorder t)"
      by simp_all
    with T t node show ?thesis unfolding link_tree_laws_def by metis
  qed
  then obtain t1 where "tree_of T (rb_link_node T node p s r) t1" "inorder t1 = key_insert key node (inorder t)" by blast
  moreover from this(1) obtain t2 where "tree_of T (rb_insert_color T node (rb_link_node T node p s r)) t2" "inorder t2 = inorder t1"
    using T unfolding link_tree_laws_def by blast
  ultimately show ?thesis using ps(1) by auto
qed

lemma set_key_insert [simp]: "set (key_insert key node xs) = insert node (set xs)"
proof -
  have "set xs = set (takeWhile (\<lambda>x. key x \<le> key node) xs) \<union> set (dropWhile (\<lambda>x. key x \<le> key node) xs)"
    by (metis set_append takeWhile_dropWhile_id)
  then show ?thesis by (simp add: key_insert_def)
qed

section \<open>The laws can hold\<close>

text \<open>Trees that are lists: every node is the right child of the one before.\<close>

definition proper :: "addr list \<Rightarrow> bool" where
  "proper r \<longleftrightarrow> distinct r \<and> NULL \<notin> set r"

fun spine :: "addr list \<Rightarrow> addr tree" where
  "spine [] = Leaf"
| "spine (x # xs) = Node Leaf x (spine xs)"

definition spine_tree :: "addr list link_tree" where
  "spine_tree = \<lparr>RB_ROOT = [], rb_node = (\<lambda>r. if proper r \<and> r \<noteq> [] then hd r else NULL), rb_left = (\<lambda>_ _. NULL), rb_right = next_in,
     rb_link_node = (\<lambda>node parent side r. if parent = NULL then [node] else beside parent side node r), rb_insert_color = (\<lambda>_ r. r),
     rb_erase = remove1, rb_next = (\<lambda>node r. next_in r node)\<rparr>"

lemma inorder_spine [simp]: "inorder (spine r) = r"
  by (induction r) auto

lemma set_tree_spine [simp]: "set_tree (spine r) = set r"
  by (induction r) auto

lemma proper_simps [simp]: "proper []" "proper [x] \<longleftrightarrow> x \<noteq> NULL"
  by (simp_all add: proper_def)

lemma next_in_suffix: "distinct (xs @ y # ys) \<Longrightarrow> next_in (xs @ y # ys) y = (if ys = [] then NULL else hd ys)"
proof (induction xs rule: induct_list012)
  case 1
  show ?case by (cases ys) auto
next
  case (2 x)
  then show ?case by (cases ys) auto
qed auto

lemma rb_linked_spine: "distinct (xs @ ys) \<Longrightarrow> NULL \<notin> set ys \<Longrightarrow> rb_linked (\<lambda>_. NULL) (next_in (xs @ ys)) (if ys = [] then NULL else hd ys) (spine ys)"
proof (induction ys arbitrary: xs)
  case (Cons y ys)
  have "rb_linked (\<lambda>_. NULL) (next_in ((xs @ [y]) @ ys)) (if ys = [] then NULL else hd ys) (spine ys)" using Cons.prems by (intro Cons.IH) auto
  with Cons.prems next_in_suffix[OF Cons.prems(1)] show ?case by simp
qed simp

lemma rb_linked_unique: "rb_linked lft rgt n t \<Longrightarrow> rb_linked lft rgt n u \<Longrightarrow> t = u"
proof (induction t arbitrary: n u)
  case (Node a x b)
  then show ?case by (cases u) auto
qed simp

lemma tree_of_spine: "tree_of spine_tree r t \<longleftrightarrow> t = (if proper r then spine r else Leaf)"
proof (cases "proper r")
  case True
  then have "rb_linked (\<lambda>_. NULL) (next_in r) (if r = [] then NULL else hd r) (spine r)" using rb_linked_spine[of "[]" r] by (simp add: proper_def)
  with True show ?thesis using rb_linked_unique[of "\<lambda>_. NULL" "next_in r" "if r = [] then NULL else hd r"]
    by (auto simp: tree_of_def spine_tree_def proper_def)
next
  case False
  then show ?thesis by (auto simp: tree_of_def spine_tree_def)
qed

lemma beside_set: "set (beside p s node xs) \<subseteq> insert node (set xs)"
  by (induction xs) auto

lemma beside_distinct: "distinct xs \<Longrightarrow> node \<notin> set xs \<Longrightarrow> distinct (beside p s node xs)"
  by (induction xs) (auto dest: beside_set[THEN subsetD])

lemma spine_tree_laws: "link_tree_laws spine_tree"
proof -
  have "proper (beside p s node r)" if "proper r" "node \<noteq> NULL" "node \<notin> set r" for p s node r
    using that beside_set[of p s node r] beside_distinct[of r node p s] by (auto simp: proper_def)
  moreover have "proper (remove1 x r)" if "proper r" for x r
    using that by (auto simp: proper_def dest: notin_set_remove1)
  moreover have "NULL \<notin> set r" if "proper r" for r using that by (simp add: proper_def)
  ultimately show ?thesis
    unfolding link_tree_laws_def tree_of_spine by (auto simp: spine_tree_def split: if_splits)
qed

end
