(* ===== verification/Pi_Mutex.thy ===== *)
theory Pi_Mutex
  imports Kernel_List Kernel_Rbtree Linked_List
begin

text \<open>
  Model of \<open>scheduler_features.c\<close>: nested disabling of preemption, real-time and deadline tasks, and a mutex with priority inheritance. The
  file is written against the Linux kernel; of the kernel's task structure the model has the fields the file uses, and the lists of the
  kernel are the parameter \<open>K\<close>, its red-black trees the parameter \<open>T\<close> (\<open>link_tree_laws\<close>). A smaller priority number is a higher priority.

  Threads run at the same time. The sections of \<open>pi_mutex_lock\<close> under the spin lock of the mutex are one step each; the test of the owner
  in the waiting loop is made without the lock and is a step of its own. \<open>pi_mutex_unlock\<close> is two steps under the spin lock, since a task
  it wakes can make this test before the owner is cleared.
\<close>

section \<open>Preemption\<close>

record preempt_state =
  pr_count :: int
  pr_need_resched :: bool
  pr_scheduled :: nat

definition custom_preempt_disable :: "preempt_state \<Rightarrow> preempt_state" where
  "custom_preempt_disable s = s\<lparr>pr_count := pr_count s + 1\<rparr>"

text \<open>\<open>preempt_schedule\<close> is counted.\<close>

definition custom_preempt_enable :: "preempt_state \<Rightarrow> preempt_state" where
  "custom_preempt_enable s =
     (let s = s\<lparr>pr_count := pr_count s - 1\<rparr> in
      if pr_count s \<noteq> 0 then s
      else if pr_need_resched s then s\<lparr>pr_scheduled := pr_scheduled s + 1\<rparr> else s)"

section \<open>Tasks\<close>

datatype sched_class = Rt_Class | Dl_Class | Other_Class

datatype sched_policy = SCHED_FIFO | SCHED_DEADLINE | SCHED_OTHER

record task_struct =
  ts_class :: sched_class
  ts_policy :: sched_policy
  ts_rt_priority :: int
  ts_prio :: int
  ts_uninterruptible :: bool
  ts_blocked_on :: addr
  ts_dl_runtime :: u64

record 'l rt_task_struct =
  rt_task :: addr
  rt_task_priority :: int
  rt_deadline :: u64
  rt_run_list :: 'l

abbreviation (input) MAX_RT_PRIO :: int where "MAX_RT_PRIO \<equiv> 100"

type_synonym tasks = "addr \<Rightarrow> task_struct"

definition init_rt_task :: "('l, addr) kernel_list \<Rightarrow> 'l rt_task_struct \<Rightarrow> addr \<Rightarrow> int \<Rightarrow> tasks \<Rightarrow> int \<times> 'l rt_task_struct \<times> tasks" where
  "init_rt_task K rt task priority m =
     (if priority < 0 \<or> priority > MAX_RT_PRIO - 1 then (- 22, rt, m)
      else (0, rt\<lparr>rt_task := task, rt_task_priority := priority, rt_run_list := INIT_LIST_HEAD K\<rparr>,
            m(task := (m task)\<lparr>ts_class := Rt_Class, ts_policy := SCHED_FIFO, ts_rt_priority := priority\<rparr>)))"

record dl_task_struct =
  dl_task :: addr
  dl_deadline :: u64
  dl_runtime :: u64
  dl_period :: u64

definition init_dl_task :: "dl_task_struct \<Rightarrow> addr \<Rightarrow> u64 \<Rightarrow> u64 \<Rightarrow> u64 \<Rightarrow> tasks \<Rightarrow> int \<times> dl_task_struct \<times> tasks" where
  "init_dl_task dl task runtime deadline period m =
     (if runtime > deadline \<or> deadline > period then (- 22, dl, m)
      else (0, \<lparr>dl_task = task, dl_deadline = deadline, dl_runtime = runtime, dl_period = period\<rparr>,
            m(task := (m task)\<lparr>ts_class := Dl_Class, ts_policy := SCHED_DEADLINE\<rparr>)))"

definition deadline_tick :: "u64 \<Rightarrow> tasks \<Rightarrow> dl_task_struct \<Rightarrow> dl_task_struct" where
  "deadline_tick now m dl =
     (if now \<ge> dl_deadline dl \<and> ts_policy (m (dl_task dl)) = SCHED_DEADLINE
      then dl\<lparr>dl_deadline := dl_deadline dl + dl_period dl, dl_runtime := ts_dl_runtime (m (dl_task dl))\<rparr>
      else dl)"

text \<open>The insertion of a task into the tree of deadline tasks; the loop is \<open>rb_descend\<close>.\<close>

definition add_dl_task_to_rbtree :: "'r link_tree \<Rightarrow> (addr \<Rightarrow> dl_task_struct) \<Rightarrow> addr \<Rightarrow> 'r \<Rightarrow> 'r option" where
  "add_dl_task_to_rbtree T dl node root =
     Option.bind (rb_descend (\<lambda>x. dl_deadline (dl x)) (rb_left T root) (rb_right T root) (dl_deadline (dl node)) (rb_node T root) NULL False)
       (\<lambda>(parent, side). Some (rb_insert_color T node (rb_link_node T node parent side root)))"

section \<open>The mutex\<close>

record 'l pi_mutex =
  pi_owner :: addr
  pi_waiters :: 'l
  pi_orig_prio :: int

definition init_pi_mutex :: "('l, addr) kernel_list \<Rightarrow> 'l pi_mutex" where
  "init_pi_mutex K = \<lparr>pi_owner = NULL, pi_waiters = INIT_LIST_HEAD K, pi_orig_prio = - 1\<rparr>"

text \<open>The walk along the chain of owners; \<open>owner_of\<close> gives the owner of a mutex.\<close>

partial_function (option) propagate_priority_inheritance :: "(addr \<Rightarrow> addr) \<Rightarrow> addr \<Rightarrow> tasks \<Rightarrow> tasks option" where
  "propagate_priority_inheritance owner_of task m =
     (let mutex = ts_blocked_on (m task) in
      if mutex = NULL then Some m
      else
        let owner = owner_of mutex in
        if owner = NULL \<or> ts_prio (m owner) \<le> ts_prio (m task) then Some m
        else propagate_priority_inheritance owner_of owner (m(owner := (m owner)\<lparr>ts_prio := ts_prio (m task)\<rparr>)))"

text \<open>The first section of \<open>pi_mutex_lock\<close>: whether the mutex was taken.\<close>

definition pi_lock_section :: "('l, addr) kernel_list \<Rightarrow> (addr \<Rightarrow> addr) \<Rightarrow> addr \<Rightarrow> 'l pi_mutex \<Rightarrow> tasks \<Rightarrow> (bool \<times> 'l pi_mutex \<times> tasks) option" where
  "pi_lock_section K owner_of task x m =
     (if pi_owner x = NULL then Some (True, x\<lparr>pi_owner := task, pi_orig_prio := ts_prio (m task)\<rparr>, m)
      else
        let owner = pi_owner x; x = x\<lparr>pi_waiters := list_add_tail K task (pi_waiters x)\<rparr> in
        if ts_prio (m task) < ts_prio (m owner) then
          let m = m(owner := (m owner)\<lparr>ts_prio := ts_prio (m task)\<rparr>) in
          Option.bind (if ts_uninterruptible (m owner) then propagate_priority_inheritance owner_of owner m else Some m) (\<lambda>m.
            Some (False, x, m))
        else Some (False, x, m))"

text \<open>The part of \<open>pi_mutex_unlock\<close> before the owner is cleared: the caller's priority is restored, the first waiter taken off the list and
  woken.\<close>

definition pi_unlock_section :: "('l, addr) kernel_list \<Rightarrow> addr \<Rightarrow> 'l pi_mutex \<Rightarrow> tasks \<Rightarrow> 'l pi_mutex \<times> tasks" where
  "pi_unlock_section K task x m =
     (let m = m(task := (m task)\<lparr>ts_prio := pi_orig_prio x\<rparr>) in
      if \<not> list_empty K (pi_waiters x) then
        let nxt = list_first_entry K (pi_waiters x) in
        (x\<lparr>pi_waiters := list_del K nxt (pi_waiters x)\<rparr>, m(nxt := (m nxt)\<lparr>ts_uninterruptible := False\<rparr>))
      else (x, m))"

text \<open>Where a task is: outside, before the test of the waiting loop, in \<open>schedule\<close>, behind the loop (it has seen no owner), inside, and in
  \<open>pi_mutex_unlock\<close> before the owner is cleared. \<open>ps_held\<close> tells that the spin lock is held between two steps.\<close>

datatype pi_pc = PI_out | PI_wait | PI_sleep | PI_take | PI_in | PI_wake

record 'l pi_sys =
  ps_mutex :: "'l pi_mutex"
  ps_tasks :: tasks
  ps_pc :: "addr \<Rightarrow> pi_pc"
  ps_held :: bool

abbreviation at_pi :: "addr \<Rightarrow> pi_pc \<Rightarrow> 'l pi_mutex \<Rightarrow> tasks \<Rightarrow> 'l pi_sys \<Rightarrow> 'l pi_sys" where
  "at_pi t p x m s \<equiv> s\<lparr>ps_mutex := x, ps_tasks := m, ps_pc := (ps_pc s)(t := p)\<rparr>"

inductive pi_step :: "('l, addr) kernel_list \<Rightarrow> (addr \<Rightarrow> addr) \<Rightarrow> 'l pi_sys \<Rightarrow> addr \<Rightarrow> 'l pi_sys \<Rightarrow> bool" for K owner_of where
  pi_mutex_lock: "ps_pc s t = PI_out \<Longrightarrow> t \<noteq> NULL \<Longrightarrow> \<not> ps_held s \<Longrightarrow>
    pi_lock_section K owner_of t (ps_mutex s) (ps_tasks s) = Some (got, x, m) \<Longrightarrow>
    pi_step K owner_of s t (at_pi t (if got then PI_in else PI_wait) x m s)"
| pi_wait: "ps_pc s t = PI_wait \<Longrightarrow>
    pi_step K owner_of s t (at_pi t (if pi_owner (ps_mutex s) = NULL then PI_take else PI_sleep) (ps_mutex s)
      ((ps_tasks s)(t := (ps_tasks s t)\<lparr>ts_uninterruptible := True\<rparr>)) s)"
| pi_woken: "ps_pc s t = PI_sleep \<Longrightarrow> \<not> ts_uninterruptible (ps_tasks s t) \<Longrightarrow>
    pi_step K owner_of s t (at_pi t PI_wait (ps_mutex s) (ps_tasks s) s)"
| pi_take: "ps_pc s t = PI_take \<Longrightarrow> \<not> ps_held s \<Longrightarrow>
    pi_step K owner_of s t (at_pi t PI_in ((ps_mutex s)\<lparr>pi_owner := t\<rparr>) (ps_tasks s) s)"
| pi_unlock_wake: "ps_pc s t = PI_in \<Longrightarrow> \<not> ps_held s \<Longrightarrow> pi_unlock_section K t (ps_mutex s) (ps_tasks s) = (x, m) \<Longrightarrow>
    pi_step K owner_of s t ((at_pi t PI_wake x m s)\<lparr>ps_held := True\<rparr>)"
| pi_unlock_done: "ps_pc s t = PI_wake \<Longrightarrow>
    pi_step K owner_of s t ((at_pi t PI_out ((ps_mutex s)\<lparr>pi_owner := NULL\<rparr>) (ps_tasks s) s)\<lparr>ps_held := False\<rparr>)"

declare propagate_priority_inheritance.simps [code]

end
