(* ===== verification/Pi_Mutex_Spec.thy ===== *)
theory Pi_Mutex_Spec
  imports Pi_Mutex
begin

text \<open>
  Properties of \<^verbatim>\<open>scheduler_features.c\<close>: the tree of deadline tasks is sorted by deadline, priorities propagate along chains of owners, nested
  sections without preemption; the mutex can have two owners and lose a wake-up.
\<close>

section \<open>Earliest deadline first\<close>

text \<open>C29: \<open>add_dl_task_to_rbtree\<close> ends and keeps the tree in the order of deadlines: the new task comes behind all tasks whose deadline is not later,
  and nothing else changes, so that the first task of the tree is always one with the earliest deadline.\<close>

theorem add_dl_task_correct:
  assumes T: "link_tree_laws T" and "tree_of T root t" "sorted (map (\<lambda>x. dl_deadline (dl x)) (inorder t))" "node \<noteq> NULL" "node \<notin> set_tree t"
  shows "\<exists>root' t'. add_dl_task_to_rbtree T dl node root = Some root' \<and> tree_of T root' t' \<and>
    inorder t' = key_insert (\<lambda>x. dl_deadline (dl x)) node (inorder t) \<and> sorted (map (\<lambda>x. dl_deadline (dl x)) (inorder t'))"
proof -
  obtain p s t' where "rb_descend (\<lambda>x. dl_deadline (dl x)) (rb_left T root) (rb_right T root) (dl_deadline (dl node)) (rb_node T root) NULL False = Some (p, s)"
      "tree_of T (rb_insert_color T node (rb_link_node T node p s root)) t'" "inorder t' = key_insert (\<lambda>x. dl_deadline (dl x)) node (inorder t)"
    using rb_add_spec[OF T assms(2-5)] by blast
  then show ?thesis using key_insert_sorted[OF assms(3)]
    by (intro exI[of _ "rb_insert_color T node (rb_link_node T node p s root)"] exI[of _ t']) (simp add: add_dl_task_to_rbtree_def)
qed

definition ex_dl :: "addr \<Rightarrow> dl_task_struct" where
  "ex_dl x = \<lparr>dl_task = x, dl_deadline = (if x = 3 then 10 else if x = 5 then 30 else 20), dl_runtime = 1, dl_period = 100\<rparr>"

theorem add_dl_task_correct_witness:
  "\<exists>root' t'. add_dl_task_to_rbtree spine_tree ex_dl 7 [3, 5] = Some root' \<and> tree_of spine_tree root' t' \<and> inorder t' = [3, 7, 5]"
proof -
  have "tree_of spine_tree [3, 5] (spine [3, 5])" by (simp add: tree_of_spine proper_def)
  from add_dl_task_correct[OF spine_tree_laws this, of ex_dl 7] show ?thesis by (auto simp: ex_dl_def key_insert_def)
qed

section \<open>Preemption\<close>

text \<open>Nested sections: \<open>n\<close> times disabled and enabled, preemption is as before, and the scheduler is called once at the outermost end if it is
  needed and preemption had been enabled.\<close>

lemma preempt_disable_n: "(custom_preempt_disable ^^ n) s = s\<lparr>pr_count := pr_count s + int n\<rparr>"
  by (induction n) (simp_all add: custom_preempt_disable_def)

lemma preempt_enable_n:
  "pr_count s = c + int n \<Longrightarrow> 0 \<le> c \<Longrightarrow> 0 < n \<Longrightarrow>
   (custom_preempt_enable ^^ n) s = s\<lparr>pr_count := c, pr_scheduled := pr_scheduled s + (if c = 0 \<and> pr_need_resched s then 1 else 0)\<rparr>"
proof (induction n arbitrary: s)
  case (Suc n)
  show ?case
  proof (cases "n = 0")
    case True
    with Suc.prems show ?thesis by (auto simp: custom_preempt_enable_def Let_def)
  next
    case False
    have "custom_preempt_enable s = s\<lparr>pr_count := c + int n\<rparr>" using Suc.prems False by (simp add: custom_preempt_enable_def Let_def)
    with Suc.IH[of "s\<lparr>pr_count := c + int n\<rparr>"] Suc.prems False show ?thesis by (simp add: funpow_Suc_right del: funpow.simps)
  qed
qed simp

lemma preempt_nesting:
  "0 \<le> pr_count s \<Longrightarrow> 0 < n \<Longrightarrow> (custom_preempt_enable ^^ n) ((custom_preempt_disable ^^ n) s) =
     s\<lparr>pr_scheduled := pr_scheduled s + (if pr_count s = 0 \<and> pr_need_resched s then 1 else 0)\<rparr>"
  using preempt_enable_n[of "s\<lparr>pr_count := pr_count s + int n\<rparr>" "pr_count s" n] by (simp add: preempt_disable_n)

lemma init_dl_task_ordered:
  "init_dl_task dl task runtime deadline period m = (0, dl', m') \<Longrightarrow> dl_runtime dl' \<le> dl_deadline dl' \<and> dl_deadline dl' \<le> dl_period dl'"
  by (auto simp: init_dl_task_def split: if_splits)

section \<open>Propagation\<close>

definition next_owner :: "(addr \<Rightarrow> addr) \<Rightarrow> tasks \<Rightarrow> addr \<Rightarrow> addr" where
  "next_owner owner_of m t = (if ts_blocked_on (m t) = NULL then NULL else owner_of (ts_blocked_on (m t)))"

text \<open>Along a chain of owners, the priority reaches those before the first whose priority is at least as high.\<close>

definition boost :: "int \<Rightarrow> addr list \<Rightarrow> tasks \<Rightarrow> tasks" where
  "boost p os m = (\<lambda>t. if t \<in> set (takeWhile (\<lambda>w. p < ts_prio (m w)) os) then (m t)\<lparr>ts_prio := p\<rparr> else m t)"

lemma propagate_spec:
  "chain (next_owner owner_of m) task (task # os) \<Longrightarrow>
   propagate_priority_inheritance owner_of task m = Some (boost (ts_prio (m task)) os m)"
proof (induction os arbitrary: task m)
  case Nil
  then have "next_owner owner_of m task = NULL" by simp
  then show ?case by (subst propagate_priority_inheritance.simps) (auto simp: next_owner_def boost_def Let_def split: if_splits)
next
  case (Cons x os)
  let ?p = "ts_prio (m task)"
  have x: "next_owner owner_of m task = x" "x \<noteq> NULL" "chain (next_owner owner_of m) x (x # os)" using Cons.prems by auto
  then have b: "ts_blocked_on (m task) \<noteq> NULL" "owner_of (ts_blocked_on (m task)) = x" by (auto simp: next_owner_def split: if_splits)
  show ?case
  proof (cases "ts_prio (m x) \<le> ?p")
    case True
    then show ?thesis by (subst propagate_priority_inheritance.simps) (simp add: b x boost_def Let_def fun_eq_iff)
  next
    case False
    define m1 where "m1 = m(x := (m x)\<lparr>ts_prio := ?p\<rparr>)"
    have xo: "x \<notin> set os" using chain_distinct[OF x(3)] by simp
    have no: "next_owner owner_of m1 = next_owner owner_of m" by (rule ext) (simp add: next_owner_def m1_def)
    have "propagate_priority_inheritance owner_of task m = propagate_priority_inheritance owner_of x m1"
      using False by (subst propagate_priority_inheritance.simps) (simp add: b x m1_def Let_def)
    also have "\<dots> = Some (boost (ts_prio (m1 x)) os m1)" using x(3) by (intro Cons.IH) (simp add: no)
    also have "boost (ts_prio (m1 x)) os m1 = boost ?p (x # os) m"
    proof -
      have tw: "takeWhile (\<lambda>w. ?p < ts_prio (m1 w)) os = takeWhile (\<lambda>w. ?p < ts_prio (m w)) os"
        using xo by (intro takeWhile_cong) (auto simp: m1_def)
      have px: "ts_prio (m1 x) = ?p" by (simp add: m1_def)
      have "x \<notin> set (takeWhile (\<lambda>w. ?p < ts_prio (m w)) os)" using xo by (auto dest: set_takeWhileD)
      then show ?thesis unfolding boost_def px tw using False by (auto simp: fun_eq_iff m1_def)
    qed
    finally show ?thesis .
  qed
qed

section \<open>Properties\<close>

text \<open>The priority of a task that blocks on an owner is propagated along the chain of owners, up to the first that has at least this priority;
  the walk ends and changes nothing else.\<close>

theorem propagate_correct:
  assumes "chain (next_owner owner_of m) task (task # os)"
  shows "\<exists>m'. propagate_priority_inheritance owner_of task m = Some m' \<and>
    (\<forall>t. m' t = (if t \<in> set (takeWhile (\<lambda>w. ts_prio (m task) < ts_prio (m w)) os) then (m t)\<lparr>ts_prio := ts_prio (m task)\<rparr> else m t))"
  using propagate_spec[OF assms] by (auto simp: boost_def)

definition ex_ts :: "int \<Rightarrow> addr \<Rightarrow> task_struct" where
  "ex_ts p b = \<lparr>ts_class = Other_Class, ts_policy = SCHED_OTHER, ts_rt_priority = 0, ts_prio = p, ts_uninterruptible = False, ts_blocked_on = b, ts_dl_runtime = 0\<rparr>"

theorem propagate_correct_witness:
  "\<exists>m'. propagate_priority_inheritance (\<lambda>x. x - 100) 1 (\<lambda>t. if t = 1 then ex_ts 5 102 else if t = 2 then ex_ts 9 103 else ex_ts 3 0) = Some m' \<and>
     ts_prio (m' 2) = 5 \<and> ts_prio (m' 3) = 3"
proof -
  let ?m = "\<lambda>t. if t = 1 then ex_ts 5 102 else if t = 2 then ex_ts 9 103 else ex_ts 3 0"
  have "chain (next_owner (\<lambda>x. x - 100) ?m) 1 (1 # [2, 3])" by (simp add: next_owner_def ex_ts_def)
  from propagate_correct[OF this] show ?thesis by (auto simp: ex_ts_def)
qed

section \<open>Two owners\<close>

lemma pi_lock_free: "pi_owner x = NULL \<Longrightarrow> pi_lock_section K owner_of t x m = Some (True, x\<lparr>pi_owner := t, pi_orig_prio := ts_prio (m t)\<rparr>, m)"
  by (simp add: pi_lock_section_def)

lemma pi_lock_taken:
  assumes "pi_owner x \<noteq> NULL" "\<not> ts_uninterruptible (m (pi_owner x))"
  shows "\<exists>x' m'. pi_lock_section K owner_of t x m = Some (False, x', m') \<and> pi_owner x' = pi_owner x \<and> pi_orig_prio x' = pi_orig_prio x \<and>
    pi_waiters x' = list_add_tail K t (pi_waiters x) \<and> (\<forall>u. ts_uninterruptible (m' u) = ts_uninterruptible (m u))"
  using assms by (auto simp: pi_lock_section_def Let_def)

lemma pi_unlock_section_keeps:
  "pi_unlock_section K t x m = (x', m') \<Longrightarrow> pi_owner x' = pi_owner x \<and> pi_orig_prio x' = pi_orig_prio x \<and> ts_prio (m' t) = pi_orig_prio x"
  by (auto simp: pi_unlock_section_def Let_def split: if_splits)

lemmas pi_cons = steps_Cons[where step = "pi_step K owner_of" for K owner_of]

lemma pi_trans: "steps (pi_step K owner_of) s ts s' \<Longrightarrow> steps (pi_step K owner_of) s' us s'' \<Longrightarrow> steps (pi_step K owner_of) s (ts @ us) s''"
  unfolding steps_append by blast

text \<open>The two steps of an unlock.\<close>

lemma pi_unlock_steps:
  assumes "ps_pc s t = PI_in" "\<not> ps_held s"
  shows "\<exists>x m. steps (pi_step K owner_of) s [t, t] (at_pi t PI_out x m s) \<and> pi_owner x = NULL \<and> pi_orig_prio x = pi_orig_prio (ps_mutex s) \<and>
    ts_prio (m t) = pi_orig_prio (ps_mutex s)"
proof -
  obtain x m where ul: "pi_unlock_section K t (ps_mutex s) (ps_tasks s) = (x, m)" by fastforce
  let ?s1 = "(at_pi t PI_wake x m s)\<lparr>ps_held := True\<rparr>"
  have 1: "pi_step K owner_of s t ?s1" using assms ul by (rule pi_unlock_wake)
  have "pi_step K owner_of ?s1 t ((at_pi t PI_out ((ps_mutex ?s1)\<lparr>pi_owner := NULL\<rparr>) (ps_tasks ?s1) ?s1)\<lparr>ps_held := False\<rparr>)"
    by (rule pi_unlock_done) simp
  also have "(at_pi t PI_out ((ps_mutex ?s1)\<lparr>pi_owner := NULL\<rparr>) (ps_tasks ?s1) ?s1)\<lparr>ps_held := False\<rparr> = at_pi t PI_out (x\<lparr>pi_owner := NULL\<rparr>) m s"
    using assms(2) by simp
  finally have "steps (pi_step K owner_of) s [t, t] (at_pi t PI_out (x\<lparr>pi_owner := NULL\<rparr>) m s)" using 1 by (iprover intro: steps_Cons steps_Nil)
  with pi_unlock_section_keeps[OF ul] show ?thesis by (intro exI[of _ "x\<lparr>pi_owner := NULL\<rparr>"] exI[of _ m]) simp
qed

text \<open>The run: \<open>t\<close> takes the mutex, \<open>u\<close> and \<open>v\<close> queue up, \<open>t\<close> gives it back; \<open>u\<close> and \<open>v\<close> see that there is no owner.\<close>

lemma pi_first_waits:
  assumes "t \<noteq> u" "NULL \<notin> {t, u}" "\<forall>w. ps_pc s w = PI_out" "pi_owner (ps_mutex s) = NULL" "\<not> ps_held s"
    and "\<not> ts_uninterruptible (ps_tasks s t)"
  shows "\<exists>x m s'. s' = s\<lparr>ps_mutex := x, ps_tasks := m, ps_pc := (ps_pc s)(t := PI_in, u := PI_wait)\<rparr> \<and> steps (pi_step K owner_of) s [t, u] s' \<and>
    pi_owner x = t \<and> pi_orig_prio x = ts_prio (ps_tasks s t) \<and> pi_waiters x = list_add_tail K u (pi_waiters (ps_mutex s)) \<and>
    (\<forall>w. ts_uninterruptible (m w) = ts_uninterruptible (ps_tasks s w))"
proof -
  let ?x0 = "(ps_mutex s)\<lparr>pi_owner := t, pi_orig_prio := ts_prio (ps_tasks s t)\<rparr>"
  let ?s1 = "at_pi t PI_in ?x0 (ps_tasks s) s"
  have 1: "pi_step K owner_of s t ?s1"
    using assms pi_mutex_lock[of s t K owner_of True ?x0 "ps_tasks s"] pi_lock_free[of "ps_mutex s" K owner_of t "ps_tasks s"] by simp
  obtain x m where l: "pi_lock_section K owner_of u ?x0 (ps_tasks s) = Some (False, x, m)" "pi_owner x = t" "pi_orig_prio x = ts_prio (ps_tasks s t)"
      "pi_waiters x = list_add_tail K u (pi_waiters (ps_mutex s))" "\<forall>w. ts_uninterruptible (m w) = ts_uninterruptible (ps_tasks s w)"
    using pi_lock_taken[of ?x0 "ps_tasks s" K owner_of u] assms(2,6) by auto
  have "pi_step K owner_of ?s1 u (at_pi u PI_wait x m ?s1)" using assms pi_mutex_lock[of ?s1 u K owner_of False x m] l(1) by simp
  with 1 have "steps (pi_step K owner_of) s [t, u] (at_pi u PI_wait x m ?s1)" by (iprover intro: steps_Cons steps_Nil)
  with l(2-) show ?thesis by (intro exI[of _ x] exI[of _ m]) auto
qed

lemma pi_two_takers:
  assumes "distinct [t, u, v]" "NULL \<notin> {t, u, v}" "\<forall>w. ps_pc s w = PI_out" "pi_owner (ps_mutex s) = NULL" "\<not> ps_held s"
    and "\<not> ts_uninterruptible (ps_tasks s t)"
  shows "\<exists>ts s'. steps (pi_step K owner_of) s ts s' \<and> ps_pc s' u = PI_take \<and> ps_pc s' v = PI_take \<and> \<not> ps_held s' \<and>
    pi_orig_prio (ps_mutex s') = ts_prio (ps_tasks s t)"
proof -
  obtain x1 m1 s2 where s2: "s2 = s\<lparr>ps_mutex := x1, ps_tasks := m1, ps_pc := (ps_pc s)(t := PI_in, u := PI_wait)\<rparr>" "steps (pi_step K owner_of) s [t, u] s2"
    "pi_owner x1 = t" "pi_orig_prio x1 = ts_prio (ps_tasks s t)" "\<forall>w. ts_uninterruptible (m1 w) = ts_uninterruptible (ps_tasks s w)"
    using pi_first_waits[of t u s K owner_of] assms by auto
  obtain x2 m2 where l2: "pi_lock_section K owner_of v x1 m1 = Some (False, x2, m2)" "pi_orig_prio x2 = ts_prio (ps_tasks s t)"
    using pi_lock_taken[of x1 m1 K owner_of v] s2(3-5) assms(2,6) by auto
  let ?s3 = "at_pi v PI_wait x2 m2 s2"
  have 3: "pi_step K owner_of s2 v ?s3" using assms(1-3,5) pi_mutex_lock[of s2 v K owner_of False x2 m2] l2(1) by (simp add: s2(1))
  obtain x3 m3 where ul: "steps (pi_step K owner_of) ?s3 [t, t] (at_pi t PI_out x3 m3 ?s3)" "pi_owner x3 = NULL" "pi_orig_prio x3 = ts_prio (ps_tasks s t)"
    using pi_unlock_steps[of ?s3 t K owner_of] assms(1,5) l2(2) by (auto simp: s2(1))
  let ?s4 = "at_pi t PI_out x3 m3 ?s3"
  let ?s5 = "at_pi u PI_take x3 (m3(u := (m3 u)\<lparr>ts_uninterruptible := True\<rparr>)) ?s4"
  have 5: "pi_step K owner_of ?s4 u ?s5" using assms(1) pi_wait[of ?s4 u K owner_of] ul(2) by (simp add: s2(1))
  let ?s6 = "at_pi v PI_take x3 ((ps_tasks ?s5)(v := (ps_tasks ?s5 v)\<lparr>ts_uninterruptible := True\<rparr>)) ?s5"
  have 6: "pi_step K owner_of ?s5 v ?s6" using assms(1) pi_wait[of ?s5 v K owner_of] ul(2) by simp
  have "steps (pi_step K owner_of) ?s4 [u, v] ?s6" by (rule pi_cons[OF 5 pi_cons[OF 6 steps_Nil]])
  then have "steps (pi_step K owner_of) s ([t, u] @ v # [t, t] @ [u, v]) ?s6" by (rule pi_trans[OF s2(2) pi_cons[OF 3 pi_trans[OF ul(1)]]])
  moreover have "ps_pc ?s6 u = PI_take" "ps_pc ?s6 v = PI_take" "\<not> ps_held ?s6" "pi_orig_prio (ps_mutex ?s6) = ts_prio (ps_tasks s t)"
    using assms(1,5) ul(3) by (auto simp: s2(1))
  ultimately show ?thesis by blast
qed

text \<open>A lost wake-up: \<open>pi_mutex_unlock\<close> wakes the waiter before it clears the owner. A waiter that tests the owner in between goes to sleep
  again, and is on no list any more: the mutex is free, and the waiter can take no step.\<close>

theorem pi_lost_wakeup:
  assumes K: "kernel_list_laws K" and "t \<noteq> u" "NULL \<notin> {t, u}" "\<forall>w. ps_pc s w = PI_out" "ps_mutex s = init_pi_mutex K" "\<not> ps_held s"
    and "\<not> ts_uninterruptible (ps_tasks s t)"
  shows "\<exists>s'. steps (pi_step K owner_of) s [t, u, u, t, u, u, t] s' \<and> pi_owner (ps_mutex s') = NULL \<and> kl_elems K (pi_waiters (ps_mutex s')) = [] \<and>
    ps_pc s' u = PI_sleep \<and> (\<nexists>s''. pi_step K owner_of s' u s'')"
proof -
  have "pi_owner (ps_mutex s) = NULL" by (simp add: assms(5) init_pi_mutex_def)
  from pi_first_waits[OF assms(2-4) this assms(6,7), of K owner_of, unfolded assms(5) init_pi_mutex_def pi_mutex.select_convs]
  obtain x1 m1 s2 where s2: "s2 = s\<lparr>ps_mutex := x1, ps_tasks := m1, ps_pc := (ps_pc s)(t := PI_in, u := PI_wait)\<rparr>"
    "steps (pi_step K owner_of) s [t, u] s2" "pi_owner x1 = t" "pi_waiters x1 = list_add_tail K u (INIT_LIST_HEAD K)" by blast
  have ws: "kl_elems K (pi_waiters x1) = [u]" using kernel_list_simps[OF K] by (simp add: s2(4))
  let ?s3 = "at_pi u PI_sleep x1 (m1(u := (m1 u)\<lparr>ts_uninterruptible := True\<rparr>)) s2"
  have 3: "pi_step K owner_of s2 u ?s3" using assms(2,3) pi_wait[of s2 u K owner_of] s2(3) by (simp add: s2(1))
  obtain x4 m4 where ul: "pi_unlock_section K t (ps_mutex ?s3) (ps_tasks ?s3) = (x4, m4)" by fastforce
  have x4: "pi_owner x4 = t" "kl_elems K (pi_waiters x4) = []" "\<not> ts_uninterruptible (m4 u)"
    using ul s2(3) ws kernel_list_simps(3-5)[OF K] by (auto simp: pi_unlock_section_def Let_def)
  let ?s4 = "(at_pi t PI_wake x4 m4 ?s3)\<lparr>ps_held := True\<rparr>"
  have 4: "pi_step K owner_of ?s3 t ?s4" using ul assms(2,6) by (intro pi_unlock_wake) (simp_all add: s2(1))
  let ?s5 = "at_pi u PI_wait x4 m4 ?s4"
  have 5: "pi_step K owner_of ?s4 u ?s5" using pi_woken[of ?s4 u K owner_of] x4(3) assms(2) by simp
  let ?s6 = "at_pi u PI_sleep x4 (m4(u := (m4 u)\<lparr>ts_uninterruptible := True\<rparr>)) ?s5"
  have 6: "pi_step K owner_of ?s5 u ?s6" using pi_wait[of ?s5 u K owner_of] x4(1) assms(2,3) by simp
  let ?s7 = "(at_pi t PI_out (x4\<lparr>pi_owner := NULL\<rparr>) (ps_tasks ?s6) ?s6)\<lparr>ps_held := False\<rparr>"
  have 7: "pi_step K owner_of ?s6 t ?s7" using pi_unlock_done[of ?s6 t K owner_of] assms(2) by simp
  have "steps (pi_step K owner_of) s2 [u, t, u, u, t] ?s7" by (rule pi_cons[OF 3 pi_cons[OF 4 pi_cons[OF 5 pi_cons[OF 6 pi_cons[OF 7 steps_Nil]]]]])
  then have "steps (pi_step K owner_of) s ([t, u] @ [u, t, u, u, t]) ?s7" by (rule pi_trans[OF s2(2)])
  moreover have "\<nexists>s''. pi_step K owner_of ?s7 u s''" using assms(2) by (auto elim!: pi_step.cases)
  ultimately show ?thesis using x4(2) assms(2) by (intro exI[of _ ?s7]) simp
qed

text \<open>The mutex does not exclude: two tasks that wait while a third gives it back can both get it, because they test the owner without
  the lock and do not test it again. The first of them to give it back also gets the priority of the task that had it first.\<close>

theorem pi_mutex_not_exclusive:
  assumes "distinct [t, u, v]" "NULL \<notin> {t, u, v}" "\<forall>w. ps_pc s w = PI_out" "ps_mutex s = init_pi_mutex K" "\<not> ps_held s"
    and "\<not> ts_uninterruptible (ps_tasks s t)"
  shows "(\<exists>ts s'. steps (pi_step K owner_of) s ts s' \<and> ps_pc s' u = PI_in \<and> ps_pc s' v = PI_in) \<and>
    (\<exists>ts s'. steps (pi_step K owner_of) s ts s' \<and> ps_pc s' u = PI_out \<and> ts_prio (ps_tasks s' u) = ts_prio (ps_tasks s t))"
proof
  have free: "pi_owner (ps_mutex s) = NULL" using assms(4) by (simp add: init_pi_mutex_def)
  from pi_two_takers[OF assms(1-3) free assms(5,6)] obtain ts s6 where s6: "steps (pi_step K owner_of) s ts s6"
    "ps_pc s6 u = PI_take" "ps_pc s6 v = PI_take" "\<not> ps_held s6" "pi_orig_prio (ps_mutex s6) = ts_prio (ps_tasks s t)" by blast
  let ?s7 = "at_pi u PI_in ((ps_mutex s6)\<lparr>pi_owner := u\<rparr>) (ps_tasks s6) s6"
  have 7: "pi_step K owner_of s6 u ?s7" using pi_take[OF s6(2,4)] .
  let ?s8 = "at_pi v PI_in ((ps_mutex ?s7)\<lparr>pi_owner := v\<rparr>) (ps_tasks ?s7) ?s7"
  have "pi_step K owner_of ?s7 v ?s8" using assms(1) s6(3,4) by (intro pi_take) simp_all
  with 7 s6(1) have "steps (pi_step K owner_of) s (ts @ [u, v]) ?s8" by (iprover intro: pi_trans steps_Cons steps_Nil)
  moreover have "ps_pc ?s8 u = PI_in" "ps_pc ?s8 v = PI_in" using assms(1) by auto
  ultimately show "\<exists>ts s'. steps (pi_step K owner_of) s ts s' \<and> ps_pc s' u = PI_in \<and> ps_pc s' v = PI_in" by blast
  obtain x m where ul: "steps (pi_step K owner_of) ?s7 [u, u] (at_pi u PI_out x m ?s7)" "ts_prio (m u) = ts_prio (ps_tasks s t)"
    using pi_unlock_steps[of ?s7 u K owner_of] s6(4,5) by auto
  from 7 ul(1) have "steps (pi_step K owner_of) s6 (u # [u, u]) (at_pi u PI_out x m ?s7)" by (rule steps_Cons)
  with s6(1) have "steps (pi_step K owner_of) s (ts @ u # [u, u]) (at_pi u PI_out x m ?s7)" by (rule pi_trans)
  with ul(2) show "\<exists>ts s'. steps (pi_step K owner_of) s ts s' \<and> ps_pc s' u = PI_out \<and> ts_prio (ps_tasks s' u) = ts_prio (ps_tasks s t)"
    by (intro exI[of _ "ts @ u # [u, u]"] exI[of _ "at_pi u PI_out x m ?s7"]) simp
qed

theorem pi_mutex_not_exclusive_witness:
  "\<exists>ts s'. steps (pi_step hol_list (\<lambda>x. x)) \<lparr>ps_mutex = init_pi_mutex hol_list, ps_tasks = (\<lambda>_. ex_ts 5 0), ps_pc = (\<lambda>_. PI_out), ps_held = False\<rparr> ts s' \<and>
     ps_pc s' 2 = PI_in \<and> ps_pc s' 3 = PI_in"
  by (rule pi_mutex_not_exclusive[of 1 2 3, THEN conjunct1]) (simp_all add: ex_ts_def)

end
