(* ===== verification/Bandwidth.thy ===== *)
theory Bandwidth
  imports Kernel_List "HOL-Library.Signed_Division"
begin

text \<open>
  Model of \<open>task_scheduler_advanced.c\<close>: bandwidth control of groups of tasks, groups, load balancing between domains, preemption. The file is
  written against the Linux kernel, whose lists are the parameter \<open>K\<close>; readings of the clock and results of the allocator are arguments.
  \<open>None\<close> is a division by zero, the use of a task without a group, or a thread that waits for a lock it holds. Fields no function of the file
  uses are left out.
\<close>

section \<open>Bandwidth control\<close>

record bandwidth_control =
  bw_period :: u64
  bw_quota :: u64
  bw_runtime :: u64
  bw_deadline :: u64
  bw_flags :: u32
  bw_total_runtime :: u64
  bw_nr_throttled :: u64

abbreviation (input) GROUP_MIN_PERIOD :: u64 where "GROUP_MIN_PERIOD \<equiv> 1000000"
abbreviation (input) GROUP_MAX_PERIOD :: u64 where "GROUP_MAX_PERIOD \<equiv> 1000000000"
abbreviation (input) GROUP_THROTTLED :: u32 where "GROUP_THROTTLED \<equiv> 1"
abbreviation (input) MIGRATION_COST :: u64 where "MIGRATION_COST \<equiv> 1000000"
abbreviation (input) PREEMPTION_GRANULARITY :: u64 where "PREEMPTION_GRANULARITY \<equiv> 100000"
abbreviation (input) LOAD_IMBALANCE_PCT :: u64 where "LOAD_IMBALANCE_PCT \<equiv> 125"

text \<open>\<open>None\<close> as the first argument is the null pointer.\<close>

definition init_bandwidth_control :: "u64 \<Rightarrow> bandwidth_control option \<Rightarrow> u64 \<Rightarrow> u64 \<Rightarrow> int \<times> bandwidth_control option" where
  "init_bandwidth_control now bw period quota =
     (if bw = None \<or> period < GROUP_MIN_PERIOD \<or> period > GROUP_MAX_PERIOD then (- 22, bw)
      else if quota > period \<or> quota < period * 1 div 100 then (- 22, bw)
      else (0, Some \<lparr>bw_period = period, bw_quota = quota, bw_runtime = 0, bw_deadline = now + period, bw_flags = 0,
                     bw_total_runtime = 0, bw_nr_throttled = 0\<rparr>))"

text \<open>The start of a new period, common to the next two functions.\<close>

definition new_period :: "u64 \<Rightarrow> bandwidth_control \<Rightarrow> bandwidth_control" where
  "new_period now bw =
     (if now \<ge> bw_deadline bw
      then bw\<lparr>bw_runtime := 0, bw_deadline := now + bw_period bw, bw_flags := bw_flags bw AND NOT GROUP_THROTTLED\<rparr>
      else bw)"

definition update_bandwidth_usage :: "u64 \<Rightarrow> u64 \<Rightarrow> bandwidth_control \<Rightarrow> bandwidth_control" where
  "update_bandwidth_usage now runtime bw =
     (let bw = new_period now bw;
          bw = bw\<lparr>bw_runtime := bw_runtime bw + runtime, bw_total_runtime := bw_total_runtime bw + runtime\<rparr>
      in if bw_runtime bw > bw_quota bw \<and> bw_flags bw AND GROUP_THROTTLED = 0
         then bw\<lparr>bw_flags := bw_flags bw OR GROUP_THROTTLED, bw_nr_throttled := bw_nr_throttled bw + 1\<rparr>
         else bw)"

definition check_bandwidth_limit :: "u64 \<Rightarrow> bandwidth_control \<Rightarrow> bool \<times> bandwidth_control" where
  "check_bandwidth_limit now bw = (let bw = new_period now bw in (bw_runtime bw < bw_quota bw, bw))"

section \<open>Groups\<close>

record 'l task_group_advanced =
  ga_bw :: bandwidth_control
  ga_depth :: int
  ga_parent :: addr
  ga_children :: 'l
  ga_tasks :: 'l
  ga_shares :: u64
  ga_load_avg :: u64

record task_extension =
  te_group :: addr
  te_vruntime :: u64
  te_exec_start :: u64
  te_slice_end :: u64
  te_cpu_preferred :: int
  te_last_migration :: u64

record 'l adv_sched =
  as_group :: "addr \<Rightarrow> 'l task_group_advanced"
  as_task :: "addr \<Rightarrow> task_extension"

text \<open>\<open>(GROUP_MAX_PERIOD * DEFAULT_BANDWIDTH) / 100\<close> is computed in 32 bits with a sign, and wraps.\<close>

definition default_bandwidth :: u64 where
  "default_bandwidth = word_of_int (sint (1000000000 * 70 :: 32 word) sdiv 100)"

text \<open>\<open>grp\<close> is the result of \<open>kzalloc\<close>, which clears the memory; the result is an error number or the group.\<close>

definition zero_bandwidth :: bandwidth_control where
  "zero_bandwidth = \<lparr>bw_period = 0, bw_quota = 0, bw_runtime = 0, bw_deadline = 0, bw_flags = 0, bw_total_runtime = 0, bw_nr_throttled = 0\<rparr>"

definition create_task_group_advanced :: "('l, addr) kernel_list \<Rightarrow> u64 \<Rightarrow> addr \<Rightarrow> addr \<Rightarrow> 'l adv_sched \<Rightarrow> (int + addr) \<times> 'l adv_sched" where
  "create_task_group_advanced K now grp parent s =
     (let depth = (if parent \<noteq> NULL then ga_depth (as_group s parent) + 1 else 0) in
      if depth \<ge> 8 then (Inl (- 22), s)
      else if grp = NULL then (Inl (- 12), s)
      else case init_bandwidth_control now (Some zero_bandwidth) GROUP_MAX_PERIOD default_bandwidth of
        (err, bw) \<Rightarrow>
          if err \<noteq> 0 then (Inl (- 22), s)
          else
            let s = s\<lparr>as_group := (as_group s)(grp := \<lparr>ga_bw = the bw, ga_depth = depth, ga_parent = parent, ga_children = INIT_LIST_HEAD K,
                        ga_tasks = INIT_LIST_HEAD K, ga_shares = 0, ga_load_avg = 0\<rparr>)\<rparr>;
                s = (if parent \<noteq> NULL
                     then s\<lparr>as_group := (as_group s)(parent := (as_group s parent)\<lparr>ga_children := list_add_tail K grp (ga_children (as_group s parent))\<rparr>)\<rparr>
                     else s)
            in (Inr grp, s))"

text \<open>The lock of the new group is held while that of the old group is taken.\<close>

definition attach_task_to_group :: "('l, addr) kernel_list \<Rightarrow> addr \<Rightarrow> addr \<Rightarrow> 'l adv_sched \<Rightarrow> (int \<times> 'l adv_sched) option" where
  "attach_task_to_group K task grp s =
     (if task = NULL \<or> grp = NULL then Some (- 22, s)
      else
        let old = te_group (as_task s task) in
        if old = grp then None
        else
          let s = (if old \<noteq> NULL
                   then s\<lparr>as_group := (as_group s)(old := (as_group s old)\<lparr>ga_tasks := list_del K task (ga_tasks (as_group s old))\<rparr>)\<rparr>
                   else s);
              s = s\<lparr>as_task := (as_task s)(task := (as_task s task)\<lparr>te_group := grp\<rparr>)\<rparr>
          in Some (0, s\<lparr>as_group := (as_group s)(grp := (as_group s grp)\<lparr>ga_tasks := list_add_tail K task (ga_tasks (as_group s grp))\<rparr>)\<rparr>))"

section \<open>Load balancing\<close>

datatype load_balance_state = LB_IDLE | LB_ACTIVE | LB_FAILED | LB_THROTTLED

record 'l cpu_domain =
  cd_cpu_id :: int
  cd_capacity :: u64
  cd_load :: u64
  cd_nr_running :: u64
  cd_groups :: 'l
  cd_lb_state :: load_balance_state
  cd_siblings :: 'l
  cd_children :: 'l
  cd_last_balance :: u64

definition init_cpu_domain :: "('l, addr) kernel_list \<Rightarrow> int \<Rightarrow> 'l cpu_domain" where
  "init_cpu_domain K cpu_id = \<lparr>cd_cpu_id = cpu_id, cd_capacity = 1024, cd_load = 0, cd_nr_running = 0, cd_groups = INIT_LIST_HEAD K, cd_lb_state = LB_IDLE,
     cd_siblings = INIT_LIST_HEAD K, cd_children = INIT_LIST_HEAD K, cd_last_balance = 0\<rparr>"

definition check_load_imbalance :: "('l, addr) kernel_list \<Rightarrow> (addr \<Rightarrow> 'l cpu_domain) \<Rightarrow> addr \<Rightarrow> bool option" where
  "check_load_imbalance K m domain =
     (let sibs = kl_elems K (cd_siblings (m domain));
          total_load = fold (\<lambda>sib tot. tot + cd_load (m sib)) sibs 0;
          nr_cpus = of_nat (length sibs) in
      if sibs = [] then Some False
      else
        let avg_load = total_load div nr_cpus in
        if avg_load = 0 then None else Some (cd_load (m domain) * 100 div avg_load > LOAD_IMBALANCE_PCT))"

text \<open>The loops over the tasks of the groups, \<open>i\<close> is the number of readings of the clock so far.\<close>

fun select_task_loop :: "(nat \<Rightarrow> u64) \<Rightarrow> (addr \<Rightarrow> task_extension) \<Rightarrow> addr list \<Rightarrow> nat \<Rightarrow> addr \<Rightarrow> u64 \<Rightarrow> addr \<times> nat" where
  "select_task_loop clock m [] i best_task min_interval = (best_task, i)"
| "select_task_loop clock m (task # ts) i best_task min_interval =
     (if clock i - te_last_migration (m task) < MIGRATION_COST then select_task_loop clock m ts (i + 1) best_task min_interval
      else
        let interval = te_slice_end (m task) - clock (i + 1) in
        if interval < min_interval then select_task_loop clock m ts (i + 2) task interval
        else select_task_loop clock m ts (i + 2) best_task min_interval)"

definition select_task_for_migration :: "('l, addr) kernel_list \<Rightarrow> (nat \<Rightarrow> u64) \<Rightarrow> 'l cpu_domain \<Rightarrow> 'l cpu_domain \<Rightarrow> 'l adv_sched \<Rightarrow> addr \<times> 'l adv_sched" where
  "select_task_for_migration K clock src dst s =
     (let ts = concat (map (\<lambda>g. kl_elems K (ga_tasks (as_group s g))) (kl_elems K (cd_groups src)));
          (best_task, i) = select_task_loop clock (as_task s) ts 0 NULL (- 1)
      in if best_task \<noteq> NULL
         then (best_task, s\<lparr>as_task := (as_task s)(best_task := (as_task s best_task)\<lparr>te_last_migration := clock i, te_cpu_preferred := cd_cpu_id dst\<rparr>)\<rparr>)
         else (best_task, s))"

section \<open>Preemption\<close>

text \<open>A test of the bandwidth of the group of a task.\<close>

definition check_group_bw :: "u64 \<Rightarrow> addr \<Rightarrow> 'l adv_sched \<Rightarrow> (bool \<times> 'l adv_sched) option" where
  "check_group_bw now task s =
     (let g = te_group (as_task s task) in
      if g = NULL then None
      else case check_bandwidth_limit now (ga_bw (as_group s g)) of
        (ok, bw) \<Rightarrow> Some (ok, s\<lparr>as_group := (as_group s)(g := (as_group s g)\<lparr>ga_bw := bw\<rparr>)\<rparr>))"

text \<open>\<open>FAIR_LATENCY\<close> has the value \<^verbatim>\<open>task_scheduler.c\<close> gives it; the file and its header do not define it.\<close>

abbreviation (input) FAIR_LATENCY_ADV :: u64 where "FAIR_LATENCY_ADV \<equiv> 6000000"

definition should_preempt_task :: "(nat \<Rightarrow> u64) \<Rightarrow> addr \<Rightarrow> addr \<Rightarrow> 'l adv_sched \<Rightarrow> (bool \<times> 'l adv_sched) option" where
  "should_preempt_task clock cur nxt s =
     (let now = clock 0 in
      if now - te_exec_start (as_task s cur) < PREEMPTION_GRANULARITY then Some (False, s)
      else
        Option.bind (check_group_bw (clock 1) cur s) (\<lambda>(ok, s).
        Option.bind (if \<not> ok then check_group_bw (clock 2) nxt s else Some (False, s)) (\<lambda>(ok', s).
          Some (\<not> ok \<and> ok' \<or> te_vruntime (as_task s nxt) + FAIR_LATENCY_ADV < te_vruntime (as_task s cur) \<or> now \<ge> te_slice_end (as_task s cur), s))))"

definition update_preemption_state :: "u64 \<Rightarrow> addr \<Rightarrow> 'l adv_sched \<Rightarrow> 'l adv_sched option" where
  "update_preemption_state now task s =
     (let g = as_group s (te_group (as_task s task)) in
      if te_group (as_task s task) = NULL \<or> ga_load_avg g + 1 = 0 then None
      else
        let slice = bw_quota (ga_bw g) * ga_shares g div (ga_load_avg g + 1);
            slice = (if slice < PREEMPTION_GRANULARITY then PREEMPTION_GRANULARITY else slice)
        in Some (s\<lparr>as_task := (as_task s)(task := (as_task s task)\<lparr>te_exec_start := now, te_slice_end := now + slice\<rparr>)\<rparr>))"

definition calculate_preemption_delay :: "u64 \<Rightarrow> task_extension \<Rightarrow> task_extension \<Rightarrow> u64" where
  "calculate_preemption_delay now cur nxt =
     (let delay = (if te_slice_end cur - now < PREEMPTION_GRANULARITY then te_slice_end cur - now else 0)
      in if te_cpu_preferred cur \<noteq> te_cpu_preferred nxt then max delay MIGRATION_COST else delay)"

end
