(* ===== verification/Bandwidth_Spec.thy ===== *)
theory Bandwidth_Spec
  imports Bandwidth
begin

text \<open>
  The bandwidth control of \<^verbatim>\<open>task_scheduler_advanced.c\<close> as a budget for each period, and groups and domains.
\<close>

section \<open>The control as a budget\<close>

text \<open>The specification: the end of the period and the time used in it.\<close>

datatype bw_event = Use u64 u64 | Ask u64

fun budget_step :: "nat \<Rightarrow> bw_event \<Rightarrow> nat \<times> nat \<Rightarrow> nat \<times> nat" where
  "budget_step period (Use now r) (dl, used) = (if unat now \<ge> dl then (unat now + period, unat r) else (dl, used + unat r))"
| "budget_step period (Ask now) (dl, used) = (if unat now \<ge> dl then (unat now + period, 0) else (dl, used))"

fun budget_run :: "nat \<Rightarrow> bw_event list \<Rightarrow> nat \<times> nat \<Rightarrow> nat \<times> nat" where
  "budget_run period [] b = b"
| "budget_run period (e # es) b = budget_run period es (budget_step period e b)"

fun bw_step :: "bw_event \<Rightarrow> bandwidth_control \<Rightarrow> bandwidth_control" where
  "bw_step (Use now r) bw = update_bandwidth_usage now r bw"
| "bw_step (Ask now) bw = snd (check_bandwidth_limit now bw)"

fun bw_run :: "bw_event list \<Rightarrow> bandwidth_control \<Rightarrow> bandwidth_control" where
  "bw_run [] bw = bw"
| "bw_run (e # es) bw = bw_run es (bw_step e bw)"

text \<open>Times and amounts that do not overflow: the clock with a period, and all usage together.\<close>

fun event_time :: "bw_event \<Rightarrow> nat" where
  "event_time (Use now r) = unat now"
| "event_time (Ask now) = unat now"

fun event_use :: "bw_event \<Rightarrow> nat" where
  "event_use (Use now r) = unat r"
| "event_use (Ask now) = 0"

definition throttled :: "bandwidth_control \<Rightarrow> bool" where
  "throttled bw \<longleftrightarrow> bw_flags bw AND GROUP_THROTTLED \<noteq> 0"

definition budget_rel :: "bandwidth_control \<Rightarrow> nat \<times> nat \<Rightarrow> bool" where
  "budget_rel bw b \<longleftrightarrow> unat (bw_deadline bw) = fst b \<and> unat (bw_runtime bw) = snd b \<and> (throttled bw \<longleftrightarrow> snd b > unat (bw_quota bw))"

lemma flag_clear: "((f :: u32) AND NOT GROUP_THROTTLED) AND GROUP_THROTTLED = 0"
  by (rule bit_word_eqI) (auto simp: bit_simps)

lemma flag_clear' [simp]: "((f :: u32) AND - 2) AND 1 = 0"
  using flag_clear[of f] by simp

lemma flag_set: "((f :: u32) OR GROUP_THROTTLED) AND GROUP_THROTTLED \<noteq> 0"
proof -
  have "(f OR GROUP_THROTTLED) AND GROUP_THROTTLED = GROUP_THROTTLED" by (rule bit_word_eqI) (auto simp: bit_simps)
  then show ?thesis by simp
qed

lemma new_period_rel:
  assumes "budget_rel bw (dl, used)" "unat now + unat (bw_period bw) < 2 ^ 64"
  shows "budget_rel (new_period now bw) (if unat now \<ge> dl then (unat now + unat (bw_period bw), 0) else (dl, used)) \<and>
    bw_period (new_period now bw) = bw_period bw \<and> bw_quota (new_period now bw) = bw_quota bw"
proof -
  have "unat (now + bw_period bw) = unat now + unat (bw_period bw)" using assms(2) by (simp add: unat_plus_if')
  with assms(1) show ?thesis
    by (auto simp: new_period_def budget_rel_def throttled_def flag_clear word_le_nat_alt)
qed

lemma budget_rel_use:
  assumes "budget_rel bw (dl, used)" "used + unat r < 2 ^ 64"
  shows "budget_rel (let bw = bw\<lparr>bw_runtime := bw_runtime bw + r, bw_total_runtime := bw_total_runtime bw + r\<rparr>
      in if bw_runtime bw > bw_quota bw \<and> bw_flags bw AND GROUP_THROTTLED = 0
         then bw\<lparr>bw_flags := bw_flags bw OR GROUP_THROTTLED, bw_nr_throttled := bw_nr_throttled bw + 1\<rparr> else bw) (dl, used + unat r)"
proof -
  have u: "unat (bw_runtime bw + r) = used + unat r" using assms by (simp add: budget_rel_def unat_plus_if')
  then have gt: "bw_runtime bw + r > bw_quota bw \<longleftrightarrow> used + unat r > unat (bw_quota bw)" by (simp add: word_less_nat_alt)
  show ?thesis using assms(1) u gt flag_set by (auto simp: budget_rel_def throttled_def Let_def)
qed

lemma budget_rel_step:
  assumes rel: "budget_rel bw (dl, used)" and t: "event_time e + unat (bw_period bw) < 2 ^ 64" and u: "used + event_use e < 2 ^ 64"
  shows "budget_rel (bw_step e bw) (budget_step (unat (bw_period bw)) e (dl, used)) \<and>
    bw_period (bw_step e bw) = bw_period bw \<and> bw_quota (bw_step e bw) = bw_quota bw"
proof (cases e)
  case (Ask now)
  then show ?thesis using new_period_rel[OF rel, of now] t by (auto simp: check_bandwidth_limit_def Let_def)
next
  case (Use now r)
  have np: "budget_rel (new_period now bw) (if unat now \<ge> dl then (unat now + unat (bw_period bw), 0) else (dl, used))"
    "bw_period (new_period now bw) = bw_period bw" "bw_quota (new_period now bw) = bw_quota bw"
    using new_period_rel[OF rel, of now] t Use by auto
  have "budget_rel (bw_step e bw) (budget_step (unat (bw_period bw)) e (dl, used))"
  proof (cases "unat now \<ge> dl")
    case True
    with budget_rel_use[of "new_period now bw" _ 0 r] np(1) u Use show ?thesis by (simp add: update_bandwidth_usage_def Let_def)
  next
    case False
    with budget_rel_use[of "new_period now bw" dl used r] np(1) u Use show ?thesis by (simp add: update_bandwidth_usage_def Let_def)
  qed
  with np(2,3) Use show ?thesis by (simp add: update_bandwidth_usage_def Let_def)
qed

lemma budget_step_used: "snd (budget_step period e (dl, used)) \<le> used + event_use e"
  by (cases e) auto

lemma budget_run_rel:
  "budget_rel bw b \<Longrightarrow> \<forall>e \<in> set es. event_time e + unat (bw_period bw) < 2 ^ 64 \<Longrightarrow> snd b + sum_list (map event_use es) < 2 ^ 64 \<Longrightarrow>
   budget_rel (bw_run es bw) (budget_run (unat (bw_period bw)) es b) \<and> bw_quota (bw_run es bw) = bw_quota bw \<and> bw_period (bw_run es bw) = bw_period bw"
proof (induction es arbitrary: bw b)
  case (Cons e es)
  obtain dl used where b: "b = (dl, used)" by fastforce
  have st: "budget_rel (bw_step e bw) (budget_step (unat (bw_period bw)) e b)" "bw_period (bw_step e bw) = bw_period bw" "bw_quota (bw_step e bw) = bw_quota bw"
    using budget_rel_step[of bw dl used e] Cons.prems by (auto simp: b)
  have "snd (budget_step (unat (bw_period bw)) e b) + sum_list (map event_use es) < 2 ^ 64"
    using Cons.prems(3) budget_step_used[of "unat (bw_period bw)" e dl used] by (simp add: b)
  with Cons.IH[OF st(1)] Cons.prems(2) st(2,3) show ?case by simp
qed simp

section \<open>Groups and domains\<close>

text \<open>The default quota of a group is 12805232 of 1000000000 nanoseconds, about 1.3 instead of 70 per cent.\<close>

lemma default_bandwidth_value: "unat default_bandwidth = 12805232"
  by (simp add: default_bandwidth_def signed_divide_int_def)

text \<open>Attaching a task to the group it is in waits for a lock that is held.\<close>

lemma attach_same_group_hangs: "task \<noteq> NULL \<Longrightarrow> grp \<noteq> NULL \<Longrightarrow> te_group (as_task s task) = grp \<Longrightarrow> attach_task_to_group K task grp s = None"
  by (simp add: attach_task_to_group_def)

text \<open>Domains whose siblings are idle cannot be compared with them.\<close>

lemma check_load_imbalance_idle:
  assumes "kl_elems K (cd_siblings (m domain)) \<noteq> []" "\<forall>sib \<in> set (kl_elems K (cd_siblings (m domain))). cd_load (m sib) = 0"
  shows "check_load_imbalance K m domain = None"
proof -
  have "fold (\<lambda>sib tot. tot + cd_load (m sib)) sibs 0 = 0" if "\<forall>sib \<in> set sibs. cd_load (m sib) = 0" for sibs
    using that by (induction sibs) simp_all
  with assms show ?thesis by (simp add: check_load_imbalance_def Let_def)
qed

section \<open>Properties\<close>

text \<open>C30: bandwidth control is a budget for each period: after any sequence of uses and questions on a control that was initialised, its runtime is
  the time used since the current period began, the group is marked as throttled exactly when this exceeds the quota, and the next question is answered with
  yes exactly when it is below.\<close>

theorem bandwidth_budget:
  assumes "init_bandwidth_control now0 bw0 period quota = (0, Some bw)"
    and "\<forall>e \<in> set es. event_time e + unat period < 2 ^ 64" "unat now0 + unat period < 2 ^ 64" "sum_list (map event_use es) < 2 ^ 64"
    and "budget_run (unat period) es (unat now0 + unat period, 0) = (dl, used)"
  shows "unat (bw_runtime (bw_run es bw)) = used \<and> (throttled (bw_run es bw) \<longleftrightarrow> used > unat quota) \<and>
    (unat now < dl \<longrightarrow> fst (check_bandwidth_limit now (bw_run es bw)) = (used < unat quota))"
proof -
  have bw: "bw_period bw = period" "bw_quota bw = quota" "bw_deadline bw = now0 + period" "bw_runtime bw = 0" "bw_flags bw = 0"
    using assms(1) by (auto simp: init_bandwidth_control_def split: if_splits)
  have "budget_rel bw (unat now0 + unat period, 0)" using assms(3) by (simp add: budget_rel_def throttled_def bw unat_plus_if')
  from budget_run_rel[OF this, of es] assms(2,4,5)
  have rel: "budget_rel (bw_run es bw) (dl, used)" "bw_quota (bw_run es bw) = quota" by (simp_all add: bw)
  then show ?thesis
    by (auto simp: budget_rel_def check_bandwidth_limit_def new_period_def Let_def word_le_nat_alt word_less_nat_alt)
qed

definition ex_bw :: bandwidth_control where
  "ex_bw = \<lparr>bw_period = 1000000, bw_quota = 500000, bw_runtime = 0, bw_deadline = 1000005, bw_flags = 0, bw_total_runtime = 0, bw_nr_throttled = 0\<rparr>"

theorem bandwidth_budget_witness:
  "throttled (bw_run [Use 10 400000, Use 20 200000] ex_bw) \<and> \<not> fst (check_bandwidth_limit 30 (bw_run [Use 10 400000, Use 20 200000] ex_bw))"
proof -
  have i: "init_bandwidth_control 5 (Some ex_bw) 1000000 500000 = (0, Some ex_bw)" by (simp add: init_bandwidth_control_def ex_bw_def)
  have "unat (bw_runtime (bw_run [Use 10 400000, Use 20 200000] ex_bw)) = 600000 \<and>
      (throttled (bw_run [Use 10 400000, Use 20 200000] ex_bw) \<longleftrightarrow> 600000 > unat (500000 :: u64)) \<and>
      (unat (30 :: u64) < 1000005 \<longrightarrow> fst (check_bandwidth_limit 30 (bw_run [Use 10 400000, Use 20 200000] ex_bw)) = (600000 < unat (500000 :: u64)))"
    by (rule bandwidth_budget[OF i]) simp_all
  then show ?thesis by simp
qed

end
