(* ===== verification/Buddy.thy ===== *)
theory Buddy
  imports Kernel_List Kernel_Rbtree
begin

text \<open>
  Model of \<open>custom_allocator.c\<close>, a buddy allocator written against the Linux kernel: blocks of a power of two bytes, the free ones in a list for
  each order and in a red-black tree ordered by address. The lists of the kernel are the parameter \<open>K\<close>, its trees \<open>T\<close>, the macros
  \<open>ALIGN\<close> and \<open>ilog2\<close> the parameter \<open>A\<close>. The descriptions of blocks live in a memory apart from the memory that is managed; the \<open>n\<close>th
  call of \<open>kzalloc\<close> returns \<open>kz n\<close>, and \<open>bp_allocs\<close> counts the calls. \<open>hdr\<close> is \<open>sizeof(struct mem_block)\<close>. The spin lock makes every
  operation one step. \<open>None\<close> is a loop that does not end or an access outside the array of the free lists. Fields no function uses are left out,
  and the printing of \<open>dump_tree\<close>.
\<close>

unbundle bit_operations_syntax

record mem_block =
  bb_start :: u64
  bb_size :: u64
  bb_order :: nat
  bb_flags :: u32
  bb_magic :: u64
  bb_parent :: addr
  bb_right :: addr

record ('r, 'l) mem_pool =
  bp_block :: "addr \<Rightarrow> mem_block"
  bp_start :: u64
  bp_end :: u64
  bp_total :: u64
  bp_used :: u64
  bp_tree :: 'r
  bp_lists :: "'l list"
  bp_root :: addr
  bp_allocs :: nat

record kernel_arith =
  ALIGN :: "u64 \<Rightarrow> u64 \<Rightarrow> u64"
  ilog2 :: "u64 \<Rightarrow> nat"

abbreviation (input) MIN_BLOCK_ORDER :: nat where "MIN_BLOCK_ORDER \<equiv> 5"
abbreviation (input) MAX_BLOCK_ORDER :: nat where "MAX_BLOCK_ORDER \<equiv> 20"
abbreviation (input) BLOCK_MAGIC :: u64 where "BLOCK_MAGIC \<equiv> 0xDEADBEEF"
abbreviation (input) BLOCK_FLAG_FREE :: u32 where "BLOCK_FLAG_FREE \<equiv> 1"
abbreviation (input) BLOCK_FLAG_SPLIT :: u32 where "BLOCK_FLAG_SPLIT \<equiv> 2"
abbreviation (input) BLOCK_FLAG_BUDDY :: u32 where "BLOCK_FLAG_BUDDY \<equiv> 4"

abbreviation upd_block :: "addr \<Rightarrow> (mem_block \<Rightarrow> mem_block) \<Rightarrow> ('r, 'l) mem_pool \<Rightarrow> ('r, 'l) mem_pool" where
  "upd_block b f s \<equiv> s\<lparr>bp_block := (bp_block s)(b := f (bp_block s b))\<rparr>"

section \<open>The free blocks\<close>

definition insert_free_block :: "('l, addr) kernel_list \<Rightarrow> 'r link_tree \<Rightarrow> addr \<Rightarrow> ('r, 'l) mem_pool \<Rightarrow> ('r, 'l) mem_pool option" where
  "insert_free_block K T block s =
     (let order = bb_order (bp_block s block) in
      if order > MAX_BLOCK_ORDER then None
      else
        let s = s\<lparr>bp_lists := (bp_lists s)[order := list_add K block (bp_lists s ! order)]\<rparr> in
        Option.bind (rb_descend (\<lambda>b. bb_start (bp_block s b)) (rb_left T (bp_tree s)) (rb_right T (bp_tree s)) (bb_start (bp_block s block))
            (rb_node T (bp_tree s)) NULL False) (\<lambda>(parent, side).
          Some (s\<lparr>bp_tree := rb_insert_color T block (rb_link_node T block parent side (bp_tree s))\<rparr>)))"

text \<open>A free block is on the list of its order.\<close>

definition remove_free_block :: "('l, addr) kernel_list \<Rightarrow> 'r link_tree \<Rightarrow> addr \<Rightarrow> ('r, 'l) mem_pool \<Rightarrow> ('r, 'l) mem_pool" where
  "remove_free_block K T block s =
     (let order = bb_order (bp_block s block) in
      s\<lparr>bp_lists := (bp_lists s)[order := list_del K block (bp_lists s ! order)], bp_tree := rb_erase T block (bp_tree s)\<rparr>)"

function find_larger :: "('l, addr) kernel_list \<Rightarrow> 'l list \<Rightarrow> nat \<Rightarrow> addr" where
  "find_larger K ls order =
     (if order > MAX_BLOCK_ORDER then NULL
      else if \<not> list_empty K (ls ! order) then list_first_entry K (ls ! order)
      else find_larger K ls (order + 1))"
  by pat_completeness auto
termination by (relation "measure (\<lambda>(K, ls, order). 21 - order)") auto

definition find_free_block :: "('l, addr) kernel_list \<Rightarrow> nat \<Rightarrow> ('r, 'l) mem_pool \<Rightarrow> addr option" where
  "find_free_block K order s =
     (if order > MAX_BLOCK_ORDER then None
      else if \<not> list_empty K (bp_lists s ! order) then Some (list_first_entry K (bp_lists s ! order))
      else Some (find_larger K (bp_lists s) order))"

section \<open>Initialisation\<close>

text \<open>\<open>mem\<close> is the result of \<open>vmalloc\<close>. The result is an error number and the pool.\<close>

definition init_memory_pool ::
    "('l, addr) kernel_list \<Rightarrow> 'r link_tree \<Rightarrow> kernel_arith \<Rightarrow> (nat \<Rightarrow> addr) \<Rightarrow> u64 \<Rightarrow> addr \<Rightarrow> u64 \<Rightarrow> ('r, 'l) mem_pool \<Rightarrow> (int \<times> ('r, 'l) mem_pool) option" where
  "init_memory_pool K T A kz mem pool sz s =
     (if pool = NULL \<or> sz < push_bit MIN_BLOCK_ORDER 1 then Some (- 2, s)
      else
        let sz = ALIGN A sz (push_bit MAX_BLOCK_ORDER 1); s = s\<lparr>bp_start := mem\<rparr> in
        if mem = 0 then Some (- 1, s)
        else
          let s = s\<lparr>bp_end := mem + sz, bp_total := sz, bp_used := 0, bp_tree := RB_ROOT T,
                    bp_lists := replicate (MAX_BLOCK_ORDER + 1) (INIT_LIST_HEAD K)\<rparr>;
              root = kz (bp_allocs s); s = s\<lparr>bp_root := root, bp_allocs := bp_allocs s + 1\<rparr> in
          if root = NULL then Some (- 1, s)
          else
            let s = upd_block root (\<lambda>_. \<lparr>bb_start = mem, bb_size = sz, bb_order = ilog2 A sz, bb_flags = BLOCK_FLAG_FREE, bb_magic = BLOCK_MAGIC,
                                        bb_parent = NULL, bb_right = NULL\<rparr>) s
            in Option.bind (insert_free_block K T root s) (\<lambda>s. Some (0, s)))"

section \<open>Splitting and merging\<close>

fun split_loop ::
    "('l, addr) kernel_list \<Rightarrow> 'r link_tree \<Rightarrow> (nat \<Rightarrow> addr) \<Rightarrow> addr \<Rightarrow> nat \<Rightarrow> nat \<Rightarrow> ('r, 'l) mem_pool \<Rightarrow> (addr \<times> ('r, 'l) mem_pool) option" where
  "split_loop K T kz block target_order 0 s = Some (block, s)"
| "split_loop K T kz block target_order (Suc current_order) s =
     (if Suc current_order > target_order then
        let buddy = kz (bp_allocs s); s = s\<lparr>bp_allocs := bp_allocs s + 1\<rparr> in
        if buddy = NULL then Some (NULL, s)
        else
          let s = upd_block buddy (\<lambda>_. \<lparr>bb_start = bb_start (bp_block s block) + push_bit current_order 1, bb_size = push_bit current_order 1,
                     bb_order = current_order, bb_flags = BLOCK_FLAG_FREE OR BLOCK_FLAG_BUDDY, bb_magic = BLOCK_MAGIC, bb_parent = block, bb_right = NULL\<rparr>) s;
              s = upd_block block (\<lambda>b. b\<lparr>bb_size := push_bit current_order 1, bb_order := current_order,
                     bb_flags := bb_flags b OR BLOCK_FLAG_SPLIT, bb_right := buddy\<rparr>) s
          in Option.bind (insert_free_block K T buddy s) (split_loop K T kz block target_order current_order)
      else Some (block, s))"

definition split_block ::
    "('l, addr) kernel_list \<Rightarrow> 'r link_tree \<Rightarrow> (nat \<Rightarrow> addr) \<Rightarrow> addr \<Rightarrow> nat \<Rightarrow> ('r, 'l) mem_pool \<Rightarrow> (addr \<times> ('r, 'l) mem_pool) option" where
  "split_block K T kz block target_order s = split_loop K T kz block target_order (bb_order (bp_block s block)) s"

partial_function (option) merge_buddies :: "('l, addr) kernel_list \<Rightarrow> 'r link_tree \<Rightarrow> addr \<Rightarrow> ('r, 'l) mem_pool \<Rightarrow> ('r, 'l) mem_pool option" where
  "merge_buddies K T block s =
     (let parent = bb_parent (bp_block s block) in
      if parent = NULL then Some s
      else
        let buddy_addr = bb_start (bp_block s block) XOR push_bit (bb_order (bp_block s block)) 1; buddy = rb_next T block (bp_tree s) in
        if buddy = NULL \<or> bb_start (bp_block s buddy) \<noteq> buddy_addr \<or> bb_flags (bp_block s buddy) AND BLOCK_FLAG_FREE = 0 \<or>
           bb_order (bp_block s buddy) \<noteq> bb_order (bp_block s block)
        then Some s
        else
          let s = remove_free_block K T buddy (remove_free_block K T block s);
              s = upd_block parent (\<lambda>b. b\<lparr>bb_flags := (bb_flags b AND NOT BLOCK_FLAG_SPLIT) OR BLOCK_FLAG_FREE\<rparr>) s
          in Option.bind (insert_free_block K T parent s) (merge_buddies K T parent))"

section \<open>Allocation and release\<close>

function order_loop :: "u64 \<Rightarrow> nat \<Rightarrow> nat" where
  "order_loop sz order =
     (if order \<ge> MIN_BLOCK_ORDER then if sz > push_bit order 1 then order + 1 else order_loop sz (order - 1)
      else MIN_BLOCK_ORDER)"
  by pat_completeness auto
termination by (relation "measure snd") auto

definition get_block_order :: "u64 \<Rightarrow> nat" where
  "get_block_order sz = order_loop sz MAX_BLOCK_ORDER"

text \<open>\<open>pool\<close> is the pointer to the pool, tested by the code; the result is the address of the memory.\<close>

definition mem_alloc ::
    "('l, addr) kernel_list \<Rightarrow> 'r link_tree \<Rightarrow> (nat \<Rightarrow> addr) \<Rightarrow> u64 \<Rightarrow> addr \<Rightarrow> u64 \<Rightarrow> ('r, 'l) mem_pool \<Rightarrow> (u64 \<times> ('r, 'l) mem_pool) option" where
  "mem_alloc K T kz hdr pool sz s =
     (if pool = NULL \<or> sz = 0 then Some (0, s)
      else
        let order = get_block_order (sz + hdr) in
        Option.bind (find_free_block K order s) (\<lambda>block.
          if block = NULL then Some (0, s)
          else
            let s = remove_free_block K T block s in
            Option.bind (if bb_order (bp_block s block) > order then split_block K T kz block order s else Some (block, s)) (\<lambda>(block, s).
              if block = NULL then Some (0, s)
              else
                let s = upd_block block (\<lambda>b. b\<lparr>bb_flags := bb_flags b AND NOT BLOCK_FLAG_FREE\<rparr>) s;
                    s = s\<lparr>bp_used := bp_used s + bb_size (bp_block s block)\<rparr>
                in Some (bb_start (bp_block s block), s))))"

partial_function (option) find_block :: "'r link_tree \<Rightarrow> u64 \<Rightarrow> ('r, 'l) mem_pool \<Rightarrow> addr \<Rightarrow> addr option" where
  "find_block T ptr s block =
     (if block = NULL then Some NULL
      else if ptr < bb_start (bp_block s block) then find_block T ptr s (rb_left T (bp_tree s) block)
      else if ptr > bb_start (bp_block s block) then find_block T ptr s (rb_right T (bp_tree s) block)
      else Some block)"

definition mem_free :: "('l, addr) kernel_list \<Rightarrow> 'r link_tree \<Rightarrow> addr \<Rightarrow> u64 \<Rightarrow> ('r, 'l) mem_pool \<Rightarrow> ('r, 'l) mem_pool option" where
  "mem_free K T pool ptr s =
     (if pool = NULL \<or> ptr = 0 then Some s
      else
        Option.bind (find_block T ptr s (rb_node T (bp_tree s))) (\<lambda>block.
          if block = NULL \<or> bb_magic (bp_block s block) \<noteq> BLOCK_MAGIC then Some s
          else
            let s = upd_block block (\<lambda>b. b\<lparr>bb_flags := bb_flags b OR BLOCK_FLAG_FREE\<rparr>) s;
                s = s\<lparr>bp_used := bp_used s - bb_size (bp_block s block)\<rparr>
            in Option.bind (insert_free_block K T block s) (merge_buddies K T block)))"

declare find_larger.simps [simp del] order_loop.simps [simp del]
declare merge_buddies.simps [code] find_block.simps [code]

end
