(* ===== verification/Buddy_Spec.thy ===== *)
theory Buddy_Spec
  imports Buddy
begin

text \<open>
  The allocator of \<^verbatim>\<open>custom_allocator.c\<close>: the free blocks in lists and tree, the blocks as a tiling of the pool, every operation on them, and sequences
  of calls.
\<close>

section \<open>Orders\<close>

lemma unat_pow2 [simp]: "k < 64 \<Longrightarrow> unat (2 ^ k :: u64) = 2 ^ k"
proof -
  assume "k < 64"
  then have "(2 :: nat) ^ k < 2 ^ 64" by (intro power_strict_increasing) auto
  moreover have "(2 ^ k :: u64) = of_nat (2 ^ k)" by simp
  ultimately show ?thesis by (simp only: unat_of_nat) simp
qed



section \<open>Lists and tree of the free blocks\<close>









section \<open>The blocks tile the pool\<close>















section \<open>Allocation and release\<close>






text \<open>Requests of more than a megabyte, with the header, and pools of more than a megabyte access free lists that do not exist.\<close>

lemma mem_alloc_too_large: "pool \<noteq> NULL \<Longrightarrow> sz \<noteq> 0 \<Longrightarrow> 2 ^ 20 < unat (sz + hdr) \<Longrightarrow> mem_alloc K T kz hdr pool sz s = None"
  by (simp add: mem_alloc_def get_block_order_def order_loop.simps[of _ 20] find_free_block_def word_less_nat_alt)

section \<open>Initialisation\<close>





section \<open>Sequences of calls\<close>











section \<open>Properties\<close>









end
