(* ===== verification/Spec2Isabelle.thy ===== *)
theory Spec2Isabelle
  imports Rbtree_Spec Hashtable_Spec Traffic_Control_Spec Scheduler_Spec Multiqueue_Spec Timer_Spec Systick
    Lockless_Queue Lockless_Stack Lockless_Spec Protocol_Spec Load_Balancer_Spec Async_Ops_Spec
    Rtos_Core_Spec Memory_Order Spinlock_Spec Cascade_Crypto_Spec Memory_Pool_Spec Task_Scheduler_Spec
    Pi_Mutex_Spec Bandwidth_Spec Buddy_Spec
begin

text \<open>
  Verification of the real-time operating system under \<open>mini_rtos/\<close>.

  \<^bold>\<open>The program.\<close> The scheduler (\<open>src/scheduler.c\<close>) keeps the task control blocks of \<open>include/scheduler.h\<close>. Ready tasks
  are nodes of a red-black tree (\<open>src/rbtree.c\<close>) ordered by priority or deadline; tasks are found by identifier and name through
  two hash tables (\<open>src/hashtable.c\<close>); traffic control (\<open>src/traffic_control.c\<close>) queues them in eight classes behind token buckets
  and hands them to the dispatcher. The system tick (\<open>src/systick.c\<close>) wakes delayed tasks and turns the timer wheel
  (\<open>src/timer.c\<close>). Tasks exchange messages through bounded queues (\<open>src/multiqueue.c\<close>), lock-free structures
  (\<open>src/lockless.c\<close>) and framed protocols (\<open>src/protocol.c\<close>). On several cores a load balancer
  (\<open>src/load_balancer.c\<close>) places and moves tasks, and worker threads run its operations asynchronously
  (\<open>src/async_ops.c\<close>). The core (\<open>src/rtos_core.c\<close>) has a heap, a task list and a context switch of its own, and
  \<open>src/memory_order.c\<close> the atomic accesses of the load balancer and the workers. Beside the kernel the repository has independent
  programs, of which the locks (\<open>spinlock.c\<close>), the cipher (\<open>cascade_crypto.c\<close>), the memory pool (\<open>memory_pool.c\<close>), the buddy
  allocator (\<open>custom_allocator.c\<close>), the fair scheduler (\<open>task_scheduler.c\<close>), the real-time features (\<open>scheduler_features.c\<close>) and the bandwidth control
  (\<open>task_scheduler_advanced.c\<close>) are verified too.

  \<^bold>\<open>Conventions.\<close> Unsigned integers are words of their width, so sums and differences wrap as in C. A pointer is a natural number
  and \<open>NULL\<close> is 0; structures reached through pointers live in memories \<open>addr \<Rightarrow> record\<close>, so aliasing is explicit. What an
  allocator, a clock or a function outside the repository returns is an argument. The value \<open>None\<close> stands for undefined behaviour or a
  loop that does not end; a theorem that an operation works therefore states \<open>\<dots> = Some \<dots>\<close>. Loops over memory are
  partial functions into \<open>option\<close>, without fuel: the theorems prove that they end. Loops with a counter run over the list of its values.
  A mutex that brackets an operation makes it one step; the lock-free structures are step relations in which every atomic access is
  a step of its own and threads interleave arbitrarily (sequentially consistent accesses).

  \<^bold>\<open>Shared theories.\<close> \<^theory_text>\<open>Prelude\<close>: words, pointers, sorted lists. \<^theory_text>\<open>Linked_List\<close>: singly and doubly linked lists in
  memory. \<^theory_text>\<open>Simulation\<close>: executions of step relations and the locales \<open>state_machine\<close> (invariants) and \<open>simulation\<close>
  (refinement of traces).

  \<^bold>\<open>Components.\<close>

  \<^item> Red-black tree. \<^theory_text>\<open>Rbtree\<close> has every function of \<open>rbtree.c\<close>; \<^theory_text>\<open>Rbtree_Repr\<close> relates a node memory to a tree (colours,
    black height, order, parent pointers, sentinel, allocated nodes); \<^theory_text>\<open>Rbtree_Insert\<close>, \<^theory_text>\<open>Rbtree_Query\<close>, \<^theory_text>\<open>Rbtree_Delete\<close> and
    \<^theory_text>\<open>Rbtree_Splice\<close> prove the operations, both fix-up loops included; \<^theory_text>\<open>Rbtree_Spec\<close> states them as a stable priority queue
    (locale \<open>stable_queue\<close>).
  \<^item> Hash table. \<^theory_text>\<open>Hashtable\<close> and \<^theory_text>\<open>Hashtable_Spec\<close>: open addressing with deleted slots, growing and shrinking to the next prime; the
    table refines a map (locale \<open>map_store\<close>).
  \<^item> Traffic control. \<^theory_text>\<open>Tcb\<close> has the task control block and its enumerations, \<^theory_text>\<open>Traffic_Control\<close> the classes, queues and shapers,
    \<^theory_text>\<open>Traffic_Control_Spec\<close> the queues as lists, strict priority (locale \<open>class_queue\<close>) and the bound of the token bucket.
  \<^item> Scheduler. \<^theory_text>\<open>Scheduler\<close> composes the three above as \<open>scheduler.c\<close> does; \<^theory_text>\<open>Ready_Queue\<close> gives the ready set (locale
    \<open>ready_set\<close>), \<^theory_text>\<open>Scheduler_Spec\<close> task creation, choice of the next task, priority inheritance, delays, dispatching and
    critical sections.
  \<^item> Message queues. \<^theory_text>\<open>Multiqueue\<close> and \<^theory_text>\<open>Multiqueue_Spec\<close>: all sequences of calls refine a bounded ordered queue of messages.
  \<^item> Timers. \<^theory_text>\<open>Timer\<close>, \<^theory_text>\<open>Timer_Spec\<close> and \<^theory_text>\<open>Systick\<close>: the wheel of four levels, its advance and cascade, the tick
    handler; timers below tick 256 are exact, later ones never fire.
  \<^item> Lock-free structures. \<^theory_text>\<open>Lockless_Queue\<close> and \<^theory_text>\<open>Lockless_Stack\<close>: every interleaving of the queue and of the stack is an execution
    of an atomic one. \<^theory_text>\<open>Lockless\<close> and \<^theory_text>\<open>Lockless_Spec\<close>: the ring buffer, the hash table (one operation at a time) and the hazard
    pointers.
  \<^item> Protocols. \<^theory_text>\<open>Protocol\<close> and \<^theory_text>\<open>Protocol_Spec\<close>: frames, checksum, handlers, retries.
  \<^item> Load balancer. \<^theory_text>\<open>Load_Balancer\<close> and \<^theory_text>\<open>Load_Balancer_Spec\<close>: the searching loops (locale \<open>min_scan\<close>), the balancer as a state
    machine that conserves tasks.
  \<^item> Asynchronous operations. \<^theory_text>\<open>Async_Ops\<close> and \<^theory_text>\<open>Async_Ops_Spec\<close>: the pool, the queues of the workers, processing, shutdown, and
    the asynchronous interface of the load balancer on top.
  \<^item> Core. \<^theory_text>\<open>Rtos_Core\<close> and \<^theory_text>\<open>Rtos_Core_Spec\<close>: the first-fit allocator, whose blocks tile the heap, task creation, the context switch,
    the tick counter.
  \<^item> Atomic accesses. \<^theory_text>\<open>Memory_Order\<close>: accesses with their barriers, the read-modify-write loops as steps of threads, cache ranges.
  \<^item> Locks. \<^theory_text>\<open>Spinlock\<close> and \<^theory_text>\<open>Spinlock_Spec\<close>: the test-and-set, the reader-writer (on top of the first) and the ticket lock as step
    relations, mutual exclusion (locale \<open>mutual_exclusion\<close>).
  \<^item> Cipher. \<^theory_text>\<open>Cascade_Crypto\<close> and \<^theory_text>\<open>Cascade_Crypto_Spec\<close>: the loop over the buffer refines a mode of operation over a block cipher
    (locale \<open>block_cipher\<close>).
  \<^item> Modules of the Linux kernel. \<^theory_text>\<open>Kernel_List\<close> states what is known of the lists of the kernel, which are parameters, as are its
    allocator and its trees (\<^theory_text>\<open>Kernel_Rbtree\<close>, for the modules that search the place of a node themselves). \<^theory_text>\<open>Buddy\<close> and \<^theory_text>\<open>Buddy_Spec\<close>: the blocks of
    the buddy allocator tile the pool, no byte is handed out twice, and none is given back. \<^theory_text>\<open>Memory_Pool\<close> and \<^theory_text>\<open>Memory_Pool_Spec\<close>: concurrent calls hand out no block twice (an instance of \<open>simulation\<close>), but
    exceed the maximum of the pool. \<^theory_text>\<open>Task_Scheduler\<close> and \<^theory_text>\<open>Task_Scheduler_Spec\<close>: run queues, loads (locale \<open>best_scan\<close>), quotas of groups,
    the choice of the next task. \<^theory_text>\<open>Pi_Mutex\<close> and \<^theory_text>\<open>Pi_Mutex_Spec\<close>: the tree of deadline tasks, the mutex with priority inheritance as a
    step relation, propagation of priorities. \<^theory_text>\<open>Bandwidth\<close> and \<^theory_text>\<open>Bandwidth_Spec\<close>: the bandwidth control refines a budget per period.

  \<^bold>\<open>What the properties show.\<close> For each component first that its operations end and do what they are for on every state that
  satisfies the invariant, keeping the invariant (functional, refinement and invariant properties); then bounds and round trips; last the
  places where the code falls short of its purpose, as theorems with the conditions under which it happens (error properties): timers of 256
  ticks or more, the ring buffer under concurrent producers, the checksum, the shutdown of asynchronous operations,
  fetch-and-add under concurrency, the substitution table of the cipher. Further ones are theorems outside the
  list of properties: the number of active cores, the trees of the fair scheduler, two owners and a lost wake-up of the mutex with priority inheritance, the capacity of queues with expired messages, critical sections, equal keys in the search of the tree, cancellation.

  \<^bold>\<open>Not modelled.\<close> Weaker memory orders than sequential consistency are not considered: \<open>src/lockless.c\<close> uses the atomic operations of
  C11 and its accesses are atomic steps; the barriers of \<open>src/memory_order.c\<close> are recorded but have no effect. \<open>ipc.h\<close>, \<open>mmu.h\<close>,
  \<open>mpu.h\<close>, \<open>page_frame.h\<close>, \<open>power.h\<close>, \<open>vmm.h\<close> and \<open>scheduler_rt.h\<close> declare functions that no file defines. Register writes,
  printing and the idle loop are left out. The other files outside \<open>mini_rtos/\<close> are modules of the Linux kernel whose statements are
  mostly calls of it or accesses to its structures, socket programs, wrappers of interlocked operations, examples and tests.
\<close>

end
